(* ===== verification/Sys_Prelude.thy ===== *)
theory Sys_Prelude
  imports
    Complex_Main
    "HOL-Library.AList"
    "HOL-Library.Char_ord"
    "HOL-Library.List_Lexorder"
    "HOL-Library.Product_Lexorder"
    "HOL-Library.Sublist"
begin

text \<open>
  What the theories of the development share: the types that stand for Python's values, the
  pieces of the language and its standard library that the modelled code uses, and the
  generic facts about association lists, texts and rounding that the component proofs rely on.

  \<^item> A Python \<open>str\<close> is a \<^typ>\<open>string\<close> holding its UTF-8 bytes; \<open>py_len\<close> counts code points.
    UTF-8 keeps the order of code points, so the library's order on strings is Python's.
  \<^item> An aware \<open>datetime\<close> is an \<open>instant\<close>, its microseconds since the epoch; a naive one keeps
    its wall clock and is told apart by its constructor.
  \<^item> A \<open>float\<close> is a \<^typ>\<open>rat\<close>: the arithmetic is exact where Python's is rounded to 53 bits.
  \<^item> A \<open>dict\<close> is an association list in insertion order, read with \<^const>\<open>map_of\<close> and written
    with \<^const>\<open>AList.update\<close>, which keeps the position of an existing key as Python does.
  \<^item> The contents of a \<open>JSONB\<close> column are a \<open>json\<close> value.
\<close>

section \<open>Collections of facts\<close>

text \<open>
  \<open>family_simps\<close> collects the unfolding equations of the small text and record builders;
  \<open>table_simps\<close> the facts about single writes to a table; \<open>schema_intros\<close> the preservation
  lemmas of the schema constraints.
\<close>

named_theorems family_simps
named_theorems table_simps
named_theorems schema_intros

section \<open>Errors\<close>

text \<open>
  The exceptions the modelled code distinguishes. \<open>IntegrityError\<close> and \<open>DataError\<close> are what
  SQLAlchemy raises at a flush for a violated constraint and for a value too long for its
  column; both are \<open>SQLAlchemyError\<close>s.
\<close>

datatype py_error =
    IntegrityError string
  | DataError string
  | OperationalError
  | InternalError string
  | OtherError string

fun is_sqlalchemy_error :: "py_error \<Rightarrow> bool" where
  "is_sqlalchemy_error (IntegrityError _) = True"
| "is_sqlalchemy_error (DataError _) = True"
| "is_sqlalchemy_error OperationalError = True"
| "is_sqlalchemy_error (InternalError _) = True"
| "is_sqlalchemy_error (OtherError _) = False"

section \<open>Texts\<close>

text \<open>The non-ASCII characters the modelled messages contain, in UTF-8.\<close>

definition em_dash :: string where
  "em_dash = [CHR 0xE2, CHR 0x80, CHR 0x94]"

definition bullet :: string where
  "bullet = [CHR 0xE2, CHR 0x80, CHR 0xA2]"

definition ellipsis :: string where
  "ellipsis = [CHR 0xE2, CHR 0x80, CHR 0xA6]"

definition times_sign :: string where
  "times_sign = [CHR 0xC3, CHR 0x97]"

definition degree_sign :: string where
  "degree_sign = [CHR 0xC2, CHR 0xB0]"

definition newline :: string where
  "newline = [CHR 0x0A]"

text \<open>A byte \<open>10xxxxxx\<close> continues a UTF-8 sequence; every other byte starts a code point.\<close>

definition utf8_continuation :: "char \<Rightarrow> bool" where
  "utf8_continuation c = (0x80 \<le> (of_char c :: nat) \<and> (of_char c :: nat) < 0xC0)"

definition py_len :: "string \<Rightarrow> nat" where
  "py_len s = length (filter (\<lambda>c. \<not> utf8_continuation c) s)"

definition ascii_upper_char :: "char \<Rightarrow> char" where
  "ascii_upper_char c =
     (let n = (of_char c :: nat) in if 97 \<le> n \<and> n \<le> 122 then char_of (n - 32) else c)"

definition ascii_lower_char :: "char \<Rightarrow> char" where
  "ascii_lower_char c =
     (let n = (of_char c :: nat) in if 65 \<le> n \<and> n \<le> 90 then char_of (n + 32) else c)"

text \<open>\<open>str.lower\<close> and \<open>str.upper\<close> on ASCII letters; other characters are left alone.\<close>

definition py_lower :: "string \<Rightarrow> string" where
  "py_lower = map ascii_lower_char"

definition py_upper :: "string \<Rightarrow> string" where
  "py_upper = map ascii_upper_char"

text \<open>\<open>sep.join(parts)\<close>.\<close>

fun py_join :: "string \<Rightarrow> string list \<Rightarrow> string" where
  "py_join sep [] = []"
| "py_join sep [x] = x"
| "py_join sep (x # y # ys) = x @ sep @ py_join sep (y # ys)"

text \<open>\<open>text.splitlines()[0]\<close> for a text whose only line boundary is the line feed.\<close>

definition first_line :: "string \<Rightarrow> string" where
  "first_line s = takeWhile (\<lambda>c. c \<noteq> CHR 0x0A) s"

text \<open>
  \<open>text.split()\<close>: the words between runs of ASCII white space, and \<open>" ".join(text.split())\<close>.
\<close>

definition is_space :: "char \<Rightarrow> bool" where
  "is_space c =
     (let n = (of_char c :: nat) in 9 \<le> n \<and> n \<le> 13 \<or> 28 \<le> n \<and> n \<le> 32)"

fun split_words :: "string \<Rightarrow> string \<Rightarrow> string list" where
  "split_words cur [] = (if cur = [] then [] else [rev cur])"
| "split_words cur (c # cs) =
     (if is_space c then (if cur = [] then split_words [] cs else rev cur # split_words [] cs)
      else split_words (c # cur) cs)"

definition py_split :: "string \<Rightarrow> string list" where
  "py_split s = split_words [] s"

definition flatten_spaces :: "string \<Rightarrow> string" where
  "flatten_spaces s = py_join '' '' (py_split s)"

text \<open>The decimal representation of an integer, as \<open>str\<close> and the f-strings write it.\<close>

fun show_nat :: "nat \<Rightarrow> string" where
  "show_nat n =
     (if n < 10 then [char_of (48 + n)] else show_nat (n div 10) @ [char_of (48 + n mod 10)])"

declare show_nat.simps [simp del]

definition show_int :: "int \<Rightarrow> string" where
  "show_int i = (if i < 0 then ''-'' @ show_nat (nat (- i)) else show_nat (nat i))"

lemma show_nat_ne_Nil [simp]: "show_nat n \<noteq> []"
  by (subst show_nat.simps) simp

section \<open>Rounding\<close>

text \<open>\<open>round(x)\<close>: to the nearest integer, ties to the even one.\<close>

definition py_round :: "rat \<Rightarrow> int" where
  "py_round x =
     (let f = \<lfloor>x\<rfloor>; d = x - of_int f
      in if d < 1/2 then f else if 1/2 < d then f + 1 else if even f then f else f + 1)"

text \<open>\<open>round(x, n)\<close>.\<close>

definition py_round_to :: "nat \<Rightarrow> rat \<Rightarrow> rat" where
  "py_round_to n x = of_int (py_round (x * 10 ^ n)) / 10 ^ n"

text \<open>\<open>int(x)\<close> on a float: truncation towards zero.\<close>

definition py_trunc :: "rat \<Rightarrow> int" where
  "py_trunc x = (if 0 \<le> x then \<lfloor>x\<rfloor> else - \<lfloor>- x\<rfloor>)"

lemma py_round_bounds: "of_int (py_round x) \<le> x + 1/2 \<and> x - 1/2 \<le> of_int (py_round x)"
proof -
  have f: "of_int \<lfloor>x\<rfloor> \<le> x" and f1: "x < of_int \<lfloor>x\<rfloor> + 1"
    by linarith+
  show ?thesis
    unfolding py_round_def Let_def
    by (cases "x - of_int \<lfloor>x\<rfloor> < 1/2"; cases "1/2 < x - of_int \<lfloor>x\<rfloor>"; use f f1 in simp)
      (use f f1 in linarith)+
qed

lemma py_round_nonneg: "0 \<le> x \<Longrightarrow> 0 \<le> py_round x"
  by (auto simp: py_round_def Let_def)

lemma py_round_of_int [simp]: "py_round (of_int i) = i"
  by (simp add: py_round_def)

section \<open>Time\<close>

type_synonym instant = int

text \<open>A \<open>datetime\<close>: naive (its wall clock) or aware (the instant it names), in microseconds.\<close>

datatype pydatetime = Naive int | Aware instant

text \<open>\<open>dt.replace(tzinfo=UTC)\<close> for a naive value, the value itself for an aware one.\<close>

fun as_utc :: "pydatetime \<Rightarrow> instant" where
  "as_utc (Naive w) = w"
| "as_utc (Aware u) = u"

abbreviation (input) us_per_second :: int where
  "us_per_second \<equiv> 1000000"

text \<open>\<open>(b - a).total_seconds()\<close>.\<close>

definition total_seconds :: "int \<Rightarrow> rat" where
  "total_seconds d = of_int d / 1000000"

text \<open>
  \<open>datetime.isoformat()\<close> of an aware UTC value: the civil date from the day number (the
  proleptic Gregorian calendar), the time of day, and the microseconds only when there are
  any.
\<close>

definition civil_from_days :: "int \<Rightarrow> int \<times> int \<times> int" where
  "civil_from_days z0 =
     (let z = z0 + 719468;
          era = z div 146097;
          doe = z - era * 146097;
          yoe = (doe - doe div 1460 + doe div 36524 - doe div 146096) div 365;
          doy = doe - (365 * yoe + yoe div 4 - yoe div 100);
          mp = (5 * doy + 2) div 153;
          d = doy - (153 * mp + 2) div 5 + 1;
          m = (if mp < 10 then mp + 3 else mp - 9);
          y = yoe + era * 400 + (if m \<le> 2 then 1 else 0)
      in (y, m, d))"

definition pad_int :: "nat \<Rightarrow> int \<Rightarrow> string" where
  "pad_int n i = (let t = show_int i in replicate (n - length t) (CHR ''0'') @ t)"

definition isoformat :: "instant \<Rightarrow> string" where
  "isoformat t =
     (let us = t mod 1000000; secs = t div 1000000;
          days = secs div 86400; sod = secs mod 86400
      in case civil_from_days days of
           (y, m, d) \<Rightarrow>
             pad_int 4 y @ ''-'' @ pad_int 2 m @ ''-'' @ pad_int 2 d @ ''T''
             @ pad_int 2 (sod div 3600) @ '':'' @ pad_int 2 (sod div 60 mod 60) @ '':''
             @ pad_int 2 (sod mod 60)
             @ (if us = 0 then [] else ''.'' @ pad_int 6 us) @ ''+00:00'')"

text \<open>The same for any \<open>datetime\<close>: a naive one is written without an offset.\<close>

fun dt_isoformat :: "pydatetime \<Rightarrow> string" where
  "dt_isoformat (Aware t) = isoformat t"
| "dt_isoformat (Naive w) = (let t = isoformat w in take (length t - 6) t)"

section \<open>Dictionaries\<close>

type_synonym ('k, 'v) dict = "('k \<times> 'v) list"

definition dict_wf :: "('k, 'v) dict \<Rightarrow> bool" where
  "dict_wf d = distinct (map fst d)"

definition dict_get :: "('k, 'v) dict \<Rightarrow> 'k \<Rightarrow> 'v option" where
  "dict_get d k = map_of d k"

definition dict_get_or :: "('k, 'v) dict \<Rightarrow> 'k \<Rightarrow> 'v \<Rightarrow> 'v" where
  "dict_get_or d k v = (case map_of d k of None \<Rightarrow> v | Some w \<Rightarrow> w)"

definition dict_set :: "'k \<Rightarrow> 'v \<Rightarrow> ('k, 'v) dict \<Rightarrow> ('k, 'v) dict" where
  "dict_set k v d = AList.update k v d"

definition dict_del :: "'k \<Rightarrow> ('k, 'v) dict \<Rightarrow> ('k, 'v) dict" where
  "dict_del k d = AList.delete k d"

text \<open>\<open>{**a, **b}\<close>: the entries of \<open>b\<close> are written over those of \<open>a\<close>, in order.\<close>

definition dict_merge :: "('k, 'v) dict \<Rightarrow> ('k, 'v) dict \<Rightarrow> ('k, 'v) dict" where
  "dict_merge a b = fold (\<lambda>(k, v). AList.update k v) b a"

lemma dict_get_set [simp]:
  "dict_get (dict_set k v d) j = (if j = k then Some v else dict_get d j)"
  by (simp add: dict_get_def dict_set_def update_conv)

lemma dict_get_or_set [simp]:
  "dict_get_or (dict_set k v d) j w = (if j = k then v else dict_get_or d j w)"
  by (simp add: dict_get_or_def dict_set_def update_conv)

lemma dict_get_del [simp]:
  "dict_get (dict_del k d) j = (if j = k then None else dict_get d j)"
  by (simp add: dict_get_def dict_del_def delete_conv)

lemma dict_get_Nil [simp]: "dict_get [] k = None"
  by (simp add: dict_get_def)

lemma dict_wf_set [simp]: "dict_wf d \<Longrightarrow> dict_wf (dict_set k v d)"
  by (simp add: dict_wf_def dict_set_def distinct_update)

lemma dict_wf_del [simp]: "dict_wf d \<Longrightarrow> dict_wf (dict_del k d)"
  by (simp add: dict_wf_def dict_del_def distinct_delete)

lemma dict_wf_Nil [simp]: "dict_wf []"
  by (simp add: dict_wf_def)

lemma map_of_dict_merge:
  "map_of (dict_merge a b) k =
     (case map_of (rev b) k of None \<Rightarrow> map_of a k | Some v \<Rightarrow> Some v)"
  by (induction b arbitrary: a)
    (auto simp: dict_merge_def update_conv map_add_def split: option.splits)

lemma dict_wf_merge [simp]: "dict_wf a \<Longrightarrow> dict_wf (dict_merge a b)"
  by (induction b arbitrary: a) (auto simp: dict_merge_def dict_wf_def distinct_update)

section \<open>JSON\<close>

text \<open>
  The values a \<open>JSONB\<close> column holds. Python compares two of them with \<open>==\<close>: objects
  irrespective of the order of their keys, and \<open>True\<close> as \<open>1\<close>. \<open>jnorm\<close> brings both to the same
  form, so that \<open>==\<close> is equality of the normal forms.
\<close>

datatype json =
    JNull
  | JBool bool
  | JNum rat
  | JStr string
  | JArr "json list"
  | JObj "(string \<times> json) list"

type_synonym jobj = "(string \<times> json) list"

primrec jnorm :: "json \<Rightarrow> json" where
  "jnorm JNull = JNull"
| "jnorm (JBool b) = JNum (if b then 1 else 0)"
| "jnorm (JNum x) = JNum x"
| "jnorm (JStr s) = JStr s"
| "jnorm (JArr xs) = JArr (map jnorm xs)"
| "jnorm (JObj kvs) = JObj (sort_key fst (map (map_prod id jnorm) kvs))"

definition jobj_eq :: "jobj \<Rightarrow> jobj \<Rightarrow> bool" where
  "jobj_eq a b = (jnorm (JObj a) = jnorm (JObj b))"

lemma jobj_eq_refl [simp]: "jobj_eq a a"
  by (simp add: jobj_eq_def)

lemma jobj_eq_sym: "jobj_eq a b \<Longrightarrow> jobj_eq b a"
  by (simp add: jobj_eq_def)

lemma jobj_eq_trans: "jobj_eq a b \<Longrightarrow> jobj_eq b c \<Longrightarrow> jobj_eq a c"
  by (simp add: jobj_eq_def)

text \<open>An optional text, number or instant as the JSON value Python writes for it.\<close>

definition jopt :: "('a \<Rightarrow> json) \<Rightarrow> 'a option \<Rightarrow> json" where
  "jopt f x = (case x of None \<Rightarrow> JNull | Some v \<Rightarrow> f v)"

text \<open>Python's truth value of a JSON value.\<close>

fun truthy :: "json \<Rightarrow> bool" where
  "truthy JNull = False"
| "truthy (JBool b) = b"
| "truthy (JNum x) = (x \<noteq> 0)"
| "truthy (JStr s) = (s \<noteq> [])"
| "truthy (JArr xs) = (xs \<noteq> [])"
| "truthy (JObj kvs) = (kvs \<noteq> [])"

text \<open>\<open>details.get(key)\<close> where the caller tests the result for truth and uses it as a text.\<close>

definition get_str :: "jobj \<Rightarrow> string \<Rightarrow> string option" where
  "get_str d k =
     (case map_of d k of Some (JStr s) \<Rightarrow> (if s = [] then None else Some s) | _ \<Rightarrow> None)"

section \<open>SQL patterns\<close>

text \<open>
  \<open>LIKE\<close>: \<open>%\<close> stands for any text, \<open>_\<close> for one character, a backslash quotes the next one.
\<close>

fun sql_like :: "string \<Rightarrow> string \<Rightarrow> bool" where
  "sql_like [] s = (s = [])"
| "sql_like (p # ps) s =
     (if p = CHR ''%'' then sql_like ps s \<or> (case s of [] \<Rightarrow> False | _ # cs \<Rightarrow> sql_like (p # ps) cs)
      else if p = CHR ''_'' then (case s of [] \<Rightarrow> False | _ # cs \<Rightarrow> sql_like ps cs)
      else if p = CHR 0x5C then
        (case ps of [] \<Rightarrow> False
         | q # qs \<Rightarrow> (case s of [] \<Rightarrow> False | c # cs \<Rightarrow> c = q \<and> sql_like qs cs))
      else (case s of [] \<Rightarrow> False | c # cs \<Rightarrow> c = p \<and> sql_like ps cs))"

definition sql_ilike :: "string \<Rightarrow> string \<Rightarrow> bool" where
  "sql_ilike p s = sql_like (py_lower p) (py_lower s)"

definition sql_plain :: "string \<Rightarrow> bool" where
  "sql_plain p = (CHR ''%'' \<notin> set p \<and> CHR ''_'' \<notin> set p \<and> CHR 0x5C \<notin> set p)"

lemma sql_plain_Cons:
  "sql_plain (c # p) \<longleftrightarrow> c \<noteq> CHR ''%'' \<and> c \<noteq> CHR ''_'' \<and> c \<noteq> CHR 0x5C \<and> sql_plain p"
  by (auto simp: sql_plain_def)

lemma sql_like_plain: "sql_plain p \<Longrightarrow> sql_like p s \<longleftrightarrow> s = p"
  by (induction p arbitrary: s) (auto simp: sql_plain_Cons split: list.splits)

lemma sql_like_all [simp]: "sql_like ''%'' s"
  by (induction s) auto

text \<open>A pattern \<open>%lit\<close> is a test for a suffix, a pattern \<open>lit%\<close> one for a prefix.\<close>

lemma sql_like_suffix: "sql_plain p \<Longrightarrow> sql_like (CHR ''%'' # p) s \<longleftrightarrow> suffix p s"
proof (induction s)
  case Nil
  then show ?case by (auto simp: sql_like_plain)
next
  case (Cons c s)
  then show ?case by (auto simp: sql_like_plain suffix_Cons)
qed

lemma sql_like_prefix: "sql_plain p \<Longrightarrow> sql_like (p @ ''%'') s \<longleftrightarrow> prefix p s"
proof (induction p arbitrary: s)
  case Nil
  show ?case using sql_like_all [of s] by (simp del: sql_like.simps)
next
  case (Cons c p)
  then show ?case by (cases s) (auto simp: sql_plain_Cons)
qed

section \<open>More of Python\<close>

text \<open>\<open>str.split(sep)\<close> for a separator of one character.\<close>

fun split_on :: "char \<Rightarrow> string \<Rightarrow> string list" where
  "split_on c [] = [[]]"
| "split_on c (x # xs) =
     (if x = c then [] # split_on c xs
      else (case split_on c xs of [] \<Rightarrow> [[x]] | w # ws \<Rightarrow> (x # w) # ws))"

lemma split_on_ne [simp]: "split_on c s \<noteq> []"
  by (induction s) (auto split: list.splits)

lemma split_on_no_sep: "w \<in> set (split_on c s) \<Longrightarrow> c \<notin> set w"
  by (induction s arbitrary: w) (auto split: if_splits list.splits)

text \<open>
  \<open>type(x).__name__\<close> of a JSON value. A JSON number is a rational here: one with an integral
  value stands for Python's \<open>int\<close>, any other for a \<open>float\<close>.
\<close>

fun py_type_name :: "json \<Rightarrow> string" where
  "py_type_name JNull = ''NoneType''"
| "py_type_name (JBool _) = ''bool''"
| "py_type_name (JNum x) = (if of_int \<lfloor>x\<rfloor> = x then ''int'' else ''float'')"
| "py_type_name (JStr _) = ''str''"
| "py_type_name (JArr _) = ''list''"
| "py_type_name (JObj _) = ''dict''"

text \<open>
  \<open>str\<close> of a \<open>float\<close>, for the decimals in use here: a float is the decimal number it prints as,
  written with at least one and at most sixteen digits after the point.
\<close>

fun frac_digits :: "nat \<Rightarrow> rat \<Rightarrow> string" where
  "frac_digits 0 q = []"
| "frac_digits (Suc n) q =
     (if q = 0 then []
      else (let d = \<lfloor>q * 10\<rfloor> in show_int d @ frac_digits n (q * 10 - of_int d)))"

definition show_float :: "rat \<Rightarrow> string" where
  "show_float q =
     (let a = \<bar>q\<bar>; i = \<lfloor>a\<rfloor>; f = frac_digits 16 (a - of_int i)
      in (if q < 0 then ''-'' else []) @ show_int i @ ''.'' @ (if f = [] then ''0'' else f))"

text \<open>\<open>f"{q:.1f}"\<close>\<close>

definition show_fixed1 :: "rat \<Rightarrow> string" where
  "show_fixed1 q = show_float (py_round_to 1 q)"

text \<open>\<open>{x:g}\<close> for a number of at most six significant digits.\<close>

definition show_g :: "rat \<Rightarrow> string" where
  "show_g x = (if of_int \<lfloor>x\<rfloor> = x then show_int \<lfloor>x\<rfloor> else show_float x)"

text \<open>\<open>s[:n]\<close>: the first \<open>n\<close> characters of a text.\<close>

fun py_take :: "nat \<Rightarrow> string \<Rightarrow> string" where
  "py_take n [] = []"
| "py_take n (c # cs) =
     (if utf8_continuation c then c # py_take n cs
      else (case n of 0 \<Rightarrow> [] | Suc m \<Rightarrow> c # py_take m cs))"

lemma py_len_take: "py_len (py_take n s) = min n (py_len s)"
  by (induction n s rule: py_take.induct) (auto simp: py_len_def split: nat.splits)

text \<open>A pass over a dict that drops entries and rewrites values, key by key.\<close>

lemma map_of_map_filter:
  assumes "\<And>k v kv. h (k, v) = Some kv \<Longrightarrow> fst kv = k"
  shows "dict_wf d \<Longrightarrow> dict_get (List.map_filter h d) f =
    (case dict_get d f of None \<Rightarrow> None | Some v \<Rightarrow> map_option snd (h (f, v)))"
proof (induction d)
  case (Cons kv d)
  obtain k v where kv: "kv = (k, v)" by fastforce
  have none: "dict_get d k = None"
    using Cons.prems by (auto simp: kv dict_wf_def dict_get_def map_of_eq_None_iff)
  show ?case
    using Cons none assms [of k v]
    by (cases "h (k, v)") (auto simp: kv dict_wf_def dict_get_def List.map_filter_simps split: option.splits)
qed (simp add: dict_get_def List.map_filter_simps)

lemma dict_wf_map_filter:
  assumes "\<And>k v kv. h (k, v) = Some kv \<Longrightarrow> fst kv = k" "dict_wf d"
  shows "dict_wf (List.map_filter h d)"
proof -
  have keys: "fst ` set (List.map_filter h d) \<subseteq> fst ` set d" for d
  proof clarify
    fix k v assume "(k, v) \<in> set (List.map_filter h d)"
    then obtain k' v' where e: "(k', v') \<in> set d" "h (k', v') = Some (k, v)"
      by (auto simp: List.map_filter_def)
    then have "k' = k" using assms(1) [OF e(2)] by simp
    then show "fst (k, v) \<in> fst ` set d" using e(1) by force
  qed
  show ?thesis
    using assms(2)
  proof (induction d)
    case (Cons kv d)
    then show ?case
      using keys [of d] assms(1) [of "fst kv" "snd kv"]
      by (auto simp: dict_wf_def List.map_filter_simps split: option.splits)
  qed (simp add: List.map_filter_simps)
qed

text \<open>A character \<open>\w\<close> of a regular expression matches, among the ASCII ones.\<close>

definition word_char :: "char \<Rightarrow> bool" where
  "word_char c =
     (let n = (of_char c :: nat)
      in 48 \<le> n \<and> n \<le> 57 \<or> 65 \<le> n \<and> n \<le> 90 \<or> 97 \<le> n \<and> n \<le> 122 \<or> n = 95)"

text \<open>The truth of an optional text: neither \<open>None\<close> nor empty.\<close>

definition given :: "string option \<Rightarrow> bool" where
  "given x = (x \<noteq> None \<and> x \<noteq> Some [])"

lemma fold_dict_set_distinct:
  assumes "distinct (map fst d @ map f xs)"
  shows "fold (\<lambda>e. dict_set (f e) (g e)) xs d = d @ map (\<lambda>e. (f e, g e)) xs"
  using assms
proof (induction xs arbitrary: d)
  case (Cons x xs)
  have "dict_set (f x) (g x) d = d @ [(f x, g x)]"
    using Cons.prems by (induction d) (auto simp: dict_set_def)
  with Cons show ?case by simp
qed simp

lemma those_total: "\<forall>x \<in> set xs. f x \<noteq> None \<Longrightarrow> those (map f xs) = Some (map (the \<circ> f) xs)"
  by (induction xs) auto

end
