(* ===== verification/Escalation.thy ===== *)
theory Escalation
  imports Sys_Prelude
begin

text \<open>
  The quiet-then-loud alert ladder of \<open>sysadmin/core/escalation.py\<close>: the severity order, the
  step a run takes about an open row, the rule for quietening a row in place, the two-rung
  ladder and its clock. The lemmas say that the three decisions never contradict each other:
  a ladder only climbs as time passes, a step that writes always writes louder, and a row that
  may be quietened in place is never one the ladder would replace.
\<close>

section \<open>Severities\<close>

definition SEVERITY_ORDER :: "(string, int) dict" where
  "SEVERITY_ORDER = [(''info'', 0), (''warning'', 1), (''critical'', 2)]"

text \<open>\<open>SEVERITY_ORDER.get(rung, 0)\<close>, the reading every comparison of the module makes.\<close>

definition severity_rank :: "string \<Rightarrow> int" where
  "severity_rank s = dict_get_or SEVERITY_ORDER s 0"

definition known_severity :: "string \<Rightarrow> bool" where
  "known_severity s = (s \<in> set (map fst SEVERITY_ORDER))"

lemma known_severity_iff: "known_severity s \<longleftrightarrow> s = ''info'' \<or> s = ''warning'' \<or> s = ''critical''"
  by (simp add: known_severity_def SEVERITY_ORDER_def)

lemma severity_rank_simps [simp]:
  "severity_rank ''info'' = 0"
  "severity_rank ''warning'' = 1"
  "severity_rank ''critical'' = 2"
  by (simp_all add: severity_rank_def SEVERITY_ORDER_def dict_get_or_def)

lemma severity_rank_bounds: "0 \<le> severity_rank s \<and> severity_rank s \<le> 2"
  by (auto simp: severity_rank_def SEVERITY_ORDER_def dict_get_or_def)

lemma severity_rank_inj:
  "known_severity s \<Longrightarrow> known_severity t \<Longrightarrow> severity_rank s = severity_rank t \<Longrightarrow> s = t"
  by (auto simp: known_severity_iff)

section \<open>Steps\<close>

datatype Step = RAISE | ESCALATE | HOLD

definition step_for :: "string \<Rightarrow> string option \<Rightarrow> Step" where
  "step_for wanted open_severity =
     (case open_severity of
        None \<Rightarrow> RAISE
      | Some sev \<Rightarrow> if severity_rank sev < severity_rank wanted then ESCALATE else HOLD)"

definition is_louder_than :: "string \<Rightarrow> string \<Rightarrow> bool" where
  "is_louder_than rung other = (severity_rank other < severity_rank rung)"

text \<open>\<open>min(SEVERITY_ORDER, key=SEVERITY_ORDER.get)\<close>: the first key of least rank.\<close>

definition QUIETEST_SEVERITY :: string where
  "QUIETEST_SEVERITY =
     fold (\<lambda>r best. if severity_rank r < severity_rank best then r else best)
       (map fst SEVERITY_ORDER) (fst (hd SEVERITY_ORDER))"

definition may_quieten_in_place :: "string \<Rightarrow> string \<Rightarrow> bool" where
  "may_quieten_in_place wanted open_severity =
     (if \<not> known_severity wanted \<or> \<not> known_severity open_severity then False
      else if wanted \<noteq> QUIETEST_SEVERITY then False
      else severity_rank wanted < severity_rank open_severity)"

lemma QUIETEST_SEVERITY_info [simp]: "QUIETEST_SEVERITY = ''info''"
  by (simp add: QUIETEST_SEVERITY_def SEVERITY_ORDER_def)

lemma step_for_simps [simp]:
  "step_for w None = RAISE"
  "step_for w (Some s) = HOLD \<longleftrightarrow> severity_rank w \<le> severity_rank s"
  "step_for w (Some s) = ESCALATE \<longleftrightarrow> severity_rank s < severity_rank w"
  "step_for w (Some s) \<noteq> RAISE"
  by (auto simp: step_for_def)

lemma step_for_RAISE_iff: "step_for w s = RAISE \<longleftrightarrow> s = None"
  by (cases s) auto

lemma may_quieten_iff:
  "may_quieten_in_place w s \<longleftrightarrow> w = ''info'' \<and> (s = ''warning'' \<or> s = ''critical'')"
  by (auto simp: may_quieten_in_place_def known_severity_iff)

lemma may_quieten_holds: "may_quieten_in_place w s \<Longrightarrow> step_for w (Some s) = HOLD"
  using severity_rank_bounds [of s] by (auto simp: may_quieten_iff)

section \<open>The ladder\<close>

record Ladder =
  quiet :: string
  loud :: string

definition severity_for :: "Ladder \<Rightarrow> rat \<Rightarrow> rat \<Rightarrow> rat \<Rightarrow> string option" where
  "severity_for L elapsed threshold escalation_gap =
     (if elapsed < threshold then None
      else if threshold + escalation_gap \<le> elapsed then Some (loud L)
      else Some (quiet L))"

lemma severity_for_None_iff: "severity_for L e th gap = None \<longleftrightarrow> e < th"
  by (simp add: severity_for_def)

lemma severity_for_gap_0: "severity_for L e th 0 = (if e < th then None else Some (loud L))"
  by (auto simp: severity_for_def)

text \<open>Time only ever moves a fault up the ladder.\<close>

lemma severity_for_mono:
  assumes "e \<le> e'"
    and "severity_rank (quiet L) \<le> severity_rank (loud L)"
    and "severity_for L e th gap = Some s"
  shows "\<exists>s'. severity_for L e' th gap = Some s' \<and> severity_rank s \<le> severity_rank s'"
  using assms by (auto simp: severity_for_def split: if_splits)

section \<open>The clock\<close>

definition hours_since :: "pydatetime \<Rightarrow> instant \<Rightarrow> rat" where
  "hours_since since now = max 0 (total_seconds (now - as_utc since) / 3600)"

lemma hours_since_nonneg [simp]: "0 \<le> hours_since t n"
  by (simp add: hours_since_def)

lemma hours_since_mono: "n \<le> n' \<Longrightarrow> hours_since t n \<le> hours_since t n'"
  by (auto simp: hours_since_def total_seconds_def max_def divide_right_mono)

lemma hours_since_future [simp]: "n \<le> as_utc t \<Longrightarrow> hours_since t n = 0"
  by (simp add: hours_since_def total_seconds_def max_def divide_nonpos_pos)

text \<open>\<open>f"{n} {noun}"\<close> with the plural where the count is not one.\<close>

definition count_noun :: "int \<Rightarrow> string \<Rightarrow> string" where
  "count_noun n noun = show_int n @ '' '' @ noun @ (if n = 1 then [] else ''s'')"

definition humanise_hours :: "rat \<Rightarrow> string" where
  "humanise_hours hours =
     (if hours < 1 then count_noun (max 1 (py_round (hours * 60))) ''minute''
      else if hours < 48 then count_noun (py_round hours) ''hour''
      else count_noun \<lfloor>hours / 24\<rfloor> ''day'')"

text \<open>
  The count a phrase states is never zero, and it is within half a unit of the time it stands
  for (a whole unit for days, which are floored).
\<close>

definition humanised_count :: "rat \<Rightarrow> int" where
  "humanised_count hours =
     (if hours < 1 then max 1 (py_round (hours * 60))
      else if hours < 48 then py_round hours
      else \<lfloor>hours / 24\<rfloor>)"

lemma humanise_hours_count:
  "humanise_hours h =
     count_noun (humanised_count h)
       (if h < 1 then ''minute'' else if h < 48 then ''hour'' else ''day'')"
  by (simp add: humanise_hours_def humanised_count_def)

lemma humanised_count_pos: "1 \<le> humanised_count h"
proof -
  consider "h < 1" | "1 \<le> h" "h < 48" | "48 \<le> h" by linarith
  then show ?thesis
  proof cases
    case 1
    then show ?thesis by (simp add: humanised_count_def)
  next
    case 2
    have "1/2 \<le> h - 1/2" using 2 by simp
    also have "\<dots> \<le> of_int (py_round h)" using py_round_bounds [of h] by simp
    finally have "(0::rat) < of_int (py_round h)" by linarith
    then have "0 < py_round h" by simp
    then show ?thesis using 2 by (simp add: humanised_count_def)
  next
    case 3
    then show ?thesis by (simp add: humanised_count_def le_floor_iff)
  qed
qed

section \<open>Properties\<close>

text \<open>
  A fault that stands only ever climbs: at a later moment the ladder gives it a rung, and one
  at least as loud, so that the step towards it is never a raise and, once the row is on that
  rung, holds; and the rung an open row may be quietened to in place is never one the ladder
  would escalate to.
\<close>

theorem ladder_only_climbs:
  assumes "now \<le> now'" and "severity_rank (quiet L) \<le> severity_rank (loud L)"
    and "severity_for L (hours_since t now) threshold gap = Some sev"
  shows "\<exists>sev'. severity_for L (hours_since t now') threshold gap = Some sev'
    \<and> severity_rank sev \<le> severity_rank sev'
    \<and> step_for sev' (Some sev) = (if severity_rank sev = severity_rank sev' then HOLD else ESCALATE)
    \<and> step_for sev' (Some sev') = HOLD
    \<and> \<not> (may_quieten_in_place sev' sev \<and> step_for sev' (Some sev) = ESCALATE)"
proof -
  obtain sev' where "severity_for L (hours_since t now') threshold gap = Some sev'"
    "severity_rank sev \<le> severity_rank sev'"
    using severity_for_mono [OF hours_since_mono [OF assms(1)] assms(2,3)] by blast
  then show ?thesis
    using may_quieten_holds [of sev' sev] by (auto simp: step_for_def)
qed

theorem ladder_only_climbs_witness:
  "\<exists>sev'. severity_for \<lparr>quiet = ''warning'', loud = ''critical''\<rparr>
       (hours_since (Aware 0) (7 * 3600 * us_per_second)) 0 6 = Some sev'
     \<and> severity_rank ''warning'' \<le> severity_rank sev'"
proof -
  let ?L = "\<lparr>quiet = ''warning'', loud = ''critical''\<rparr>"
  have "severity_for ?L (hours_since (Aware 0) (3600 * us_per_second)) 0 6 = Some ''warning''"
    by code_simp
  with ladder_only_climbs [of "3600 * us_per_second" "7 * 3600 * us_per_second" ?L "Aware 0" 0 6
      "''warning''"] show ?thesis by auto
qed

text \<open>
  The phrase for a length of time states a count of at least one, in minutes below an hour,
  hours below two days and days from there on, and the count is within half a unit of the time
  (below it by less than a unit for days).
\<close>

theorem humanise_hours_accurate:
  "\<exists>n unit. humanise_hours h = count_noun n unit \<and> 1 \<le> n
     \<and> (h < 1 \<longrightarrow> unit = ''minute'' \<and> (h * 60 \<le> 1 \<or> \<bar>of_int n - h * 60\<bar> \<le> 1/2))
     \<and> (1 \<le> h \<and> h < 48 \<longrightarrow> unit = ''hour'' \<and> \<bar>of_int n - h\<bar> \<le> 1/2)
     \<and> (48 \<le> h \<longrightarrow> unit = ''day'' \<and> of_int n \<le> h / 24 \<and> h / 24 < of_int n + 1)"
proof -
  have minute: "h * 60 \<le> 1 \<or> \<bar>of_int (max 1 (py_round (h * 60))) - h * 60\<bar> \<le> 1/2"
    using py_round_bounds [of "h * 60"] by (auto simp: max_def abs_if not_le split: if_splits)
  have hour: "\<bar>of_int (py_round h) - h\<bar> \<le> 1/2"
    using py_round_bounds [of h] by (auto simp: abs_if)
  have day: "of_int \<lfloor>h / 24\<rfloor> \<le> h / 24 \<and> h / 24 < of_int \<lfloor>h / 24\<rfloor> + 1"
    by linarith
  show ?thesis
    by (intro exI [of _ "humanised_count h"]
        exI [of _ "if h < 1 then ''minute'' else if h < 48 then ''hour'' else ''day''"])
      (use minute hour day humanised_count_pos [of h] in
        \<open>simp add: humanise_hours_count humanised_count_def\<close>)
qed

theorem humanise_hours_accurate_witness: "\<exists>n. humanise_hours 50 = count_noun n ''day'' \<and> 1 \<le> n"
  using humanise_hours_accurate [of 50] by auto

end
