(* ===== verification/Alerts.thy ===== *)
theory Alerts
  imports Escalation
begin

text \<open>
  The table \<open>sysadmin.alerts\<close> with the constraints the schema puts on it
  (\<open>sysadmin/core/models/alert.py\<close>) and the three operations of \<open>BaseAgent\<close> that write it
  (\<open>sysadmin/core/agent.py\<close>): \<open>raise_alert\<close> inserts and may be refused by the database,
  \<open>refresh_alert\<close> brings a held row up to date, \<open>resolve_alerts\<close> closes rows by title.

  A \<open>session\<close> is the database session an agent works in, with the events it has buffered and
  published and the lines it has logged. The locale \<open>agent_writes\<close> states what every writer
  of the table promises: the constraints are kept, the rows of other agents and the closed
  rows are left alone. Its lemmas carry the promise over any sequence of writes.
\<close>

section \<open>The row and its constraints\<close>

record alert =
  al_id :: nat
  al_agent :: string
  al_severity :: string
  al_title :: string
  al_message :: "string option"
  al_details :: jobj
  al_acknowledged :: bool
  al_acknowledged_at :: "instant option"
  al_resolved :: bool
  al_resolved_at :: "instant option"
  al_created_at :: instant

definition unresolved :: "alert \<Rightarrow> bool" where
  "unresolved a = (al_resolved a = False)"

definition chk_alert_severity :: "alert \<Rightarrow> bool" where
  "chk_alert_severity a = (al_severity a \<in> set [''info'', ''warning'', ''critical''])"

definition alert_agents :: "string list" where
  "alert_agents =
     [''sysadmin'', ''project_organiser'', ''file_organiser'', ''log_aggregator'',
      ''service_discovery'', ''estate_judge'', ''game_detector'']"

definition chk_alert_agent :: "alert \<Rightarrow> bool" where
  "chk_alert_agent a = (al_agent a \<in> set alert_agents)"

definition chk_alert_resolved_stamped :: "alert \<Rightarrow> bool" where
  "chk_alert_resolved_stamped a = (al_resolved a = (al_resolved_at a \<noteq> None))"

definition chk_alert_acknowledged_stamped :: "alert \<Rightarrow> bool" where
  "chk_alert_acknowledged_stamped a = (al_acknowledged a = (al_acknowledged_at a \<noteq> None))"

text \<open>\<open>String(50)\<close>, \<open>String(20)\<close> and \<open>String(255)\<close>: the widths of the text columns.\<close>

definition columns_fit :: "alert \<Rightarrow> bool" where
  "columns_fit a =
     (py_len (al_agent a) \<le> 50 \<and> py_len (al_severity a) \<le> 20 \<and> py_len (al_title a) \<le> 255)"

definition row_ok :: "alert \<Rightarrow> bool" where
  "row_ok a =
     (columns_fit a \<and> chk_alert_severity a \<and> chk_alert_agent a
      \<and> chk_alert_resolved_stamped a \<and> chk_alert_acknowledged_stamped a)"

definition alert_key :: "alert \<Rightarrow> string \<times> string" where
  "alert_key a = (al_agent a, al_title a)"

text \<open>The unique partial index: one open row per agent and title.\<close>

definition uq_alerts_open_agent_title :: "alert list \<Rightarrow> bool" where
  "uq_alerts_open_agent_title t = distinct (map alert_key (filter unresolved t))"

definition schema_ok :: "alert list \<Rightarrow> bool" where
  "schema_ok t =
     (list_all row_ok t \<and> distinct (map al_id t) \<and> uq_alerts_open_agent_title t)"

section \<open>The session\<close>

type_synonym event = "string \<times> jobj"
type_synonym logline = "string \<times> string"

text \<open>A row of \<open>sysadmin.service_health\<close>, which the monitor writes beside its alerts.\<close>

record health_row =
  sh_service_name :: string
  sh_status :: string
  sh_response_time_ms :: "int option"
  sh_details :: jobj

text \<open>A row of \<open>sysadmin.log_entries\<close>, which the log aggregator writes beside its alerts.\<close>

record log_entry =
  le_source :: string
  le_severity :: string
  le_message :: string
  le_raw_line :: "string option"
  le_metadata :: jobj
  le_logged_at :: instant
  le_ingested_at :: instant

record session =
  rows :: "alert list"
  health :: "health_row list"
  log_entries :: "log_entry list"
  fresh_id :: nat
  tx_time :: instant
  pending_events :: "event list option"
  published :: "event list"
  logs :: "logline list"

definition session_ok :: "session \<Rightarrow> bool" where
  "session_ok s = (schema_ok (rows s) \<and> (\<forall>a \<in> set (rows s). al_id a < fresh_id s))"

definition log_line :: "string \<Rightarrow> string \<Rightarrow> session \<Rightarrow> session" where
  "log_line level ev s = s\<lparr>logs := logs s @ [(level, ev)]\<rparr>"

definition queue_event :: "string \<Rightarrow> jobj \<Rightarrow> session \<Rightarrow> session" where
  "queue_event event_type data s =
     (case pending_events s of
        None \<Rightarrow> s\<lparr>published := published s @ [(event_type, data)]\<rparr>
      | Some evs \<Rightarrow> s\<lparr>pending_events := Some (evs @ [(event_type, data)])\<rparr>)"

definition flush_events :: "session \<Rightarrow> session" where
  "flush_events s =
     (let pending = (case pending_events s of None \<Rightarrow> [] | Some evs \<Rightarrow> evs)
      in s\<lparr>pending_events := None, published := published s @ pending\<rparr>)"

section \<open>Writing the table\<close>

text \<open>
  What \<open>session.flush\<close> makes of one new row: the database refuses a text too long for its
  column, a row that violates a check, and a second open row for an agent and title.
\<close>

definition flush_insert :: "alert \<Rightarrow> alert list \<Rightarrow> py_error + alert list" where
  "flush_insert a t =
     (if \<not> columns_fit a then Inl (DataError ''alerts'')
      else if \<not> chk_alert_severity a then Inl (IntegrityError ''chk_alert_severity'')
      else if \<not> chk_alert_agent a then Inl (IntegrityError ''chk_alert_agent'')
      else if \<not> chk_alert_resolved_stamped a
        then Inl (IntegrityError ''chk_alert_resolved_stamped'')
      else if \<not> chk_alert_acknowledged_stamped a
        then Inl (IntegrityError ''chk_alert_acknowledged_stamped'')
      else if unresolved a \<and> alert_key a \<in> set (map alert_key (filter unresolved t))
        then Inl (IntegrityError ''uq_alerts_open_agent_title'')
      else Inr (t @ [a]))"

definition new_alert ::
  "string \<Rightarrow> string \<Rightarrow> string \<Rightarrow> string option \<Rightarrow> jobj option \<Rightarrow> session \<Rightarrow> alert" where
  "new_alert name severity title message details s =
     \<lparr>al_id = fresh_id s, al_agent = name, al_severity = severity, al_title = title,
      al_message = message, al_details = (case details of None \<Rightarrow> [] | Some d \<Rightarrow> d),
      al_acknowledged = False, al_acknowledged_at = None,
      al_resolved = False, al_resolved_at = None, al_created_at = tx_time s\<rparr>"

definition raised_payload :: "alert \<Rightarrow> jobj" where
  "raised_payload a =
     [(''id'', JStr (show_nat (al_id a))), (''agent'', JStr (al_agent a)),
      (''severity'', JStr (al_severity a)), (''title'', JStr (al_title a)),
      (''message'', jopt JStr (al_message a))]"

definition raise_alert ::
  "string \<Rightarrow> string \<Rightarrow> string \<Rightarrow> string option \<Rightarrow> jobj option \<Rightarrow> session
     \<Rightarrow> py_error + alert \<times> session" where
  "raise_alert name severity title message details s =
     (let a = new_alert name severity title message details s
      in case flush_insert a (rows s) of
           Inl e \<Rightarrow> Inl e
         | Inr t \<Rightarrow>
             Inr (a, queue_event ''alert.raised'' (raised_payload a)
                       (log_line ''warning'' ''alert_raised''
                         (s\<lparr>rows := t, fresh_id := Suc (fresh_id s)\<rparr>))))"

text \<open>
  \<open>refresh_alert\<close> answers whether the row changed, the row, and the lines it logged. The
  comparison of the details goes through a JSON round trip, which is the identity on the
  values a \<^typ>\<open>jobj\<close> can hold.
\<close>

definition refresh_alert ::
  "string option \<Rightarrow> jobj option \<Rightarrow> string option \<Rightarrow> alert \<Rightarrow> bool \<times> alert \<times> logline list" where
  "refresh_alert message details severity a =
     (let wanted = (case details of None \<Rightarrow> [] | Some d \<Rightarrow> d);
          quieten_to =
            (case severity of
               None \<Rightarrow> None
             | Some sev \<Rightarrow> if may_quieten_in_place sev (al_severity a) then Some sev else None)
      in if quieten_to = None \<and> al_message a = message \<and> jobj_eq (al_details a) wanted
         then (False, a, [])
         else
           (let a' = a\<lparr>al_message := message, al_details := wanted\<rparr>
            in case quieten_to of
                 None \<Rightarrow> (True, a', [(''debug'', ''alert_refreshed'')])
               | Some sev \<Rightarrow>
                   (True, a'\<lparr>al_severity := sev\<rparr>,
                    [(''info'', ''alert_quietened''), (''debug'', ''alert_refreshed'')])))"

text \<open>\<open>UPDATE \<dots> SET resolved = TRUE, resolved_at = now\<close> on one row.\<close>

definition close_row :: "instant \<Rightarrow> alert \<Rightarrow> alert" where
  "close_row now a = a\<lparr>al_resolved := True, al_resolved_at := Some now\<rparr>"

definition close_where :: "(alert \<Rightarrow> bool) \<Rightarrow> instant \<Rightarrow> alert list \<Rightarrow> alert list" where
  "close_where P now t = map (\<lambda>a. if P a then close_row now a else a) t"

definition resolve_alerts :: "string \<Rightarrow> instant \<Rightarrow> string \<Rightarrow> session \<Rightarrow> nat \<times> session" where
  "resolve_alerts name now title_pattern s =
     (let P = (\<lambda>a. al_agent a = name \<and> sql_ilike (''%'' @ title_pattern @ ''%'') (al_title a)
                 \<and> unresolved a);
          resolved = length (filter P (rows s));
          s' = s\<lparr>rows := close_where P now (rows s)\<rparr>
      in (resolved,
          if resolved \<noteq> 0
          then queue_event ''alert.resolved''
                 [(''agent'', JStr name), (''match'', JStr title_pattern),
                  (''count'', JNum (of_nat resolved))] s'
          else s'))"

text \<open>The write of a refreshed row back to the table, by its id.\<close>

definition store_row :: "alert \<Rightarrow> alert list \<Rightarrow> alert list" where
  "store_row a t = map (\<lambda>b. if al_id b = al_id a then a else b) t"

section \<open>Frames\<close>

lemma queue_event_frame [simp]:
  "rows (queue_event t d s) = rows s"
  "health (queue_event t d s) = health s"
  "log_entries (queue_event t d s) = log_entries s"
  "fresh_id (queue_event t d s) = fresh_id s"
  "tx_time (queue_event t d s) = tx_time s"
  "logs (queue_event t d s) = logs s"
  by (simp_all add: queue_event_def split: option.splits)

lemma log_line_frame [simp]:
  "rows (log_line l e s) = rows s"
  "health (log_line l e s) = health s"
  "log_entries (log_line l e s) = log_entries s"
  "fresh_id (log_line l e s) = fresh_id s"
  "tx_time (log_line l e s) = tx_time s"
  "pending_events (log_line l e s) = pending_events s"
  "published (log_line l e s) = published s"
  by (simp_all add: log_line_def)

lemma close_row_simps [simp]:
  "al_id (close_row now a) = al_id a"
  "al_agent (close_row now a) = al_agent a"
  "al_severity (close_row now a) = al_severity a"
  "al_title (close_row now a) = al_title a"
  "al_message (close_row now a) = al_message a"
  "al_details (close_row now a) = al_details a"
  "al_created_at (close_row now a) = al_created_at a"
  "al_acknowledged (close_row now a) = al_acknowledged a"
  "al_acknowledged_at (close_row now a) = al_acknowledged_at a"
  "al_resolved (close_row now a) = True"
  "al_resolved_at (close_row now a) = Some now"
  "unresolved (close_row now a) = False"
  by (simp_all add: close_row_def unresolved_def)

lemma row_ok_close_row [simp]: "row_ok a \<Longrightarrow> row_ok (close_row now a)"
  by (simp add: row_ok_def columns_fit_def chk_alert_severity_def chk_alert_agent_def
      chk_alert_resolved_stamped_def chk_alert_acknowledged_stamped_def)

lemma filter_close_where:
  "filter unresolved (close_where P now t) = filter (\<lambda>a. unresolved a \<and> \<not> P a) t"
  by (induction t) (auto simp: close_where_def)

lemma map_id_close_where [simp]: "map al_id (close_where P now t) = map al_id t"
  by (simp add: close_where_def)

lemma set_close_where:
  "set (close_where P now t) = {a \<in> set t. \<not> P a} \<union> close_row now ` {a \<in> set t. P a}"
  by (auto simp: close_where_def)

lemma close_where_idem:
  assumes "\<And>a. P a \<Longrightarrow> unresolved a"
  shows "close_where P now' (close_where P now t) = close_where P now t"
proof -
  have "\<not> P (close_row now a)" for a
    using assms [of "close_row now a"] by auto
  then show ?thesis by (auto simp: close_where_def)
qed

lemma filter_close_where_none:
  assumes "\<And>a. P a \<Longrightarrow> unresolved a"
  shows "filter P (close_where P now t) = []"
proof -
  have "\<not> P (close_row now a)" for a
    using assms [of "close_row now a"] by auto
  then show ?thesis by (auto simp: close_where_def filter_empty_conv)
qed

lemma close_where_none: "filter P t = [] \<Longrightarrow> close_where P now t = t"
  by (auto simp: close_where_def filter_empty_conv intro!: map_idI)

section \<open>The schema is kept\<close>

lemma schema_close_where [schema_intros]: "schema_ok t \<Longrightarrow> schema_ok (close_where P now t)"
  by (auto simp: schema_ok_def list_all_iff set_close_where uq_alerts_open_agent_title_def
      filter_close_where simp flip: filter_filter intro: distinct_map_filter)

lemma flush_insert_Inr_iff:
  "flush_insert a t = Inr t' \<longleftrightarrow>
     row_ok a \<and> t' = t @ [a]
     \<and> (unresolved a \<longrightarrow> alert_key a \<notin> set (map alert_key (filter unresolved t)))"
  by (auto simp: flush_insert_def row_ok_def split: if_splits)

lemma flush_insert_error:
  "flush_insert a t = Inl e \<Longrightarrow> is_sqlalchemy_error e"
  by (auto simp: flush_insert_def split: if_splits)

lemma schema_insert [schema_intros]:
  "schema_ok t \<Longrightarrow> flush_insert a t = Inr t' \<Longrightarrow> al_id a \<notin> set (map al_id t) \<Longrightarrow> schema_ok t'"
  by (auto simp: flush_insert_Inr_iff schema_ok_def uq_alerts_open_agent_title_def)

lemma map_store_row_same:
  assumes "\<And>b. b \<in> set t \<Longrightarrow> al_id b = al_id a \<Longrightarrow> f b = f a"
  shows "map f (store_row a t) = map f t"
  using assms by (auto simp: store_row_def)

lemma map_filter_store_row:
  assumes "\<And>b. b \<in> set t \<Longrightarrow> al_id b = al_id a \<Longrightarrow>
      alert_key b = alert_key a \<and> unresolved b = unresolved a"
  shows "map alert_key (filter unresolved (store_row a t)) = map alert_key (filter unresolved t)"
  using assms by (induction t) (auto simp: store_row_def)

lemma schema_store_row [schema_intros]:
  assumes "schema_ok t" and "row_ok a"
    and same: "\<And>b. b \<in> set t \<Longrightarrow> al_id b = al_id a \<Longrightarrow>
      alert_key b = alert_key a \<and> unresolved b = unresolved a"
  shows "schema_ok (store_row a t)"
proof -
  have "map al_id (store_row a t) = map al_id t"
    by (rule map_store_row_same) simp
  moreover have "map alert_key (filter unresolved (store_row a t))
      = map alert_key (filter unresolved t)"
    using same by (rule map_filter_store_row)
  moreover have "list_all row_ok (store_row a t)"
    using assms(1,2) by (auto simp: schema_ok_def list_all_iff store_row_def)
  ultimately show ?thesis
    using assms(1) by (simp add: schema_ok_def uq_alerts_open_agent_title_def)
qed

section \<open>Refreshing\<close>

lemma refresh_alert_keeps:
  assumes "refresh_alert m d sev a = (c, a', ls)"
  shows "al_id a' = al_id a" and "alert_key a' = alert_key a"
    and "al_resolved a' = al_resolved a" and "al_resolved_at a' = al_resolved_at a"
    and "al_acknowledged a' = al_acknowledged a"
    and "al_acknowledged_at a' = al_acknowledged_at a"
    and "al_created_at a' = al_created_at a"
  using assms
  by (auto simp: refresh_alert_def Let_def alert_key_def split: if_splits option.splits)

lemma refresh_alert_severity:
  assumes "refresh_alert m d sev a = (c, a', ls)"
  shows "al_severity a' = al_severity a
    \<or> sev = Some (al_severity a') \<and> may_quieten_in_place (al_severity a') (al_severity a)"
  using assms
  by (auto simp: refresh_alert_def Let_def split: if_splits option.splits)

lemma refresh_alert_unchanged_iff:
  assumes "refresh_alert m d sev a = (c, a', ls)"
  shows "\<not> c \<longleftrightarrow> a' = a \<and> ls = []"
  using assms
  by (auto simp: refresh_alert_def Let_def split: if_splits option.splits)

lemma refresh_alert_text:
  assumes "refresh_alert m d sev a = (c, a', ls)"
  shows "al_message a' = m"
    and "jobj_eq (al_details a') (case d of None \<Rightarrow> [] | Some x \<Rightarrow> x)"
  using assms
  by (auto simp: refresh_alert_def Let_def split: if_splits option.splits)

lemma row_ok_refresh:
  assumes "refresh_alert m d sev a = (c, a', ls)" and "row_ok a"
  shows "row_ok a'"
proof -
  have "al_agent a' = al_agent a" and "al_title a' = al_title a"
    using refresh_alert_keeps(2) [OF assms(1)] by (simp_all add: alert_key_def)
  moreover have "al_severity a' = al_severity a \<or> al_severity a' = ''info''"
    using refresh_alert_severity [OF assms(1)] by (auto simp: may_quieten_iff)
  ultimately show ?thesis
    using assms(2) refresh_alert_keeps [OF assms(1)]
    by (auto simp: row_ok_def columns_fit_def chk_alert_severity_def chk_alert_agent_def
        chk_alert_resolved_stamped_def chk_alert_acknowledged_stamped_def py_len_def
        utf8_continuation_def)
qed

section \<open>The effect of a writer\<close>

text \<open>
  An agent changes the table in four ways only: not at all, by one new open row of its own, by
  refreshing one of its open rows, or by closing open rows of its own.
\<close>

definition others :: "string \<Rightarrow> alert list \<Rightarrow> alert list" where
  "others name t = filter (\<lambda>a. al_agent a \<noteq> name) t"

definition find_open :: "string \<Rightarrow> (alert \<Rightarrow> bool) \<Rightarrow> alert list \<Rightarrow> alert option" where
  "find_open name P t = find (\<lambda>a. al_agent a = name \<and> unresolved a \<and> P a) t"

inductive own_effect :: "string \<Rightarrow> session \<Rightarrow> session \<Rightarrow> bool" for name :: string where
  eff_none: "rows s' = rows s \<Longrightarrow> fresh_id s' = fresh_id s \<Longrightarrow> own_effect name s s'"
| eff_raise:
    "rows s' = rows s @ [a] \<Longrightarrow> fresh_id s' = Suc (fresh_id s) \<Longrightarrow> al_agent a = name
     \<Longrightarrow> al_id a = fresh_id s \<Longrightarrow> row_ok a \<Longrightarrow> unresolved a
     \<Longrightarrow> alert_key a \<notin> set (map alert_key (filter unresolved (rows s)))
     \<Longrightarrow> own_effect name s s'"
| eff_refresh:
    "a \<in> set (rows s) \<Longrightarrow> al_agent a = name \<Longrightarrow> unresolved a
     \<Longrightarrow> refresh_alert m d sev a = (c, a', ls) \<Longrightarrow> rows s' = store_row a' (rows s)
     \<Longrightarrow> fresh_id s' = fresh_id s \<Longrightarrow> own_effect name s s'"
| eff_close:
    "(\<And>a. a \<in> set (rows s) \<Longrightarrow> P a \<Longrightarrow> al_agent a = name \<and> unresolved a)
     \<Longrightarrow> rows s' = close_where P now (rows s) \<Longrightarrow> fresh_id s' = fresh_id s
     \<Longrightarrow> own_effect name s s'"

lemma find_open_SomeD:
  assumes "find_open name P t = Some a"
  shows "a \<in> set t" and "al_agent a = name" and "unresolved a" and "P a"
  using assms by (auto simp: find_open_def find_Some_iff)

lemma raise_alert_Inr:
  assumes "raise_alert name sev title msg det s = Inr (a, s')"
  shows "a = new_alert name sev title msg det s" and "row_ok a"
    and "rows s' = rows s @ [a]" and "fresh_id s' = Suc (fresh_id s)" and "tx_time s' = tx_time s"
    and "alert_key a \<notin> set (map alert_key (filter unresolved (rows s)))"
proof -
  let ?a = "new_alert name sev title msg det s"
  from assms have a: "a = ?a"
    by (auto simp: raise_alert_def Let_def split: sum.splits)
  then show "a = ?a" .
  from assms a obtain t where t: "flush_insert a (rows s) = Inr t"
    by (auto simp: raise_alert_def Let_def split: sum.splits)
  have "unresolved a" by (simp add: a new_alert_def unresolved_def)
  with t show "row_ok a" "alert_key a \<notin> set (map alert_key (filter unresolved (rows s)))"
    by (auto simp: flush_insert_Inr_iff)
  from t have "t = rows s @ [a]" by (simp add: flush_insert_Inr_iff)
  with assms a t show "rows s' = rows s @ [a]" "fresh_id s' = Suc (fresh_id s)"
    "tx_time s' = tx_time s"
    by (auto simp: raise_alert_def Let_def)
qed

lemma new_alert_simps [simp]:
  "al_id (new_alert n sev t m d s) = fresh_id s"
  "al_agent (new_alert n sev t m d s) = n"
  "al_severity (new_alert n sev t m d s) = sev"
  "al_title (new_alert n sev t m d s) = t"
  "al_message (new_alert n sev t m d s) = m"
  "al_details (new_alert n sev t m d s) = (case d of None \<Rightarrow> [] | Some x \<Rightarrow> x)"
  "al_resolved (new_alert n sev t m d s) = False"
  "al_created_at (new_alert n sev t m d s) = tx_time s"
  "unresolved (new_alert n sev t m d s)"
  "alert_key (new_alert n sev t m d s) = (n, t)"
  by (simp_all add: new_alert_def unresolved_def alert_key_def)

lemma raise_alert_effect:
  assumes "raise_alert name sev title msg det s = Inr (a, s')"
  shows "own_effect name s s'"
  using raise_alert_Inr [OF assms] by (intro eff_raise) auto

lemma session_ok_raise [schema_intros]:
  assumes "session_ok s" and "rows s' = rows s @ [a]" and "fresh_id s' = Suc (fresh_id s)"
    and "al_id a = fresh_id s" and "row_ok a"
    and "alert_key a \<notin> set (map alert_key (filter unresolved (rows s)))"
  shows "session_ok s'"
proof -
  have "al_id a \<notin> set (map al_id (rows s))"
    using assms(1,4) by (auto simp: session_ok_def)
  then have "schema_ok (rows s')"
    using assms by (auto simp: session_ok_def schema_ok_def uq_alerts_open_agent_title_def)
  then show ?thesis
    using assms(1-4) by (auto simp: session_ok_def less_Suc_eq)
qed

lemma resolve_alerts_rows:
  "rows (snd (resolve_alerts name now pat s)) =
     close_where (\<lambda>a. al_agent a = name \<and> sql_ilike (''%'' @ pat @ ''%'') (al_title a)
       \<and> unresolved a) now (rows s)"
  "fresh_id (snd (resolve_alerts name now pat s)) = fresh_id s"
  by (simp_all add: resolve_alerts_def Let_def)

lemma session_ok_close_where [schema_intros]:
  assumes "session_ok s" and "rows s' = close_where P now (rows s)" and "fresh_id s' = fresh_id s"
  shows "session_ok s'"
  using assms schema_close_where [of "rows s" P now]
  by (auto simp: session_ok_def set_close_where)

lemma session_ok_refresh [schema_intros]:
  assumes ok: "session_ok s" and a: "a \<in> set (rows s)"
    and r: "refresh_alert m d sev a = (c, a', ls)"
    and s': "rows s' = store_row a' (rows s)" "fresh_id s' = fresh_id s"
  shows "session_ok s'"
proof -
  have "b = a" if "b \<in> set (rows s)" "al_id b = al_id a'" for b
    using that a ok refresh_alert_keeps(1) [OF r]
    by (auto simp: session_ok_def schema_ok_def distinct_map inj_on_def)
  moreover have "row_ok a"
    using ok a by (auto simp: session_ok_def schema_ok_def list_all_iff)
  moreover have "unresolved a' = unresolved a"
    using refresh_alert_keeps(3) [OF r] by (simp add: unresolved_def)
  ultimately have "schema_ok (rows s')"
    unfolding s' using ok row_ok_refresh [OF r] refresh_alert_keeps(2) [OF r]
    by (intro schema_store_row) (auto simp: session_ok_def)
  moreover have "al_id b < fresh_id s'" if "b \<in> set (rows s')" for b
    using that ok a refresh_alert_keeps(1) [OF r]
    by (auto simp: s' store_row_def session_ok_def)
  ultimately show ?thesis by (simp add: session_ok_def)
qed

lemma others_close_where:
  "(\<And>a. a \<in> set t \<Longrightarrow> P a \<Longrightarrow> al_agent a = name) \<Longrightarrow> others name (close_where P now t) = others name t"
  by (induction t) (auto simp: others_def close_where_def)

lemma others_store_row:
  assumes "\<And>b. b \<in> set t \<Longrightarrow> al_id b = al_id a \<Longrightarrow> al_agent b = name" and "al_agent a = name"
  shows "others name (store_row a t) = others name t"
  using assms by (induction t) (auto simp: others_def store_row_def)

lemma unique_id:
  "session_ok s \<Longrightarrow> a \<in> set (rows s) \<Longrightarrow> b \<in> set (rows s) \<Longrightarrow> al_id a = al_id b \<Longrightarrow> a = b"
  by (auto simp: session_ok_def schema_ok_def distinct_map inj_on_def)

lemma store_row_history:
  assumes "session_ok s" and "a \<in> set (rows s)" and "al_id a' = al_id a" and "unresolved a"
    and "b \<in> set (rows s)" and "al_resolved b"
  shows "b \<in> set (store_row a' (rows s))"
proof -
  have "al_id b \<noteq> al_id a'"
    using unique_id [OF assms(1,5,2)] assms(3,4,6) by (auto simp: unresolved_def)
  with assms(5) show ?thesis by (auto simp: store_row_def image_iff)
qed

lemma own_effect_ok [schema_intros]:
  assumes "own_effect name s s'" and ok: "session_ok s"
  shows "session_ok s'"
  using assms(1)
proof cases
  case eff_none
  with ok show ?thesis by (simp add: session_ok_def)
next
  case (eff_raise a)
  then show ?thesis by (intro session_ok_raise [OF ok])
next
  case (eff_refresh a m d sev c a' ls)
  then show ?thesis by (intro session_ok_refresh [OF ok])
next
  case (eff_close P now)
  then show ?thesis by (intro session_ok_close_where [OF ok])
qed

lemma own_effect_others:
  assumes "own_effect name s s'" and ok: "session_ok s"
  shows "others name (rows s') = others name (rows s)"
  using assms(1)
proof cases
  case (eff_refresh a m d sev c a' ls)
  have "al_agent a' = name"
    using refresh_alert_keeps(2) [OF eff_refresh(4)] eff_refresh(2) by (simp add: alert_key_def)
  moreover have "b = a" if "b \<in> set (rows s)" "al_id b = al_id a'" for b
    using unique_id [OF ok that(1) eff_refresh(1)] that(2)
      refresh_alert_keeps(1) [OF eff_refresh(4)] by simp
  ultimately show ?thesis
    using eff_refresh by (auto intro!: others_store_row)
next
  case (eff_close P now)
  then show ?thesis by (auto intro!: others_close_where)
qed (auto simp: others_def)

lemma own_effect_history:
  assumes "own_effect name s s'" and "session_ok s" and "b \<in> set (rows s)" and "al_resolved b"
  shows "b \<in> set (rows s')"
  using assms(1)
proof cases
  case (eff_refresh a m d sev c a' ls)
  then show ?thesis
    using store_row_history [OF assms(2) _ _ _ assms(3,4)] refresh_alert_keeps(1) by metis
qed (use assms(3,4) in \<open>auto simp: set_close_where unresolved_def\<close>)

lemma own_effect_ids:
  assumes "own_effect name s s'"
  shows "set (map al_id (rows s)) \<subseteq> set (map al_id (rows s'))"
  using assms
proof cases
  case (eff_refresh a m d sev c a' ls)
  have "map al_id (store_row a' (rows s)) = map al_id (rows s)"
    by (rule map_store_row_same) simp
  with eff_refresh show ?thesis by simp
qed (auto simp: map_id_close_where simp flip: set_map)

text \<open>A row that is well formed and whose title is free is never refused.\<close>

lemma alert_agents_fit: "name \<in> set alert_agents \<Longrightarrow> py_len name \<le> 50"
proof -
  have "list_all (\<lambda>n. py_len n \<le> 50) alert_agents" by code_simp
  then show "name \<in> set alert_agents \<Longrightarrow> py_len name \<le> 50" by (simp add: list_all_iff)
qed

lemma known_severity_fits: "known_severity sev \<Longrightarrow> py_len sev \<le> 20"
  by (auto simp: known_severity_iff py_len_def utf8_continuation_def)

lemma row_ok_new_alert:
  assumes "name \<in> set alert_agents" and "known_severity sev" and "py_len t \<le> 255"
  shows "row_ok (new_alert name sev t m d s)"
  using assms alert_agents_fit known_severity_fits
  by (auto simp: row_ok_def columns_fit_def chk_alert_severity_def chk_alert_agent_def
      chk_alert_resolved_stamped_def chk_alert_acknowledged_stamped_def new_alert_def known_severity_iff)

lemma raise_alert_succeeds:
  assumes "name \<in> set alert_agents" and "known_severity sev" and "py_len t \<le> 255"
    and "\<And>a. a \<in> set (rows s) \<Longrightarrow> al_agent a = name \<Longrightarrow> unresolved a \<Longrightarrow> al_title a \<noteq> t"
  obtains s' where "raise_alert name sev t m d s = Inr (new_alert name sev t m d s, s')"
proof -
  have "flush_insert (new_alert name sev t m d s) (rows s) = Inr (rows s @ [new_alert name sev t m d s])"
    using row_ok_new_alert [OF assms(1-3)] assms(4)
    by (auto simp: flush_insert_Inr_iff alert_key_def)
  then show ?thesis by (intro that) (simp add: raise_alert_def Let_def)
qed

section \<open>The contract of a writer\<close>

primrec run_ops ::
  "('op \<Rightarrow> session \<Rightarrow> py_error + session) \<Rightarrow> 'op list \<Rightarrow> session \<Rightarrow> py_error + session" where
  "run_ops w [] s = Inr s"
| "run_ops w (x # xs) s = (case w x s of Inl e \<Rightarrow> Inl e | Inr s' \<Rightarrow> run_ops w xs s')"

locale agent_writes =
  fixes name :: string
    and w :: "'op \<Rightarrow> session \<Rightarrow> py_error + session"
  assumes effect: "w x s = Inr s' \<Longrightarrow> (own_effect name)\<^sup>*\<^sup>* s s'"
begin

lemma run_effect: "run_ops w xs s = Inr s' \<Longrightarrow> (own_effect name)\<^sup>*\<^sup>* s s'"
  by (induction xs arbitrary: s) (auto split: sum.splits dest: effect intro: rtranclp_trans)

end

lemma own_effects_ok:
  "(own_effect name)\<^sup>*\<^sup>* s s' \<Longrightarrow> session_ok s \<Longrightarrow> session_ok s'"
  by (induction rule: rtranclp_induct) (auto intro: own_effect_ok)

lemma own_effects_others:
  "(own_effect name)\<^sup>*\<^sup>* s s' \<Longrightarrow> session_ok s \<Longrightarrow> others name (rows s') = others name (rows s)"
  by (induction rule: rtranclp_induct) (auto dest: own_effect_others own_effects_ok)

lemma own_effects_history:
  "(own_effect name)\<^sup>*\<^sup>* s s' \<Longrightarrow> session_ok s \<Longrightarrow> b \<in> set (rows s) \<Longrightarrow> al_resolved b
     \<Longrightarrow> b \<in> set (rows s')"
  by (induction rule: rtranclp_induct) (auto dest: own_effect_history own_effects_ok)

lemma own_effects_ids:
  "(own_effect name)\<^sup>*\<^sup>* s s' \<Longrightarrow> set (map al_id (rows s)) \<subseteq> set (map al_id (rows s'))"
  by (induction rule: rtranclp_induct) (use own_effect_ids in blast)+

lemma own_effects_fresh: "(own_effect name)\<^sup>*\<^sup>* s s' \<Longrightarrow> fresh_id s \<le> fresh_id s'"
  by (induction rule: rtranclp_induct) (auto elim: own_effect.cases)

section \<open>The operations of \<open>BaseAgent\<close> as writers\<close>

datatype alert_op =
    OpRaise string string "string option" "jobj option"
  | OpRefresh nat "string option" "jobj option" "string option"
  | OpResolve instant string

text \<open>
  One operation of an agent. A refresh is of one of the agent's own open rows, which is the
  only kind its callers fetch; with no such row nothing is written.
\<close>

fun apply_op :: "string \<Rightarrow> alert_op \<Rightarrow> session \<Rightarrow> py_error + session" where
  "apply_op name (OpRaise sev title msg det) s =
     (case raise_alert name sev title msg det s of Inl e \<Rightarrow> Inl e | Inr (a, s') \<Rightarrow> Inr s')"
| "apply_op name (OpRefresh i msg det sev) s =
     (case find_open name (\<lambda>a. al_id a = i) (rows s) of
        None \<Rightarrow> Inr s
      | Some a \<Rightarrow>
          (case refresh_alert msg det sev a of
             (c, a', ls) \<Rightarrow> Inr (s\<lparr>rows := store_row a' (rows s), logs := logs s @ ls\<rparr>)))"
| "apply_op name (OpResolve now pat) s = Inr (snd (resolve_alerts name now pat s))"

lemma apply_op_effect: "apply_op name x s = Inr s' \<Longrightarrow> own_effect name s s'"
proof (cases x)
  case (OpRaise sev title msg det)
  assume "apply_op name x s = Inr s'"
  with OpRaise show ?thesis by (auto split: sum.splits intro: raise_alert_effect)
next
  case (OpRefresh i msg det sev)
  assume w: "apply_op name x s = Inr s'"
  show ?thesis
  proof (cases "find_open name (\<lambda>a. al_id a = i) (rows s)")
    case None
    with w OpRefresh show ?thesis by (auto intro: eff_none)
  next
    case (Some a)
    obtain c a' ls where r: "refresh_alert msg det sev a = (c, a', ls)"
      by (cases "refresh_alert msg det sev a") auto
    from w OpRefresh Some r have "s' = s\<lparr>rows := store_row a' (rows s), logs := logs s @ ls\<rparr>"
      by simp
    then show ?thesis
      using find_open_SomeD [OF Some] r by (intro eff_refresh) auto
  qed
next
  case (OpResolve now pat)
  assume "apply_op name x s = Inr s'"
  with OpResolve have "s' = snd (resolve_alerts name now pat s)" by simp
  then show ?thesis
    by (auto intro: eff_close [OF _ resolve_alerts_rows])
qed

interpretation op: agent_writes name "apply_op name" for name
  by unfold_locales (auto dest: apply_op_effect)

section \<open>Properties\<close>

text \<open>
  C2: any sequence of raises, refreshes and resolutions by one agent keeps the constraints of the
  alerts table, leaves every row of every other agent as it was, keeps every closed row
  unchanged, and never deletes a row.
\<close>

theorem agent_ops_contract:
  assumes "run_ops (apply_op name) ops s = Inr s'" and "session_ok s"
  shows "session_ok s' \<and> others name (rows s') = others name (rows s)
    \<and> {b \<in> set (rows s). al_resolved b} \<subseteq> set (rows s')
    \<and> set (map al_id (rows s)) \<subseteq> set (map al_id (rows s'))"
  using op.run_effect [OF assms(1)] assms(2)
  by (auto intro: own_effects_ok own_effects_history simp: own_effects_others simp del: set_map
      dest: own_effects_ids)

definition ex_session :: session where
  "ex_session =
     \<lparr>rows = [\<lparr>al_id = 0, al_agent = ''file_organiser'', al_severity = ''warning'',
        al_title = ''Disk'', al_message = None, al_details = [], al_acknowledged = False,
        al_acknowledged_at = None, al_resolved = False, al_resolved_at = None, al_created_at = 5\<rparr>],
      health = [], log_entries = [], fresh_id = 1, tx_time = 7, pending_events = Some [], published = [], logs = []\<rparr>"

theorem agent_ops_contract_witness:
  "\<exists>s'. run_ops (apply_op ''sysadmin'')
       [OpRaise ''critical'' ''db critical'' None None, OpResolve 9 ''critical''] ex_session = Inr s'
     \<and> session_ok ex_session \<and> session_ok s'
     \<and> others ''sysadmin'' (rows s') = others ''sysadmin'' (rows ex_session)"
proof -
  let ?ops = "[OpRaise ''critical'' ''db critical'' None None, OpResolve 9 ''critical'']"
  have ok: "session_ok ex_session" by code_simp
  have "\<not> isl (run_ops (apply_op ''sysadmin'') ?ops ex_session)" by code_simp
  then obtain s' where s': "run_ops (apply_op ''sysadmin'') ?ops ex_session = Inr s'"
    by (cases "run_ops (apply_op ''sysadmin'') ?ops ex_session") auto
  show ?thesis using s' ok agent_ops_contract [OF s' ok] by blast
qed

text \<open>
  C8: \<open>raise_alert\<close> is refused exactly when a column does not fit, a check is violated or the
  agent already has an unresolved row with the title; otherwise one unresolved row, stamped with
  the time of the transaction, is appended, and one \<open>alert.raised\<close> event is buffered or, outside
  a run, published.
\<close>

theorem raise_alert_spec:
  "if row_ok (new_alert name sev title msg det s)
      \<and> (name, title) \<notin> set (map alert_key (filter unresolved (rows s)))
   then raise_alert name sev title msg det s =
     (let a = new_alert name sev title msg det s;
          s' = s\<lparr>rows := rows s @ [a], fresh_id := Suc (fresh_id s),
                 logs := logs s @ [(''warning'', ''alert_raised'')]\<rparr>
      in Inr (a, case pending_events s of
             Some evs \<Rightarrow> s'\<lparr>pending_events := Some (evs @ [(''alert.raised'', raised_payload a)])\<rparr>
           | None \<Rightarrow> s'\<lparr>published := published s @ [(''alert.raised'', raised_payload a)]\<rparr>))
   else \<exists>e. raise_alert name sev title msg det s = Inl e \<and> is_sqlalchemy_error e"
proof -
  let ?a = "new_alert name sev title msg det s"
  let ?free = "(name, title) \<notin> set (map alert_key (filter unresolved (rows s)))"
  have iff: "row_ok ?a \<and> ?free \<longleftrightarrow> flush_insert ?a (rows s) = Inr (rows s @ [?a])"
    by (auto simp: flush_insert_Inr_iff)
  show ?thesis
  proof (cases "row_ok ?a \<and> ?free")
    case True
    with iff show ?thesis
      by (simp add: raise_alert_def Let_def queue_event_def log_line_def split: option.splits)
  next
    case False
    with iff obtain e where "flush_insert ?a (rows s) = Inl e"
      by (cases "flush_insert ?a (rows s)") (auto simp: flush_insert_Inr_iff)
    moreover from this have "is_sqlalchemy_error e" by (rule flush_insert_error)
    ultimately show ?thesis
      unfolding if_not_P [OF False] by (simp add: raise_alert_def Let_def)
  qed
qed

text \<open>
  C9: refreshing a row keeps its identity (id, agent, title, creation, acknowledgement and
  resolution), brings its message and details to what was judged, and changes its severity only
  downwards to the quietest one; it reports a change exactly when the row differs, and a second
  refresh with the same judgement changes nothing.
\<close>

theorem refresh_alert_spec:
  "case refresh_alert m d sev a of (changed, a', lines) \<Rightarrow>
     al_id a' = al_id a \<and> alert_key a' = alert_key a \<and> al_created_at a' = al_created_at a
     \<and> al_acknowledged a' = al_acknowledged a \<and> al_acknowledged_at a' = al_acknowledged_at a
     \<and> al_resolved a' = al_resolved a \<and> al_resolved_at a' = al_resolved_at a
     \<and> al_message a' = m \<and> jobj_eq (al_details a') (case d of None \<Rightarrow> [] | Some x \<Rightarrow> x)
     \<and> (al_severity a' = al_severity a
        \<or> al_severity a' = ''info'' \<and> sev = Some ''info'' \<and> al_severity a \<in> {''warning'', ''critical''})
     \<and> (changed = (lines \<noteq> [])) \<and> (changed = False \<longleftrightarrow> a' = a \<and> lines = [])
     \<and> fst (refresh_alert m d sev a') = False"
proof -
  obtain c a' ls where r: "refresh_alert m d sev a = (c, a', ls)"
    by (cases "refresh_alert m d sev a") auto
  have "fst (refresh_alert m d sev a') = False"
    using r by (auto simp: refresh_alert_def Let_def may_quieten_iff split: if_splits option.splits)
  moreover have "c = (ls \<noteq> [])"
    using r by (auto simp: refresh_alert_def Let_def split: if_splits option.splits)
  ultimately show ?thesis
    using refresh_alert_keeps [OF r] refresh_alert_severity [OF r] refresh_alert_text [OF r]
      refresh_alert_unchanged_iff [OF r]
    by (auto simp: r may_quieten_iff)
qed

text \<open>
  C14: \<open>resolve_alerts\<close> closes exactly the agent's unresolved rows whose title contains the
  pattern, counts them, announces them once and only when there are some; calling it again with
  the same pattern closes nothing and announces nothing.
\<close>

theorem resolve_alerts_spec:
  "case resolve_alerts name now pat s of (n, s') \<Rightarrow>
     n = length (filter (\<lambda>a. al_agent a = name \<and> sql_ilike (''%'' @ pat @ ''%'') (al_title a)
                           \<and> unresolved a) (rows s))
     \<and> rows s' = close_where (\<lambda>a. al_agent a = name \<and> sql_ilike (''%'' @ pat @ ''%'') (al_title a)
                              \<and> unresolved a) now (rows s)
     \<and> s' = (if n = 0 then s else
          queue_event ''alert.resolved'' [(''agent'', JStr name), (''match'', JStr pat),
            (''count'', JNum (of_nat n))] (s\<lparr>rows := rows s'\<rparr>))
     \<and> resolve_alerts name now' pat s' = (0, s')"
proof -
  define P where "P = (\<lambda>a. al_agent a = name \<and> sql_ilike (''%'' @ pat @ ''%'') (al_title a)
    \<and> unresolved a)"
  have PU: "P a \<Longrightarrow> unresolved a" for a by (simp add: P_def)
  note eq = resolve_alerts_def [of name _ pat, folded P_def, unfolded Let_def]
  obtain n s' where r: "resolve_alerts name now pat s = (n, s')"
    by (cases "resolve_alerts name now pat s") auto
  have n: "n = length (filter P (rows s))" and rows: "rows s' = close_where P now (rows s)"
    using r by (auto simp: eq)
  have "filter P (rows s') = []" unfolding rows by (rule filter_close_where_none [OF PU])
  then have again: "resolve_alerts name now' pat s' = (0, s')" by (simp add: eq close_where_none)
  have "s' = (if n = 0 then s else queue_event ''alert.resolved'' [(''agent'', JStr name),
      (''match'', JStr pat), (''count'', JNum (of_nat n))] (s\<lparr>rows := rows s'\<rparr>))"
    using r unfolding rows n by (auto simp: eq close_where_none)
  with n rows again show ?thesis unfolding r prod.case P_def by (intro conjI)
qed

end
