(* ===== verification/Services.thy ===== *)
theory Services
  imports Alerts
begin

text \<open>
  The declared services (\<open>sysadmin/monitor/services.py\<close>): the entries of \<open>services.yaml\<close> and
  their validation, which checks an entry calls for, the condition on the JSON body of a
  response, and the journal sources the entries declare. Also the vocabulary of check results
  (\<open>sysadmin/monitor/models/service_health.py\<close>) and the reading of the estate's arbiter
  (\<open>sysadmin/estate/client.py\<close>), both of which the status handler consumes.
\<close>

section \<open>Check results\<close>

datatype status_reading = Well | Fault | Unwatched

definition STATUS_READINGS :: "(string, status_reading) dict" where
  "STATUS_READINGS =
     [(''ok'', Well), (''degraded'', Fault), (''warning'', Fault), (''critical'', Fault),
      (''unreachable'', Fault), (''error'', Fault), (''skipped'', Unwatched)]"

definition SKIPPED :: string where
  "SKIPPED = ''skipped''"

definition is_fault :: "string \<Rightarrow> bool" where
  "is_fault status = (dict_get_or STATUS_READINGS status Fault = Fault)"

definition is_unwatched :: "string \<Rightarrow> bool" where
  "is_unwatched status = (dict_get STATUS_READINGS status = Some Unwatched)"

definition chk_health_status :: "health_row \<Rightarrow> bool" where
  "chk_health_status h =
     (sh_status h \<in> set [''ok'', ''degraded'', ''warning'', ''critical'', ''unreachable'', ''error'', ''skipped''])"

definition health_columns_fit :: "health_row \<Rightarrow> bool" where
  "health_columns_fit h = (py_len (sh_service_name h) \<le> 100 \<and> py_len (sh_status h) \<le> 20)"

section \<open>Entries\<close>

record systemd_ref =
  sd_unit :: string
  sd_scope :: string

record log_ref =
  lr_type :: string
  lr_unit :: "string option"
  lr_path :: "string option"
  lr_severity_filter :: string
  lr_format :: string

record http_expectation =
  hx_path :: string
  hx_equals :: json

record service_entry =
  svc_name :: string
  svc_kind :: string
  svc_project :: "string option"
  svc_role :: "string option"
  svc_url :: "string option"
  svc_host :: "string option"
  svc_port :: "int option"
  svc_systemd :: "systemd_ref option"
  svc_log :: "log_ref option"
  svc_monitor :: bool
  svc_reason :: "string option"
  svc_agent :: "string option"
  svc_mute :: bool
  svc_controllable :: bool
  svc_auto_restart :: bool
  svc_auto_restart_after_checks :: int
  svc_holds_vram :: bool
  svc_expect :: "http_expectation option"

text \<open>Python's truth value of an optional text or number.\<close>

definition given_int :: "int option \<Rightarrow> bool" where
  "given_int x = (x \<noteq> None \<and> x \<noteq> Some 0)"

datatype services_error =
    MonitorWithoutReason
  | HttpWithoutUrl
  | TcpWithoutAddress
  | KindWithoutUnit
  | TimerNamesOtherUnit
  | ExpectOnOtherKind
  | AgentOnOtherKind
  | VramWithoutUnit
  | UnsupportedSchema
  | DuplicateNames "string list"

definition entry_consistent :: "service_entry \<Rightarrow> services_error option" where
  "entry_consistent e =
     (if \<not> svc_monitor e \<and> \<not> given (svc_reason e) then Some MonitorWithoutReason
      else if svc_kind e = ''http'' \<and> \<not> given (svc_url e) then Some HttpWithoutUrl
      else if svc_kind e = ''tcp'' \<and> \<not> (given (svc_host e) \<and> given_int (svc_port e))
        then Some TcpWithoutAddress
      else if svc_kind e \<in> set [''systemd'', ''timer'', ''oneshot'', ''static''] \<and> svc_systemd e = None
        then Some KindWithoutUnit
      else if svc_kind e = ''timer''
          \<and> (case svc_systemd e of None \<Rightarrow> False | Some r \<Rightarrow> \<not> suffix ''.timer'' (sd_unit r))
        then Some TimerNamesOtherUnit
      else if svc_expect e \<noteq> None \<and> svc_kind e \<noteq> ''http'' then Some ExpectOnOtherKind
      else if given (svc_agent e) \<and> svc_kind e \<noteq> ''timer'' then Some AgentOnOtherKind
      else if svc_holds_vram e \<and> \<not> (svc_kind e = ''http'' \<and> svc_systemd e \<noteq> None)
        then Some VramWithoutUnit
      else None)"

definition svc_scope :: "service_entry \<Rightarrow> string" where
  "svc_scope e = (case svc_systemd e of None \<Rightarrow> ''user'' | Some r \<Rightarrow> sd_scope r)"

definition systemd_unit :: "service_entry \<Rightarrow> string option" where
  "systemd_unit e = map_option sd_unit (svc_systemd e)"

definition svc_user :: "service_entry \<Rightarrow> bool" where
  "svc_user e = (svc_scope e = ''user'')"

definition log_unit :: "service_entry \<Rightarrow> string option" where
  "log_unit e =
     (case svc_log e of
        None \<Rightarrow> None
      | Some l \<Rightarrow> (if given (lr_unit l) then lr_unit l else systemd_unit e))"

record services_file =
  sf_schema :: int
  sf_services :: "service_entry list"

definition SCHEMA_VERSION :: int where
  "SCHEMA_VERSION = 1"

definition file_checked :: "services_file \<Rightarrow> services_error option" where
  "file_checked f =
     (if sf_schema f \<noteq> SCHEMA_VERSION then Some UnsupportedSchema
      else (let seen = fold (\<lambda>e d. dict_set (svc_name e) (dict_get_or d (svc_name e) 0 + 1) d)
                         (sf_services f) ([] :: (string, nat) dict);
                duplicates = sort (map fst (filter (\<lambda>(n, c). 1 < c) seen))
            in if duplicates \<noteq> [] then Some (DuplicateNames duplicates) else None))"

definition project_ids :: "services_file \<Rightarrow> string list" where
  "project_ids f =
     rev (remdups (rev (map the (filter given (map svc_project (sf_services f))))))"

definition for_project :: "string \<Rightarrow> services_file \<Rightarrow> service_entry list" where
  "for_project p f = filter (\<lambda>e. svc_project e = Some p) (sf_services f)"

definition host_services :: "services_file \<Rightarrow> service_entry list" where
  "host_services f = filter (\<lambda>e. \<not> given (svc_project e)) (sf_services f)"

definition services_by_project :: "services_file \<Rightarrow> (string, string list) dict" where
  "services_by_project f =
     fold (\<lambda>e d. case svc_project e of
                    None \<Rightarrow> d
                  | Some p \<Rightarrow> if p = [] then d
                             else dict_set p (dict_get_or d p [] @ [svc_name e]) d)
       (sf_services f) []"

section \<open>Which checks an entry calls for\<close>

definition QUIET_KINDS :: "string list" where
  "QUIET_KINDS = [''oneshot'', ''static'']"

record check_plan =
  poll_url :: bool
  connect :: bool
  assert_active :: bool
  inspect_timer :: bool

definition checks_nothing :: "check_plan \<Rightarrow> bool" where
  "checks_nothing p = (\<not> (poll_url p \<or> connect p \<or> assert_active p))"

definition no_plan :: check_plan where
  "no_plan = \<lparr>poll_url = False, connect = False, assert_active = False, inspect_timer = False\<rparr>"

definition check_plan_of :: "service_entry \<Rightarrow> check_plan" where
  "check_plan_of e =
     (if \<not> svc_monitor e \<or> svc_kind e \<in> set QUIET_KINDS then no_plan
      else if svc_kind e = ''http''
        then no_plan\<lparr>poll_url := True, assert_active := svc_systemd e \<noteq> None\<rparr>
      else if svc_kind e = ''tcp'' then no_plan\<lparr>connect := True\<rparr>
      else if svc_kind e = ''timer'' then no_plan\<lparr>assert_active := True, inspect_timer := True\<rparr>
      else no_plan\<lparr>assert_active := True\<rparr>)"

section \<open>The condition on a body\<close>

fun is_num :: "json \<Rightarrow> bool" where
  "is_num (JNum _) = True"
| "is_num _ = False"

fun is_bool :: "json \<Rightarrow> bool" where
  "is_bool (JBool _) = True"
| "is_bool _ = False"

definition same_value :: "json \<Rightarrow> json \<Rightarrow> bool" where
  "same_value actual expected =
     (if is_bool actual \<or> is_bool expected then is_bool actual \<and> is_bool expected \<and> actual = expected
      else if is_num actual \<and> is_num expected then actual = expected
      else py_type_name actual = py_type_name expected \<and> jnorm actual = jnorm expected)"

datatype expect_verdict = Met | Unmet | Unevaluable

text \<open>Why a condition could not be evaluated: the texts name the key and the type found there.\<close>

datatype expect_error = CannotDescend string string | FieldAbsent string

record expect_evidence =
  ev_path :: string
  ev_equals :: json
  ev_actual :: "json option"
  ev_error :: "expect_error option"

fun descend :: "string list \<Rightarrow> json \<Rightarrow> expect_error + json" where
  "descend [] node = Inr node"
| "descend (key # keys) node =
     (case node of
        JObj kvs \<Rightarrow>
          (case map_of kvs key of
             None \<Rightarrow> Inl (FieldAbsent key)
           | Some v \<Rightarrow> descend keys v)
      | _ \<Rightarrow> Inl (CannotDescend key (py_type_name node)))"

definition evaluate_expectation :: "http_expectation \<Rightarrow> json \<Rightarrow> expect_verdict \<times> expect_evidence" where
  "evaluate_expectation expect body =
     (let ev = \<lparr>ev_path = hx_path expect, ev_equals = hx_equals expect, ev_actual = None, ev_error = None\<rparr>
      in case descend (split_on CHR ''.'' (hx_path expect)) body of
           Inl e \<Rightarrow> (Unevaluable, ev\<lparr>ev_error := Some e\<rparr>)
         | Inr node \<Rightarrow>
             (if same_value node (hx_equals expect) then Met else Unmet, ev\<lparr>ev_actual := Some node\<rparr>))"

section \<open>Journal sources\<close>

record log_source =
  lsrc_name :: string
  lsrc_type :: string
  lsrc_unit :: "string option"
  lsrc_user :: bool
  lsrc_path :: "string option"
  lsrc_severity_filter :: string
  lsrc_format :: string

definition log_sources :: "services_file \<Rightarrow> log_source list" where
  "log_sources f =
     List.map_filter (\<lambda>e. map_option (\<lambda>l.
         \<lparr>lsrc_name = svc_name e, lsrc_type = lr_type l, lsrc_unit = log_unit e, lsrc_user = svc_user e,
          lsrc_path = lr_path l, lsrc_severity_filter = lr_severity_filter l,
          lsrc_format = lr_format l\<rparr>) (svc_log e)) (sf_services f)"

fun add_sources ::
  "(string option \<times> bool) list \<Rightarrow> log_source list \<Rightarrow> string list \<Rightarrow> log_source list
     \<Rightarrow> log_source list \<times> logline list" where
  "add_sources by_unit sources seen [] = (sources, [])"
| "add_sources by_unit sources seen (x # xs) =
     (if lsrc_name x \<in> set seen
      then (case add_sources by_unit sources seen xs of
              (r, ls) \<Rightarrow> (r, (''warning'', ''duplicate_log_source_name'') # ls))
      else if given (lsrc_unit x) \<and> (lsrc_unit x, lsrc_user x) \<in> set by_unit
      then (case add_sources by_unit sources seen xs of
              (r, ls) \<Rightarrow> (r, (''warning'', ''duplicate_log_source_unit'') # ls))
      else add_sources by_unit (sources @ [x]) (lsrc_name x # seen) xs)"

definition composed_log_sources :: "services_file \<Rightarrow> log_source list \<Rightarrow> log_source list \<times> logline list" where
  "composed_log_sources f extras =
     (let sources = log_sources f
      in add_sources (map (\<lambda>s. (lsrc_unit s, lsrc_user s)) (filter (\<lambda>s. given (lsrc_unit s)) sources))
           sources (map lsrc_name sources) extras)"

definition stored_source_name :: "log_source \<Rightarrow> string option" where
  "stored_source_name s =
     (if lsrc_type s = ''journalctl'' \<and> given (lsrc_unit s) then lsrc_unit s
      else if lsrc_type s = ''file'' \<and> given (lsrc_path s) then Some (lsrc_name s)
      else None)"

section \<open>The estate's arbiter\<close>

definition ARBITRATION_GRANTED :: string where
  "ARBITRATION_GRANTED = ''granted''"

definition ARBITRATION_IDLE :: string where
  "ARBITRATION_IDLE = ''idle''"

definition ARBITRATION_UNREAD :: string where
  "ARBITRATION_UNREAD = ''unread''"

record arbitrated_stops =
  as_reading :: string
  as_units :: "string list"
  as_lease_id :: "int option"
  as_profile :: "string option"
  as_error :: "string option"

definition unread_stops :: "int option \<Rightarrow> string option \<Rightarrow> string option \<Rightarrow> arbitrated_stops" where
  "unread_stops lease profile err =
     \<lparr>as_reading = ARBITRATION_UNREAD, as_units = [], as_lease_id = lease, as_profile = profile,
      as_error = err\<rparr>"

definition stops_known :: "arbitrated_stops \<Rightarrow> bool" where
  "stops_known a = (as_reading a \<noteq> ARBITRATION_UNREAD)"

definition stopped :: "arbitrated_stops \<Rightarrow> string option \<Rightarrow> bool" where
  "stopped a unit = (case unit of None \<Rightarrow> False | Some u \<Rightarrow> u \<in> set (as_units a))"

text \<open>
  \<open>read_arbitrated_stops\<close>, with the two answers of the estate as arguments: each is the object
  read, or why there is none.
\<close>

definition str_or_none :: "json option \<Rightarrow> string option" where
  "str_or_none v = (case v of Some (JStr s) \<Rightarrow> Some s | _ \<Rightarrow> None)"

definition read_arbitrated_stops ::
  "(string + jobj) \<Rightarrow> (int \<Rightarrow> string + jobj) \<Rightarrow> arbitrated_stops" where
  "read_arbitrated_stops invariants lease_of =
     (case invariants of
        Inl err \<Rightarrow> unread_stops None None (Some err)
      | Inr payload \<Rightarrow>
          (case dict_get_or payload ''active_lease'' JNull of
             JNull \<Rightarrow> \<lparr>as_reading = ARBITRATION_IDLE, as_units = [], as_lease_id = None,
                       as_profile = None, as_error = None\<rparr>
           | JObj lease \<Rightarrow>
               (case dict_get_or lease ''id'' JNull of
                  JNum q \<Rightarrow>
                    (if of_int \<lfloor>q\<rfloor> = q then
                       (let profile = str_or_none (dict_get lease ''profile'')
                        in case lease_of \<lfloor>q\<rfloor> of
                             Inl err \<Rightarrow> unread_stops (Some \<lfloor>q\<rfloor>) profile (Some err)
                           | Inr lp \<Rightarrow>
                               (case dict_get_or lp ''stopped_units'' JNull of
                                  JNull \<Rightarrow>
                                    \<lparr>as_reading = ARBITRATION_GRANTED, as_units = [],
                                     as_lease_id = Some \<lfloor>q\<rfloor>, as_profile = profile, as_error = None\<rparr>
                                | JArr us \<Rightarrow>
                                    \<lparr>as_reading = ARBITRATION_GRANTED,
                                     as_units = List.map_filter (\<lambda>u. str_or_none (Some u)) us,
                                     as_lease_id = Some \<lfloor>q\<rfloor>, as_profile = profile, as_error = None\<rparr>
                                | v \<Rightarrow> unread_stops (Some \<lfloor>q\<rfloor>) profile
                                    (Some (''TypeError: stopped_units is '' @ py_type_name v))))
                     else unread_stops None None
                       (Some (''TypeError: active_lease.id is '' @ py_type_name (JNum q))))
                | v \<Rightarrow> unread_stops None None
                    (Some (''TypeError: active_lease.id is '' @ py_type_name v)))
           | v \<Rightarrow> unread_stops None None
               (Some (''TypeError: active_lease is '' @ py_type_name v))))"

section \<open>Closed forms\<close>

text \<open>The node a path leads to, if every step of it is an object that has the key.\<close>

fun json_at :: "string list \<Rightarrow> json \<Rightarrow> json option" where
  "json_at [] node = Some node"
| "json_at (key # keys) (JObj kvs) =
     (case map_of kvs key of None \<Rightarrow> None | Some v \<Rightarrow> json_at keys v)"
| "json_at (key # keys) node = None"

lemma descend_json_at: "descend keys node = Inr v \<longleftrightarrow> json_at keys node = Some v"
  by (induction keys node rule: json_at.induct) (auto split: option.splits)

lemma chk_health_status_readings: "chk_health_status h \<longleftrightarrow> sh_status h \<in> set (map fst STATUS_READINGS)"
  by (simp add: chk_health_status_def STATUS_READINGS_def)

lemma is_fault_iff: "is_fault st \<longleftrightarrow> st \<noteq> ''ok'' \<and> st \<noteq> ''skipped''"
  by (auto simp: is_fault_def STATUS_READINGS_def dict_get_or_def)

lemma dict_get_or_count:
  "dict_get_or (fold (\<lambda>e d. dict_set (svc_name e) (dict_get_or d (svc_name e) 0 + 1) d) es d) n 0
     = dict_get_or d n 0 + count_list (map svc_name es) n"
  by (induction es arbitrary: d) auto

lemma dict_wf_count:
  "dict_wf d \<Longrightarrow> dict_wf (fold (\<lambda>e d. dict_set (svc_name e) (dict_get_or d (svc_name e) 0 + 1) d) es d)"
  by (induction es arbitrary: d) auto

lemma dict_get_or_mem: "dict_wf d \<Longrightarrow> (n, c) \<in> set d \<Longrightarrow> dict_get_or d n w = c"
  by (simp add: dict_wf_def dict_get_or_def)

lemma count_list_gt_1_iff: "(\<exists>n. 1 < count_list xs n) \<longleftrightarrow> \<not> distinct xs"
proof (induction xs)
  case (Cons x xs)
  have "count_list xs x \<noteq> 0 \<longleftrightarrow> x \<in> set xs" by (simp add: count_list_0_iff)
  moreover have "(\<exists>n. 1 < count_list (x # xs) n) \<longleftrightarrow>
      count_list xs x \<noteq> 0 \<or> (\<exists>n. 1 < count_list xs n)"
    by (auto split: if_splits) (metis One_nat_def Suc_lessD less_SucI)
  ultimately show ?case using Cons by auto
qed simp

lemma file_checked_None_iff:
  "file_checked f = None \<longleftrightarrow> sf_schema f = SCHEMA_VERSION \<and> distinct (map svc_name (sf_services f))"
proof -
  let ?seen = "fold (\<lambda>e d. dict_set (svc_name e) (dict_get_or d (svc_name e) 0 + 1) d)
    (sf_services f) ([] :: (string, nat) dict)"
  have wf: "dict_wf ?seen" by (rule dict_wf_count) simp
  have cnt: "dict_get_or ?seen n 0 = count_list (map svc_name (sf_services f)) n" for n
    by (subst dict_get_or_count) (simp add: dict_get_or_def)
  have "(\<exists>(n, c) \<in> set ?seen. 1 < c) \<longleftrightarrow> (\<exists>n. 1 < count_list (map svc_name (sf_services f)) n)"
  proof
    assume "\<exists>(n, c) \<in> set ?seen. 1 < c"
    then show "\<exists>n. 1 < count_list (map svc_name (sf_services f)) n"
      using dict_get_or_mem [OF wf] cnt by (metis (no_types, lifting) case_prodE)
  next
    assume "\<exists>n. 1 < count_list (map svc_name (sf_services f)) n"
    then obtain n where n: "1 < dict_get_or ?seen n 0" using cnt by metis
    then obtain c where "map_of ?seen n = Some c" "1 < c"
      by (auto simp: dict_get_or_def split: option.splits)
    then show "\<exists>(n, c) \<in> set ?seen. 1 < c" by (auto dest: map_of_SomeD)
  qed
  then show ?thesis
    unfolding count_list_gt_1_iff
    by (auto simp: file_checked_def Let_def filter_empty_conv simp flip: set_empty)
qed

section \<open>Properties\<close>

definition ex_http_entry :: service_entry where
  "ex_http_entry =
     \<lparr>svc_name = ''api'', svc_kind = ''http'', svc_project = None, svc_role = None,
      svc_url = Some ''http://localhost:8500'', svc_host = None, svc_port = None,
      svc_systemd = Some \<lparr>sd_unit = ''api.service'', sd_scope = ''user''\<rparr>, svc_log = None,
      svc_monitor = True, svc_reason = None, svc_agent = None, svc_mute = False,
      svc_controllable = True, svc_auto_restart = True, svc_auto_restart_after_checks = 1,
      svc_holds_vram = False, svc_expect = None\<rparr>"

text \<open>
  Of an entry that passed validation, the plan asks only for checks it can carry out: a URL is
  polled only when one is declared, a connection only when host and port are, a unit is asserted
  only when one is named, a timer inspected only when the unit is a timer; and nothing is checked
  exactly when the entry is not monitored (which needs a reason) or of a quiet kind.
\<close>

theorem check_plan_declared:
  assumes "entry_consistent e = None"
    and "svc_kind e \<in> set [''http'', ''tcp'', ''systemd'', ''timer'', ''oneshot'', ''static'']"
  shows "(poll_url (check_plan_of e) \<longrightarrow> given (svc_url e))
    \<and> (connect (check_plan_of e) \<longrightarrow> given (svc_host e) \<and> given_int (svc_port e))
    \<and> (assert_active (check_plan_of e) \<longrightarrow> systemd_unit e \<noteq> None)
    \<and> (inspect_timer (check_plan_of e) \<longrightarrow> (\<exists>u. systemd_unit e = Some u \<and> suffix ''.timer'' u))
    \<and> \<not> (poll_url (check_plan_of e) \<and> connect (check_plan_of e))
    \<and> (checks_nothing (check_plan_of e) \<longleftrightarrow> \<not> svc_monitor e \<or> svc_kind e \<in> set QUIET_KINDS)
    \<and> (\<not> svc_monitor e \<longrightarrow> given (svc_reason e))"
  using assms
  by (auto simp: check_plan_of_def no_plan_def checks_nothing_def QUIET_KINDS_def entry_consistent_def
      systemd_unit_def split: if_splits option.splits)

theorem check_plan_declared_witness:
  "poll_url (check_plan_of ex_http_entry) \<and> given (svc_url ex_http_entry)
     \<and> assert_active (check_plan_of ex_http_entry) \<and> systemd_unit ex_http_entry \<noteq> None"
proof -
  have "entry_consistent ex_http_entry = None" by (simp add: entry_consistent_def ex_http_entry_def given_def)
  moreover have "svc_kind ex_http_entry = ''http''" by (simp add: ex_http_entry_def)
  moreover have "poll_url (check_plan_of ex_http_entry)" "assert_active (check_plan_of ex_http_entry)"
    by (simp_all add: check_plan_of_def ex_http_entry_def QUIET_KINDS_def no_plan_def)
  ultimately show ?thesis using check_plan_declared [of ex_http_entry] by simp
qed

text \<open>
  A services file is accepted exactly when its schema is the one supported and no two entries
  share a name, and what it groups by project are the names of that project's entries, in the
  order of the file.
\<close>

theorem services_file_spec:
  "(file_checked f = None \<longleftrightarrow> sf_schema f = SCHEMA_VERSION \<and> distinct (map svc_name (sf_services f)))
   \<and> dict_get_or (services_by_project f) p [] = (if p = [] then [] else map svc_name (for_project p f))"
proof -
  have "dict_get_or (fold (\<lambda>e d. case svc_project e of None \<Rightarrow> d
        | Some p \<Rightarrow> if p = [] then d else dict_set p (dict_get_or d p [] @ [svc_name e]) d) es d) p []
      = dict_get_or d p [] @ (if p = [] then [] else map svc_name (filter (\<lambda>e. svc_project e = Some p) es))"
    for es d
    by (induction es arbitrary: d) (auto split: option.splits)
  from this [of "sf_services f" "[]"] show ?thesis
    by (simp add: file_checked_None_iff services_by_project_def for_project_def dict_get_or_def)
qed

text \<open>
  The condition on a body is unevaluable exactly when its path leads nowhere, and otherwise it
  is met exactly when the value found there is the expected one; the evidence carries the value
  found, or else why there is none.
\<close>

theorem evaluate_expectation_spec:
  "case evaluate_expectation expect body of (verdict, ev) \<Rightarrow>
     ev_actual ev = json_at (split_on CHR ''.'' (hx_path expect)) body
     \<and> ev_path ev = hx_path expect \<and> ev_equals ev = hx_equals expect
     \<and> (verdict = Unevaluable \<longleftrightarrow> ev_actual ev = None)
     \<and> (ev_error ev = None \<longleftrightarrow> ev_actual ev \<noteq> None)
     \<and> (verdict = Met \<longleftrightarrow> (\<exists>v. ev_actual ev = Some v \<and> same_value v (hx_equals expect)))"
proof (cases "descend (split_on CHR ''.'' (hx_path expect)) body")
  case (Inl e)
  then have "json_at (split_on CHR ''.'' (hx_path expect)) body = None"
    using descend_json_at by (metis Inl_Inr_False option.exhaust)
  with Inl show ?thesis by (simp add: evaluate_expectation_def)
next
  case (Inr v)
  then have "json_at (split_on CHR ''.'' (hx_path expect)) body = Some v"
    by (simp add: descend_json_at)
  with Inr show ?thesis by (simp add: evaluate_expectation_def)
qed

text \<open>
  Whatever the estate answers, a unit counts as stopped on purpose only when both answers were
  read and the lease in force names it: every failure to read, and every answer of another shape,
  leaves the list of stopped units empty.
\<close>

theorem arbitration_fails_open:
  "stopped (read_arbitrated_stops invariants lease_of) unit \<longleftrightarrow>
     (\<exists>payload lease q lp us u. invariants = Inr payload
        \<and> dict_get payload ''active_lease'' = Some (JObj lease)
        \<and> dict_get lease ''id'' = Some (JNum q) \<and> of_int \<lfloor>q\<rfloor> = q
        \<and> lease_of \<lfloor>q\<rfloor> = Inr lp \<and> dict_get lp ''stopped_units'' = Some (JArr us)
        \<and> unit = Some u \<and> JStr u \<in> set us)"
proof -
  have mf: "u \<in> set (List.map_filter (\<lambda>u. str_or_none (Some u)) us) \<longleftrightarrow> JStr u \<in> set us" for u us
    by (induction us) (auto simp: List.map_filter_def str_or_none_def split: json.splits)
  have get: "dict_get_or d k JNull = v \<longleftrightarrow> dict_get d k = Some v" if "v \<noteq> JNull" for d :: jobj and k v
    using that by (auto simp: dict_get_or_def dict_get_def split: option.splits)
  show ?thesis
    by (cases unit)
      (auto simp: read_arbitrated_stops_def stopped_def unread_stops_def mf Let_def get [symmetric]
        split: sum.splits json.splits if_splits)
qed

end
