(* ===== verification/Agent_Runs.thy ===== *)
theory Agent_Runs
  imports Alerts
begin

text \<open>
  The template method \<open>BaseAgent.run\<close> (\<open>sysadmin/core/agent.py\<close>), the table
  \<open>sysadmin.agent_runs\<close> it keeps (\<open>sysadmin/core/models/agent_run.py\<close>) and the startup sweep
  that closes the rows a dead process left behind (\<open>sysadmin/core/abandoned_runs.py\<close>).

  A run is three transactions: the row is committed as \<open>running\<close>, the agent's work commits or
  rolls back as a unit, and the outcome is written last. \<open>run_locked\<close> is that sequence with
  every failure the code distinguishes. The lock that declines a second run of an agent is the
  step relation \<open>run_step\<close>, in which any number of runs interleave.
\<close>

section \<open>The table of runs\<close>

record agent_run =
  ar_id :: nat
  ar_agent :: string
  ar_run_type :: string
  ar_status :: string
  ar_duration_seconds :: "rat option"
  ar_findings_count :: int
  ar_alerts_raised :: int
  ar_details :: jobj
  ar_started_at :: instant
  ar_completed_at :: "instant option"

definition chk_run_status :: "agent_run \<Rightarrow> bool" where
  "chk_run_status r = (ar_status r \<in> set [''running'', ''completed'', ''failed'', ''cancelled''])"

definition INSTANCE_DETAIL_KEY :: string where
  "INSTANCE_DETAIL_KEY = ''instance''"

definition CANCELLED_BY :: string where
  "CANCELLED_BY = ''startup_sweep''"

definition CANCELLED_STATUS :: string where
  "CANCELLED_STATUS = ''cancelled''"

definition RUNNING_STATUS :: string where
  "RUNNING_STATUS = ''running''"

record agent_result =
  findings_count :: int
  alerts_raised :: int
  res_details :: jobj

section \<open>The process\<close>

text \<open>
  What a process and its database hold between transactions: the committed tables, the
  buffer \<open>_pending_events\<close> of the agent, what it has published and logged, and the state
  \<open>'m\<close> the agent keeps in memory between runs.
\<close>

record 'm process =
  p_alerts :: "alert list"
  p_health :: "health_row list"
  p_entries :: "log_entry list"
  p_runs :: "agent_run list"
  p_fresh :: nat
  p_pending :: "event list option"
  p_published :: "event list"
  p_logs :: "logline list"
  p_memory :: 'm

text \<open>
  What the surroundings decide about one run: the clocks, the identity of the process, the text
  of an exception, and whether each of the three transactions fails.
\<close>

record run_env =
  env_instance :: string
  env_started_at :: instant
  env_tx_time :: instant
  env_duration :: rat
  env_completed_at :: instant
  env_err_text :: "py_error \<Rightarrow> string"
  env_start_error :: "py_error option"
  env_commit_error :: "py_error option"
  env_outcome_error :: "py_error option"

definition record_start :: "run_env \<Rightarrow> string \<Rightarrow> string \<Rightarrow> 'm process \<Rightarrow> nat \<times> 'm process" where
  "record_start env name run_type p =
     (let run_id = p_fresh p
      in (run_id,
          p\<lparr>p_fresh := Suc (p_fresh p),
            p_runs := p_runs p @
              [\<lparr>ar_id = run_id, ar_agent = name, ar_run_type = run_type,
                ar_status = RUNNING_STATUS, ar_duration_seconds = None,
                ar_findings_count = 0, ar_alerts_raised = 0,
                ar_details = [(INSTANCE_DETAIL_KEY, JStr (env_instance env))],
                ar_started_at = env_started_at env, ar_completed_at = None\<rparr>]\<rparr>))"

definition close_run ::
  "string \<Rightarrow> instant \<Rightarrow> rat \<Rightarrow> int \<Rightarrow> int \<Rightarrow> jobj \<Rightarrow> agent_run \<Rightarrow> agent_run" where
  "close_run status now duration findings alerts details r =
     r\<lparr>ar_status := status, ar_completed_at := Some now,
       ar_duration_seconds := Some (py_round_to 2 duration),
       ar_findings_count := findings, ar_alerts_raised := alerts, ar_details := details\<rparr>"

definition record_outcome ::
  "run_env \<Rightarrow> nat \<Rightarrow> string \<Rightarrow> rat \<Rightarrow> int \<Rightarrow> int \<Rightarrow> jobj \<Rightarrow> 'm process \<Rightarrow> 'm process" where
  "record_outcome env run_id status duration findings alerts details p =
     p\<lparr>p_runs := map
         (\<lambda>r. if ar_id r = run_id
              then close_run status (env_completed_at env) duration findings alerts
                     (dict_set INSTANCE_DETAIL_KEY (JStr (env_instance env)) details) r
              else r) (p_runs p)\<rparr>"

text \<open>The agent's event buffer outside a session: \<open>_queue_event\<close> and \<open>_flush_events\<close>.\<close>

definition p_queue_event :: "string \<Rightarrow> jobj \<Rightarrow> 'm process \<Rightarrow> 'm process" where
  "p_queue_event event_type data p =
     (case p_pending p of
        None \<Rightarrow> p\<lparr>p_published := p_published p @ [(event_type, data)]\<rparr>
      | Some evs \<Rightarrow> p\<lparr>p_pending := Some (evs @ [(event_type, data)])\<rparr>)"

definition p_flush_events :: "'m process \<Rightarrow> 'm process" where
  "p_flush_events p =
     (let pending = (case p_pending p of None \<Rightarrow> [] | Some evs \<Rightarrow> evs)
      in p\<lparr>p_pending := None, p_published := p_published p @ pending\<rparr>)"

definition open_session :: "run_env \<Rightarrow> 'm process \<Rightarrow> session" where
  "open_session env p =
     \<lparr>rows = p_alerts p, health = p_health p, log_entries = p_entries p, fresh_id = p_fresh p, tx_time = env_tx_time env,
      pending_events = p_pending p, published = p_published p, logs = p_logs p\<rparr>"

text \<open>
  An agent's work: what \<open>_execute\<close> returns or raises, the session it leaves and the memory it
  leaves. Memory and log lines survive a failure; the session's writes do not.
\<close>

type_synonym 'm work = "'m \<Rightarrow> session \<Rightarrow> (py_error + agent_result) \<times> 'm \<times> session"

definition run_event :: "run_env \<Rightarrow> string \<Rightarrow> string \<Rightarrow> string \<Rightarrow> jobj" where
  "run_event env name run_type outcome =
     [(''agent'', JStr name), (''run_type'', JStr run_type), (''status'', JStr outcome),
      (''duration_seconds'', JNum (py_round_to 2 (env_duration env))),
      (''completed_at'', JStr (isoformat (env_completed_at env)))]"

text \<open>The \<open>try\<close> block: the work's transaction, and what is kept of it when it fails.\<close>

definition work_transaction ::
  "run_env \<Rightarrow> 'm work \<Rightarrow> ('m \<Rightarrow> 'm) \<Rightarrow> 'm process \<Rightarrow> (py_error + agent_result) \<times> 'm process" where
  "work_transaction env execute work_committed p =
     (case execute (p_memory p) (open_session env p) of
        (res, mem, s) \<Rightarrow>
          (let failed = (\<lambda>e. (Inl e,
                 p\<lparr>p_pending := Some [], p_memory := mem,
                   p_logs := logs s @ [(''error'', ''agent_run_failed'')]\<rparr>))
           in case res of
                Inl e \<Rightarrow> failed e
              | Inr result \<Rightarrow>
                  (case env_commit_error env of
                     Some e \<Rightarrow> failed e
                   | None \<Rightarrow>
                       (Inr result,
                        p\<lparr>p_alerts := rows s, p_health := health s, p_entries := log_entries s, p_fresh := fresh_id s,
                          p_pending := pending_events s, p_published := published s,
                          p_memory := work_committed mem,
                          p_logs := logs s @ [(''info'', ''agent_run_completed'')]\<rparr>))))"

definition run_locked ::
  "run_env \<Rightarrow> string \<Rightarrow> string \<Rightarrow> 'm work \<Rightarrow> ('m \<Rightarrow> 'm) \<Rightarrow> 'm process
     \<Rightarrow> (py_error + agent_result option) \<times> 'm process" where
  "run_locked env name run_type execute work_committed p0 =
     (let p1 = p0\<lparr>p_pending := Some []\<rparr>
      in case env_start_error env of
           Some e \<Rightarrow> (Inl e, p1)
         | None \<Rightarrow>
             (case record_start env name run_type p1 of
                (run_id, p2) \<Rightarrow>
                  (case work_transaction env execute work_committed p2 of
                     (res, p3) \<Rightarrow>
                       (let outcome = (case res of Inl _ \<Rightarrow> ''failed'' | Inr _ \<Rightarrow> ''completed'');
                            findings = (case res of Inl _ \<Rightarrow> 0 | Inr r \<Rightarrow> findings_count r);
                            alerts = (case res of Inl _ \<Rightarrow> 0 | Inr r \<Rightarrow> alerts_raised r);
                            details = (case res of
                                         Inl e \<Rightarrow> [(''error'', JStr (env_err_text env e))]
                                       | Inr r \<Rightarrow> res_details r)
                        in case env_outcome_error env of
                             Some e \<Rightarrow> (Inl e, p3)
                           | None \<Rightarrow>
                               (Inr (case res of Inl _ \<Rightarrow> None | Inr r \<Rightarrow> Some r),
                                p_flush_events
                                  (p_queue_event ''agent.run'' (run_event env name run_type outcome)
                                    (record_outcome env run_id outcome (env_duration env)
                                       findings alerts details p3)))))))"

section \<open>What a run leaves behind\<close>

definition runs_ok :: "'m process \<Rightarrow> bool" where
  "runs_ok p =
     (list_all chk_run_status (p_runs p) \<and> distinct (map ar_id (p_runs p))
      \<and> (\<forall>r \<in> set (p_runs p). ar_id r < p_fresh p))"

definition process_ok :: "'m process \<Rightarrow> bool" where
  "process_ok p =
     (runs_ok p \<and> schema_ok (p_alerts p) \<and> (\<forall>a \<in> set (p_alerts p). al_id a < p_fresh p))"

lemma record_start_simps:
  assumes "record_start env name run_type p = (i, p')"
  shows "i = p_fresh p" "p_alerts p' = p_alerts p" "p_pending p' = p_pending p"
    "p_published p' = p_published p" "p_memory p' = p_memory p" "p_logs p' = p_logs p"
    "p_fresh p' = Suc (p_fresh p)"
  using assms by (auto simp: record_start_def Let_def)

lemma record_outcome_frame [simp]:
  "p_alerts (record_outcome env i st d f al det p) = p_alerts p"
  "p_pending (record_outcome env i st d f al det p) = p_pending p"
  "p_published (record_outcome env i st d f al det p) = p_published p"
  "p_memory (record_outcome env i st d f al det p) = p_memory p"
  "p_logs (record_outcome env i st d f al det p) = p_logs p"
  "p_fresh (record_outcome env i st d f al det p) = p_fresh p"
  by (simp_all add: record_outcome_def)

lemma p_queue_event_frame [simp]:
  "p_alerts (p_queue_event t d p) = p_alerts p"
  "p_runs (p_queue_event t d p) = p_runs p"
  "p_memory (p_queue_event t d p) = p_memory p"
  "p_logs (p_queue_event t d p) = p_logs p"
  "p_fresh (p_queue_event t d p) = p_fresh p"
  by (simp_all add: p_queue_event_def split: option.splits)

lemma p_flush_events_frame [simp]:
  "p_alerts (p_flush_events p) = p_alerts p"
  "p_runs (p_flush_events p) = p_runs p"
  "p_memory (p_flush_events p) = p_memory p"
  "p_logs (p_flush_events p) = p_logs p"
  "p_fresh (p_flush_events p) = p_fresh p"
  "p_pending (p_flush_events p) = None"
  by (simp_all add: p_flush_events_def Let_def)

lemma queue_flush_published:
  "p_published (p_flush_events (p_queue_event t d p)) =
     p_published p @ (case p_pending p of None \<Rightarrow> [] | Some evs \<Rightarrow> evs) @ [(t, d)]"
  by (simp add: p_flush_events_def p_queue_event_def Let_def split: option.splits)

lemma work_transaction_failed:
  assumes "work_transaction env ex wc p = (Inl e, p')"
  shows "p_alerts p' = p_alerts p" "p_runs p' = p_runs p" "p_pending p' = Some []"
    "p_published p' = p_published p" "p_fresh p' = p_fresh p"
  using assms
  by (auto simp: work_transaction_def Let_def split: prod.splits sum.splits option.splits)

lemma work_transaction_committed:
  assumes "work_transaction env ex wc p = (Inr r, p')"
  obtains mem s where "ex (p_memory p) (open_session env p) = (Inr r, mem, s)"
    and "p_alerts p' = rows s" "p_fresh p' = fresh_id s" "p_pending p' = pending_events s"
    and "p_published p' = published s" "p_runs p' = p_runs p" "p_memory p' = wc mem"
  using assms
  by (auto simp: work_transaction_def Let_def split: prod.splits sum.splits option.splits)

lemma run_locked_start_error:
  "env_start_error env = Some e \<Longrightarrow> run_locked env n t ex wc p = (Inl e, p\<lparr>p_pending := Some []\<rparr>)"
  by (simp add: run_locked_def)

lemma run_locked_ok_start:
  assumes "env_start_error env = None"
    and "record_start env n t (p\<lparr>p_pending := Some []\<rparr>) = (i, p2)"
    and "work_transaction env ex wc p2 = (res, p3)"
  shows "run_locked env n t ex wc p =
    (case env_outcome_error env of
       Some e \<Rightarrow> (Inl e, p3)
     | None \<Rightarrow>
         (Inr (case res of Inl _ \<Rightarrow> None | Inr r \<Rightarrow> Some r),
          p_flush_events
            (p_queue_event ''agent.run''
              (run_event env n t (case res of Inl _ \<Rightarrow> ''failed'' | Inr _ \<Rightarrow> ''completed''))
              (record_outcome env i (case res of Inl _ \<Rightarrow> ''failed'' | Inr _ \<Rightarrow> ''completed'')
                 (env_duration env)
                 (case res of Inl _ \<Rightarrow> 0 | Inr r \<Rightarrow> findings_count r)
                 (case res of Inl _ \<Rightarrow> 0 | Inr r \<Rightarrow> alerts_raised r)
                 (case res of Inl e \<Rightarrow> [(''error'', JStr (env_err_text env e))]
                  | Inr r \<Rightarrow> res_details r) p3))))"
  using assms by (simp add: run_locked_def Let_def)

text \<open>The row of the run in progress is the last one and is the one the outcome updates.\<close>

lemma record_start_outcome_runs:
  assumes "runs_ok p" and "record_start env n t p = (i, p2)" and "p_runs p3 = p_runs p2"
  shows "p_runs (record_outcome env i st d f al det p3) =
    p_runs p @
      [close_run st (env_completed_at env) d f al
         (dict_set INSTANCE_DETAIL_KEY (JStr (env_instance env)) det)
         (last (p_runs p2))]"
    and "ar_agent (last (p_runs p2)) = n" and "ar_run_type (last (p_runs p2)) = t"
    and "ar_id (last (p_runs p2)) = p_fresh p"
    and "ar_started_at (last (p_runs p2)) = env_started_at env"
proof -
  have "map (\<lambda>r. if ar_id r = p_fresh p then g r else r) (p_runs p) = p_runs p" for g
    using assms(1) by (auto simp: runs_ok_def intro!: map_idI)
  then show "p_runs (record_outcome env i st d f al det p3) =
    p_runs p @
      [close_run st (env_completed_at env) d f al
         (dict_set INSTANCE_DETAIL_KEY (JStr (env_instance env)) det)
         (last (p_runs p2))]"
    using assms by (auto simp: record_start_def record_outcome_def Let_def)
qed (use assms in \<open>auto simp: record_start_def Let_def\<close>)

lemma run_locked_finished:
  assumes ok: "runs_ok p" and se: "env_start_error env = None" and oe: "env_outcome_error env = None"
    and run: "run_locked env n t ex wc p = (Inr out, p')"
  obtains r mem s where "p_runs p' = p_runs p @ [r]" and "ar_agent r = n" and "ar_run_type r = t"
    and "ar_status r = (if out = None then ''failed'' else ''completed'')"
    and "dict_get (ar_details r) INSTANCE_DETAIL_KEY = Some (JStr (env_instance env))"
    and "ar_completed_at r = Some (env_completed_at env)"
    and "out = None \<Longrightarrow> p_alerts p' = p_alerts p \<and> p_published p' = p_published p
           @ [(''agent.run'', run_event env n t ''failed'')]"
    and "\<And>res. out = Some res \<Longrightarrow>
           ex (p_memory p) (open_session env (snd (record_start env n t (p\<lparr>p_pending := Some []\<rparr>))))
             = (Inr res, mem, s)
           \<and> p_alerts p' = rows s \<and> p_memory p' = wc mem
           \<and> p_published p' = published s
               @ (case pending_events s of None \<Rightarrow> [] | Some evs \<Rightarrow> evs)
               @ [(''agent.run'', run_event env n t ''completed'')]"
proof -
  let ?p1 = "p\<lparr>p_pending := Some []\<rparr>"
  have ok1: "runs_ok ?p1" using ok by (simp add: runs_ok_def)
  obtain i p2 where st: "record_start env n t ?p1 = (i, p2)" by force
  note sst = record_start_simps [OF st]
  obtain res p3 where w: "work_transaction env ex wc p2 = (res, p3)" by force
  have runs3: "p_runs p3 = p_runs p2"
    using w by (cases res) (auto dest: work_transaction_failed(2) elim: work_transaction_committed)
  note rr = record_start_outcome_runs [OF ok1 st runs3]
  note R = run [unfolded run_locked_ok_start [OF se st w] oe option.case]
  show ?thesis
  proof (cases res)
    case (Inl e)
    note f = work_transaction_failed [OF w [unfolded Inl]]
    show ?thesis
      using R rr by (intro that [of "last (p_runs p')"])
        (auto simp: Inl queue_flush_published f sst close_run_def)
  next
    case (Inr r)
    obtain mem s where m: "ex (p_memory p2) (open_session env p2) = (Inr r, mem, s)"
      "p_alerts p3 = rows s" "p_fresh p3 = fresh_id s" "p_pending p3 = pending_events s"
      "p_published p3 = published s" "p_runs p3 = p_runs p2" "p_memory p3 = wc mem"
      using work_transaction_committed [OF w [unfolded Inr]] by blast
    show ?thesis
      using R rr m by (intro that [of "last (p_runs p')" mem s])
        (auto simp: Inr queue_flush_published sst close_run_def st)
  qed
qed

text \<open>A run starts with an empty buffer: whatever the last one left there is dropped.\<close>

lemma run_locked_forgets_pending:
  "run_locked env n t ex wc (p\<lparr>p_pending := x\<rparr>) = run_locked env n t ex wc p"
  by (simp add: run_locked_def)

section \<open>The lock: interleaved runs\<close>

text \<open>
  \<open>run\<close> takes the lock of its agent's name without blocking and releases it in a \<open>finally\<close>.
  A task is a call of \<open>run\<close>; its phase says where it stands between two suspension points. A
  cancellation may arrive at any of them.
\<close>

datatype phase =
    Requested
  | Starting
  | Working nat
  | Recording nat string
  | Finished
  | Declined
  | Escaped

record task =
  tk_agent :: string
  tk_run_type :: string
  tk_phase :: phase

record lock_state =
  ls_tasks :: "task list"
  ls_locked :: "string list"
  ls_rows :: "(nat \<times> string) list"
  ls_fresh :: nat

fun holding :: "phase \<Rightarrow> bool" where
  "holding Starting = True"
| "holding (Working _) = True"
| "holding (Recording _ _) = True"
| "holding _ = False"

definition init_locks :: lock_state where
  "init_locks = \<lparr>ls_tasks = [], ls_locked = [], ls_rows = [], ls_fresh = 0\<rparr>"

definition set_phase :: "nat \<Rightarrow> phase \<Rightarrow> lock_state \<Rightarrow> lock_state" where
  "set_phase i ph st =
     st\<lparr>ls_tasks := (ls_tasks st)[i := (ls_tasks st ! i)\<lparr>tk_phase := ph\<rparr>]\<rparr>"

definition acquire_lock :: "string \<Rightarrow> lock_state \<Rightarrow> lock_state" where
  "acquire_lock n st = st\<lparr>ls_locked := n # ls_locked st\<rparr>"

definition release_lock :: "string \<Rightarrow> lock_state \<Rightarrow> lock_state" where
  "release_lock n st = st\<lparr>ls_locked := removeAll n (ls_locked st)\<rparr>"

definition at_phase :: "lock_state \<Rightarrow> nat \<Rightarrow> string \<Rightarrow> phase \<Rightarrow> bool" where
  "at_phase st i n ph =
     (i < length (ls_tasks st) \<and> tk_agent (ls_tasks st ! i) = n \<and> tk_phase (ls_tasks st ! i) = ph)"

inductive run_step :: "lock_state \<Rightarrow> lock_state \<Rightarrow> bool" where
  called:
    "run_step st (st\<lparr>ls_tasks := ls_tasks st @ [\<lparr>tk_agent = n, tk_run_type = t, tk_phase = Requested\<rparr>]\<rparr>)"
| acquired:
    "at_phase st i n Requested \<Longrightarrow> n \<notin> set (ls_locked st)
     \<Longrightarrow> run_step st (acquire_lock n (set_phase i Starting st))"
| declined:
    "at_phase st i n Requested \<Longrightarrow> n \<in> set (ls_locked st)
     \<Longrightarrow> run_step st (set_phase i Declined st)"
| started:
    "at_phase st i n Starting
     \<Longrightarrow> run_step st (set_phase i (Working (ls_fresh st))
           (st\<lparr>ls_rows := ls_rows st @ [(ls_fresh st, RUNNING_STATUS)], ls_fresh := Suc (ls_fresh st)\<rparr>))"
| worked:
    "at_phase st i n (Working r) \<Longrightarrow> out \<in> {''completed'', ''failed''}
     \<Longrightarrow> run_step st (set_phase i (Recording r out) st)"
| recorded:
    "at_phase st i n (Recording r out)
     \<Longrightarrow> run_step st (release_lock n (set_phase i Finished
           (st\<lparr>ls_rows := AList.update r out (ls_rows st)\<rparr>)))"
| escaped:
    "at_phase st i n ph \<Longrightarrow> holding ph
     \<Longrightarrow> run_step st (release_lock n (set_phase i Escaped st))"

inductive reachable_locks :: "lock_state \<Rightarrow> bool" where
  locks_init: "reachable_locks init_locks"
| locks_step: "reachable_locks st \<Longrightarrow> run_step st st' \<Longrightarrow> reachable_locks st'"

text \<open>
  The invariant: a name is locked exactly when a task of that agent is between acquiring and
  releasing, and there is only one such task.
\<close>

definition holder :: "lock_state \<Rightarrow> string \<Rightarrow> nat \<Rightarrow> bool" where
  "holder st n i =
     (i < length (ls_tasks st) \<and> tk_agent (ls_tasks st ! i) = n \<and> holding (tk_phase (ls_tasks st ! i)))"

definition lock_inv :: "lock_state \<Rightarrow> bool" where
  "lock_inv st =
     ((\<forall>n. n \<in> set (ls_locked st) \<longleftrightarrow> (\<exists>i. holder st n i))
      \<and> (\<forall>n i j. holder st n i \<longrightarrow> holder st n j \<longrightarrow> i = j))"

lemma holder_set_phase:
  "at_phase st i n ph \<Longrightarrow>
     holder (set_phase i ph' st) m j \<longleftrightarrow> (if j = i then m = n \<and> holding ph' else holder st m j)"
  by (auto simp: holder_def set_phase_def at_phase_def nth_list_update)

lemma holder_frame [simp]:
  "holder (acquire_lock n st) = holder st"
  "holder (release_lock n st) = holder st"
  "holder (st\<lparr>ls_rows := x\<rparr>) = holder st"
  "holder (st\<lparr>ls_fresh := y\<rparr>) = holder st"
  by (simp_all add: fun_eq_iff holder_def acquire_lock_def release_lock_def)

lemma locked_frame [simp]:
  "ls_locked (set_phase i ph st) = ls_locked st"
  "ls_locked (acquire_lock n st) = n # ls_locked st"
  "ls_locked (release_lock n st) = removeAll n (ls_locked st)"
  by (simp_all add: set_phase_def acquire_lock_def release_lock_def)

lemma at_phase_frame [simp]:
  "at_phase (st\<lparr>ls_rows := x\<rparr>) = at_phase st"
  "at_phase (st\<lparr>ls_fresh := y\<rparr>) = at_phase st"
  by (simp_all add: fun_eq_iff at_phase_def)

lemma at_phase_holder: "at_phase st i n ph \<Longrightarrow> holder st m i \<longleftrightarrow> m = n \<and> holding ph"
  by (auto simp: at_phase_def holder_def)

lemma lock_inv_release:
  assumes "lock_inv st" and "at_phase st i n ph" and "holding ph" and "\<not> holding ph'"
  shows "lock_inv (release_lock n (set_phase i ph' st))"
  using assms by (auto simp: lock_inv_def holder_set_phase at_phase_holder)
    (metis at_phase_holder)

lemma lock_inv_same:
  assumes "lock_inv st" and "at_phase st i n ph" and "holding ph' = holding ph"
  shows "lock_inv (set_phase i ph' st)"
proof -
  have "holder (set_phase i ph' st) = holder st"
    using assms(2,3) by (auto simp: fun_eq_iff holder_set_phase at_phase_holder)
  with assms(1) show ?thesis by (simp add: lock_inv_def)
qed

lemma lock_inv_rows [simp]:
  "lock_inv (st\<lparr>ls_rows := x\<rparr>) = lock_inv st" "lock_inv (st\<lparr>ls_fresh := y\<rparr>) = lock_inv st"
  by (simp_all add: lock_inv_def)

lemma run_step_lock_inv: "run_step st st' \<Longrightarrow> lock_inv st \<Longrightarrow> lock_inv st'"
proof (induction rule: run_step.induct)
  case (called st n t)
  have "holder (st\<lparr>ls_tasks := ls_tasks st @ [\<lparr>tk_agent = n, tk_run_type = t, tk_phase = Requested\<rparr>]\<rparr>)
      = holder st"
    by (auto simp: fun_eq_iff holder_def nth_append less_Suc_eq)
  with called show ?case by (simp add: lock_inv_def)
next
  case (acquired st i n)
  then show ?case
    by (auto simp: lock_inv_def holder_set_phase at_phase_holder)
      (metis at_phase_holder holding.simps(4))
next
  case (declined st i n)
  then show ?case by (intro lock_inv_same) auto
next
  case (started st i n)
  then show ?case by (intro lock_inv_same [where n = n and ph = Starting]) auto
next
  case (worked st i n r out)
  then show ?case by (intro lock_inv_same [where n = n and ph = "Working r"]) auto
next
  case (recorded st i n r out)
  then show ?case by (intro lock_inv_release [where ph = "Recording r out"]) auto
next
  case (escaped st i n ph)
  then show ?case by (intro lock_inv_release [where ph = ph]) auto
qed

lemma reachable_lock_inv: "reachable_locks st \<Longrightarrow> lock_inv st"
proof (induction rule: reachable_locks.induct)
  case locks_init
  show ?case by (simp add: lock_inv_def init_locks_def holder_def)
next
  case (locks_step st st')
  then show ?case by (blast intro: run_step_lock_inv)
qed

section \<open>The startup sweep\<close>

text \<open>
  The instance a row was stamped with: \<open>details['instance'].astext\<close>, which is absent for a
  missing key and for a JSON null. \<open>_record_start\<close> stamps a text.
\<close>

definition instance_of :: "agent_run \<Rightarrow> json option" where
  "instance_of r =
     (case dict_get (ar_details r) INSTANCE_DETAIL_KEY of
        None \<Rightarrow> None | Some JNull \<Rightarrow> None | Some v \<Rightarrow> Some v)"

definition abandoned_by :: "string \<Rightarrow> agent_run \<Rightarrow> bool" where
  "abandoned_by instance_id r =
     (ar_status r = RUNNING_STATUS \<and> instance_of r \<noteq> None
      \<and> instance_of r \<noteq> Some (JStr instance_id))"

definition unattributable :: "agent_run \<Rightarrow> bool" where
  "unattributable r = (ar_status r = RUNNING_STATUS \<and> instance_of r = None)"

record sweep_result =
  sw_closed :: nat
  sw_refused :: nat
  sw_agents :: "string list"

definition found_nothing :: "sweep_result \<Rightarrow> bool" where
  "found_nothing r = (sw_closed r = 0 \<and> sw_refused r = 0)"

definition cancel_run :: "instant \<Rightarrow> agent_run \<Rightarrow> agent_run" where
  "cancel_run now r =
     r\<lparr>ar_status := CANCELLED_STATUS, ar_completed_at := Some now,
       ar_details := dict_set ''cancelled_by'' (JStr CANCELLED_BY) (ar_details r)\<rparr>"

definition close_abandoned_runs ::
  "instant \<Rightarrow> string \<Rightarrow> agent_run list \<Rightarrow> sweep_result \<times> agent_run list \<times> logline list" where
  "close_abandoned_runs now instance_id t =
     (let refused = length (filter unattributable t);
          closed = filter (abandoned_by instance_id) t;
          t' = map (\<lambda>r. if abandoned_by instance_id r then cancel_run now r else r) t;
          result = \<lparr>sw_closed = length closed, sw_refused = refused,
                     sw_agents = sort (remdups (map ar_agent closed))\<rparr>
      in (result, t',
          (if sw_closed result \<noteq> 0 then [(''info'', ''abandoned_runs_closed'')] else [])
          @ (if sw_refused result \<noteq> 0 then [(''info'', ''abandoned_runs_unattributable'')] else [])))"

lemma instance_of_cancel [simp]: "instance_of (cancel_run now r) = instance_of r"
  by (simp add: instance_of_def cancel_run_def INSTANCE_DETAIL_KEY_def)

lemma cancel_run_status [simp]: "ar_status (cancel_run now r) = CANCELLED_STATUS"
  by (simp add: cancel_run_def)

lemma not_abandoned_cancel [simp]:
  "\<not> abandoned_by i (cancel_run now r)" "\<not> unattributable (cancel_run now r)"
  by (simp_all add: abandoned_by_def unattributable_def CANCELLED_STATUS_def RUNNING_STATUS_def)

lemma sweep_rows:
  "fst (snd (close_abandoned_runs now i t)) =
     map (\<lambda>r. if abandoned_by i r then cancel_run now r else r) t"
  by (simp add: close_abandoned_runs_def Let_def)

lemma abandoned_not_unattributable: "abandoned_by i r \<Longrightarrow> \<not> unattributable r"
  by (simp add: abandoned_by_def unattributable_def)

lemma filter_abandoned_swept:
  "filter (abandoned_by i) (map (\<lambda>r. if abandoned_by i r then cancel_run now r else r) t) = []"
  by (auto simp: filter_empty_conv)

lemma swept_twice:
  "map (\<lambda>r. if abandoned_by i r then cancel_run now' r else r)
     (map (\<lambda>r. if abandoned_by i r then cancel_run now r else r) t)
   = map (\<lambda>r. if abandoned_by i r then cancel_run now r else r) t"
  by (induction t) auto

lemma filter_unattributable_swept:
  "filter unattributable (map (\<lambda>r. if abandoned_by i r then cancel_run now r else r) t)
     = filter unattributable t"
  by (induction t) (auto simp: abandoned_not_unattributable)

section \<open>Manual runs\<close>

text \<open>
  \<open>spawn_manual_run\<close> keeps a reference to its task until the task is done, and the callback
  \<open>_report_manual_run\<close> says what became of it before letting go.
\<close>

datatype task_end = TaskCancelled | TaskRaised py_error | TaskReturned

record manual_state =
  manual_runs :: "nat list"
  manual_logs :: "logline list"

definition spawn_manual_run :: "nat \<Rightarrow> manual_state \<Rightarrow> manual_state" where
  "spawn_manual_run k st = st\<lparr>manual_runs := List.insert k (manual_runs st)\<rparr>"

definition report_manual_run :: "nat \<Rightarrow> task_end \<Rightarrow> manual_state \<Rightarrow> manual_state" where
  "report_manual_run k ended st =
     (let st' = (case ended of
                   TaskCancelled \<Rightarrow>
                     st\<lparr>manual_logs := manual_logs st @ [(''warning'', ''manual_run_cancelled'')]\<rparr>
                 | TaskReturned \<Rightarrow> st
                 | TaskRaised e \<Rightarrow>
                     st\<lparr>manual_logs := manual_logs st @ [(''error'', ''manual_run_failed'')]\<rparr>)
      in st'\<lparr>manual_runs := removeAll k (manual_runs st')\<rparr>)"

text \<open>What the supervisor sees of a \<open>run\<close>: an ordinary failure of the work returns normally.\<close>

definition end_of_run :: "(py_error + agent_result option) \<times> 'm process \<Rightarrow> task_end" where
  "end_of_run r = (case fst r of Inl e \<Rightarrow> TaskRaised e | Inr _ \<Rightarrow> TaskReturned)"

section \<open>Examples\<close>

definition ex_env :: run_env where
  "ex_env =
     \<lparr>env_instance = ''i1'', env_started_at = 10, env_tx_time = 11, env_duration = 2,
      env_completed_at = 12, env_err_text = (\<lambda>_. ''boom''), env_start_error = None,
      env_commit_error = None, env_outcome_error = None\<rparr>"

definition ex_process :: "unit process" where
  "ex_process =
     \<lparr>p_alerts = [], p_health = [], p_entries = [], p_runs = [], p_fresh = 0, p_pending = None, p_published = [],
      p_logs = [], p_memory = ()\<rparr>"

definition ex_result :: agent_result where
  "ex_result = \<lparr>findings_count = 1, alerts_raised = 1, res_details = []\<rparr>"

text \<open>A work that raises one alert and returns, and one that fails after raising it.\<close>

definition ex_work :: "unit work" where
  "ex_work mem s =
     (case raise_alert ''sysadmin'' ''warning'' ''High RAM usage'' None None s of
        Inl e \<Rightarrow> (Inl e, mem, s) | Inr (a, s') \<Rightarrow> (Inr ex_result, mem, s'))"

definition ex_failing :: "unit work" where
  "ex_failing mem s =
     (case raise_alert ''sysadmin'' ''warning'' ''High RAM usage'' None None s of
        Inl e \<Rightarrow> (Inl e, mem, s) | Inr (a, s') \<Rightarrow> (Inl OperationalError, mem, s'))"

definition ex_foreign_run :: agent_run where
  "ex_foreign_run =
     \<lparr>ar_id = 0, ar_agent = ''sysadmin'', ar_run_type = ''scheduled'', ar_status = ''running'',
      ar_duration_seconds = None, ar_findings_count = 0, ar_alerts_raised = 0,
      ar_details = [(''instance'', JStr ''old'')], ar_started_at = 1, ar_completed_at = None\<rparr>"

section \<open>Properties\<close>

lemma run_failed_effect:
  assumes "runs_ok p" and "env_start_error env = None" and "env_outcome_error env = None"
    and "ex (p_memory p) (open_session env (snd (record_start env n t (p\<lparr>p_pending := Some []\<rparr>))))
      = (res, mem, s)"
    and "res = Inl e \<or> \<not> isl res \<and> env_commit_error env = Some e"
  shows "\<exists>r p'. run_locked env n t ex wc p = (Inr None, p')
    \<and> p_alerts p' = p_alerts p \<and> p_health p' = p_health p \<and> p_entries p' = p_entries p \<and> p_memory p' = mem \<and> p_pending p' = None
    \<and> p_published p' = p_published p @ [(''agent.run'', run_event env n t ''failed'')]
    \<and> p_runs p' = p_runs p @ [r] \<and> ar_agent r = n \<and> ar_run_type r = t \<and> ar_status r = ''failed''
    \<and> ar_completed_at r = Some (env_completed_at env)
    \<and> ar_details r = [(''error'', JStr (env_err_text env e)),
                      (INSTANCE_DETAIL_KEY, JStr (env_instance env))]"
proof -
  let ?p1 = "p\<lparr>p_pending := Some []\<rparr>"
  have ok1: "runs_ok ?p1" using assms(1) by (simp add: runs_ok_def)
  obtain i p2 where st: "record_start env n t ?p1 = (i, p2)" by force
  note sst = record_start_simps [OF st]
  have h: "p_health p2 = p_health p" "p_entries p2 = p_entries p" using st by (auto simp: record_start_def Let_def)
  obtain p3 where w: "work_transaction env ex wc p2 = (Inl e, p3)" and m: "p_memory p3 = mem"
    and h3: "p_health p3 = p_health p2" "p_entries p3 = p_entries p2"
    using assms(4,5) sst(5) by (cases res) (auto simp: work_transaction_def Let_def st)
  note f = work_transaction_failed [OF w]
  note rr = record_start_outcome_runs [OF ok1 st f(2)]
  show ?thesis
    unfolding run_locked_ok_start [OF assms(2) st w] assms(3)
    using rr f sst h h3 m
    by (auto simp: queue_flush_published close_run_def dict_set_def INSTANCE_DETAIL_KEY_def
        p_flush_events_def record_outcome_def p_queue_event_def Let_def)
qed



text \<open>
  C4: a run whose work returns and commits makes the work's rows visible and only then publishes
  the events the work buffered, in order, followed by one \<open>agent.run\<close> event with status
  \<open>completed\<close>; the row it leaves carries the work's counts and the identity of the process.
\<close>

theorem run_completed_publishes_after_commit:
  assumes "runs_ok p" and "env_start_error env = None" and "env_outcome_error env = None"
    and "ex (p_memory p) (open_session env (snd (record_start env n t (p\<lparr>p_pending := Some []\<rparr>))))
      = (Inr result, mem, s)"
    and "env_commit_error env = None"
  shows "\<exists>r p'. run_locked env n t ex wc p = (Inr (Some result), p')
    \<and> p_alerts p' = rows s \<and> p_health p' = health s \<and> p_entries p' = log_entries s \<and> p_memory p' = wc mem \<and> p_pending p' = None
    \<and> p_published p' = published s @ (case pending_events s of None \<Rightarrow> [] | Some evs \<Rightarrow> evs)
          @ [(''agent.run'', run_event env n t ''completed'')]
    \<and> p_runs p' = p_runs p @ [r] \<and> ar_agent r = n \<and> ar_run_type r = t \<and> ar_status r = ''completed''
    \<and> ar_findings_count r = findings_count result \<and> ar_alerts_raised r = alerts_raised result
    \<and> ar_details r = dict_set INSTANCE_DETAIL_KEY (JStr (env_instance env)) (res_details result)"
proof -
  let ?p1 = "p\<lparr>p_pending := Some []\<rparr>"
  have ok1: "runs_ok ?p1" using assms(1) by (simp add: runs_ok_def)
  obtain i p2 where st: "record_start env n t ?p1 = (i, p2)" by force
  note sst = record_start_simps [OF st]
  obtain p3 where w: "work_transaction env ex wc p2 = (Inr result, p3)"
    and p3: "p_alerts p3 = rows s" "p_health p3 = health s" "p_entries p3 = log_entries s" "p_pending p3 = pending_events s"
      "p_published p3 = published s" "p_runs p3 = p_runs p2" "p_memory p3 = wc mem"
    using assms(4,5) sst(5) by (auto simp: work_transaction_def Let_def st)
  note rr = record_start_outcome_runs [OF ok1 st p3(6)]
  show ?thesis
    unfolding run_locked_ok_start [OF assms(2) st w] assms(3)
    using rr p3
    by (auto simp: queue_flush_published close_run_def)
      (auto simp: p_flush_events_def record_outcome_def p_queue_event_def Let_def split: option.splits)
qed

theorem run_completed_publishes_after_commit_witness:
  "\<exists>p'. run_locked ex_env ''sysadmin'' ''scheduled'' ex_work id ex_process = (Inr (Some ex_result), p')
     \<and> p_published p' \<noteq> []"
proof -
  let ?s = "open_session ex_env (snd (record_start ex_env ''sysadmin'' ''scheduled''
      (ex_process\<lparr>p_pending := Some []\<rparr>)))"
  obtain res mem s where w: "ex_work (p_memory ex_process) ?s = (res, mem, s)"
    by (rule prod_cases3)
  moreover have "fst (ex_work (p_memory ex_process) ?s) = Inr ex_result" by code_simp
  ultimately have "res = Inr ex_result" by simp
  note w = w [unfolded this]
  have "runs_ok ex_process" by (simp add: ex_process_def runs_ok_def)
  from run_completed_publishes_after_commit [where env = ex_env and ex = ex_work and p = ex_process
      and n = "''sysadmin''" and t = "''scheduled''", OF this _ _ w, of id] show ?thesis
    by (auto simp: ex_env_def)
qed

text \<open>
  C10: when the work commits but its outcome cannot be recorded, the run raises: the rows of the
  work are in the database, none of the events it buffered is published, and no later run
  publishes them, since it starts by emptying the buffer.
\<close>

theorem run_outcome_error_loses_events:
  assumes "env_start_error env = None" and "env_outcome_error env = Some e"
    and "ex (p_memory p) (open_session env (snd (record_start env n t (p\<lparr>p_pending := Some []\<rparr>))))
      = (Inr result, mem, s)"
    and "env_commit_error env = None"
  shows "\<exists>p'. run_locked env n t ex wc p = (Inl e, p') \<and> p_alerts p' = rows s
    \<and> p_published p' = published s \<and> p_pending p' = pending_events s
    \<and> (\<forall>env' n' t' ex' wc'. run_locked env' n' t' ex' wc' p'
          = run_locked env' n' t' ex' wc' (p'\<lparr>p_pending := None\<rparr>))"
proof -
  let ?p1 = "p\<lparr>p_pending := Some []\<rparr>"
  obtain i p2 where st: "record_start env n t ?p1 = (i, p2)" by force
  note sst = record_start_simps [OF st]
  obtain p3 where w: "work_transaction env ex wc p2 = (Inr result, p3)"
    and p3: "p_alerts p3 = rows s" "p_pending p3 = pending_events s" "p_published p3 = published s"
    using assms(3,4) sst(5) by (auto simp: work_transaction_def Let_def st)
  show ?thesis
    unfolding run_locked_ok_start [OF assms(1) st w] assms(2)
    using p3 by (simp add: run_locked_forgets_pending)
qed

theorem run_outcome_error_loses_events_witness:
  "\<exists>p'. run_locked (ex_env\<lparr>env_outcome_error := Some OperationalError\<rparr>) ''sysadmin'' ''scheduled''
       ex_work id ex_process = (Inl OperationalError, p')
     \<and> p_published p' = [] \<and> p_pending p' \<noteq> Some []"
proof -
  let ?env = "ex_env\<lparr>env_outcome_error := Some OperationalError\<rparr>"
  let ?s = "open_session ?env (snd (record_start ?env ''sysadmin'' ''scheduled''
      (ex_process\<lparr>p_pending := Some []\<rparr>)))"
  obtain mem s where w: "ex_work (p_memory ex_process) ?s = (Inr ex_result, mem, s)"
    and s: "published s = []" "pending_events s \<noteq> Some []"
  proof -
    have "(case ex_work (p_memory ex_process) ?s of (res, mem, s) \<Rightarrow>
        res = Inr ex_result \<and> published s = [] \<and> pending_events s \<noteq> Some [])" by code_simp
    then show ?thesis by (auto intro: that split: prod.splits)
  qed
  have "\<exists>p'. run_locked ?env ''sysadmin'' ''scheduled'' ex_work id ex_process = (Inl OperationalError, p')
      \<and> p_alerts p' = rows s \<and> p_published p' = published s \<and> p_pending p' = pending_events s
      \<and> (\<forall>env' n' t' ex' wc'. run_locked env' n' t' ex' wc' p'
          = run_locked env' n' t' ex' wc' (p'\<lparr>p_pending := None\<rparr>))"
    by (rule run_outcome_error_loses_events) (use w in \<open>simp_all add: ex_env_def\<close>)
  with s show ?thesis by auto
qed

text \<open>
  C5: in every reachable interleaving of runs, at most one run of an agent is between taking and
  releasing its lock, and the lock is taken exactly while there is such a run, so that a run
  which finished, was declined or was cancelled never leaves it behind.
\<close>

theorem run_lock_mutual_exclusion:
  assumes "reachable_locks st"
  shows "(holder st n i \<and> holder st n j \<longrightarrow> i = j) \<and> (n \<in> set (ls_locked st) \<longleftrightarrow> (\<exists>k. holder st n k))"
  using reachable_lock_inv [OF assms] by (auto simp: lock_inv_def)

theorem run_lock_mutual_exclusion_witness:
  "\<exists>st. reachable_locks st \<and> holder st ''sysadmin'' 0 \<and> ''sysadmin'' \<in> set (ls_locked st)"
proof -
  let ?st = "init_locks\<lparr>ls_tasks := ls_tasks init_locks
      @ [\<lparr>tk_agent = ''sysadmin'', tk_run_type = ''scheduled'', tk_phase = Requested\<rparr>]\<rparr>"
  let ?st' = "acquire_lock ''sysadmin'' (set_phase 0 Starting ?st)"
  have "run_step ?st ?st'" by (rule acquired) (simp_all add: at_phase_def init_locks_def)
  with called [of init_locks] have r: "reachable_locks ?st'"
    by (blast intro: locks_init locks_step)
  moreover have "holder ?st' ''sysadmin'' 0"
    by (simp add: holder_def acquire_lock_def set_phase_def init_locks_def)
  ultimately show ?thesis
    using run_lock_mutual_exclusion [OF r, of "''sysadmin''" 0 0] by blast
qed

text \<open>
  C7: the startup sweep cancels exactly the running rows another process stamped, leaves every
  other row as it is (the running rows of this process and the unstamped ones included), and a
  second sweep closes nothing; it never deletes a row or changes what a row says about when,
  which agent and what kind of run it was.
\<close>

theorem sweep_spec:
  "case close_abandoned_runs now i t of (result, t', _) \<Rightarrow>
     t' = map (\<lambda>r. if abandoned_by i r then cancel_run now r else r) t
     \<and> sw_closed result = length (filter (abandoned_by i) t)
     \<and> sw_refused result = length (filter unattributable t)
     \<and> (found_nothing result \<longleftrightarrow>
          (\<forall>r \<in> set t. ar_status r = RUNNING_STATUS \<longrightarrow> instance_of r = Some (JStr i)))
     \<and> map (\<lambda>r. (ar_id r, ar_agent r, ar_run_type r, ar_started_at r)) t'
        = map (\<lambda>r. (ar_id r, ar_agent r, ar_run_type r, ar_started_at r)) t
     \<and> fst (close_abandoned_runs now' i t') =
          \<lparr>sw_closed = 0, sw_refused = sw_refused result, sw_agents = []\<rparr>
     \<and> fst (snd (close_abandoned_runs now' i t')) = t'"
proof -
  let ?t = "map (\<lambda>r. if abandoned_by i r then cancel_run now r else r) t"
  have keep: "map (\<lambda>r. (ar_id r, ar_agent r, ar_run_type r, ar_started_at r)) ?t
      = map (\<lambda>r. (ar_id r, ar_agent r, ar_run_type r, ar_started_at r)) t"
    by (induction t) (auto simp: cancel_run_def)
  have found: "filter (abandoned_by i) t = [] \<and> filter unattributable t = []
      \<longleftrightarrow> (\<forall>r \<in> set t. ar_status r = RUNNING_STATUS \<longrightarrow> instance_of r = Some (JStr i))"
    by (induction t) (auto simp: abandoned_by_def unattributable_def)
  show ?thesis
    by (simp add: close_abandoned_runs_def Let_def filter_unattributable_swept filter_abandoned_swept
        swept_twice keep found_nothing_def found del: map_map)
qed

theorem sweep_spec_witness:
  "sw_closed (fst (close_abandoned_runs 9 ''i1'' [ex_foreign_run])) = 1
     \<and> map ar_status (fst (snd (close_abandoned_runs 9 ''i1'' [ex_foreign_run]))) = [''cancelled'']"
proof -
  have "abandoned_by ''i1'' ex_foreign_run" by code_simp
  with sweep_spec [where now = 9 and i = "''i1''" and t = "[ex_foreign_run]" and now' = 10] show ?thesis
    by (auto simp: CANCELLED_STATUS_def split: prod.splits)
qed

end
