(* ===== verification/Self_Monitor.thy ===== *)
theory Self_Monitor
  imports Agent_Runs
begin

text \<open>
  The self-report of \<open>sysadmin/monitor/self_monitor.py\<close>: each agent's schedule against the runs
  the table holds for it, and from the two whether the agent is stalled and how many of its
  latest runs failed in a row. The lemmas give the failure streak and the stall test their
  closed form and say what each agent's entry depends on.
\<close>

section \<open>Schedules\<close>

definition AGENT_NAMES :: "string list" where
  "AGENT_NAMES =
     [''sysadmin'', ''project_organiser'', ''file_organiser'', ''log_aggregator'',
      ''service_discovery'', ''estate_judge'', ''game_detector'']"

record agent_schedule =
  sch_name :: string
  sch_enabled :: bool
  sch_interval_seconds :: int
  sch_job_id :: string

text \<open>The leaves of \<open>config.agents\<close> and \<open>config.self_monitor\<close> the report reads.\<close>

record agents_config =
  cfg_sysadmin_enabled :: bool
  cfg_health_check_interval_seconds :: int
  cfg_file_organiser_enabled :: bool
  cfg_file_scan_interval_hours :: int
  cfg_log_aggregator_enabled :: bool
  cfg_log_poll_interval_seconds :: int
  cfg_service_discovery_enabled :: bool
  cfg_discovery_scan_interval_hours :: int
  cfg_estate_judge_enabled :: bool
  cfg_estate_poll_interval_hours :: int
  cfg_game_detector_enabled :: bool
  cfg_game_poll_interval_seconds :: int

record self_monitor_config =
  sm_enabled :: bool
  sm_stall_grace_multiplier :: rat
  sm_min_stall_grace_seconds :: int
  sm_recent_runs :: nat
  sm_failure_alert_threshold :: int
  sm_escalate_after_hours :: rat

definition agent_schedules :: "agents_config \<Rightarrow> (string, agent_schedule) dict" where
  "agent_schedules c =
     [(''sysadmin'', \<lparr>sch_name = ''sysadmin'', sch_enabled = cfg_sysadmin_enabled c,
         sch_interval_seconds = cfg_health_check_interval_seconds c,
         sch_job_id = ''sysadmin_health_check''\<rparr>),
      (''file_organiser'', \<lparr>sch_name = ''file_organiser'',
         sch_enabled = cfg_file_organiser_enabled c,
         sch_interval_seconds = cfg_file_scan_interval_hours c * 3600,
         sch_job_id = ''file_organiser_scan''\<rparr>),
      (''log_aggregator'', \<lparr>sch_name = ''log_aggregator'',
         sch_enabled = cfg_log_aggregator_enabled c,
         sch_interval_seconds = cfg_log_poll_interval_seconds c,
         sch_job_id = ''log_aggregator_poll''\<rparr>),
      (''service_discovery'', \<lparr>sch_name = ''service_discovery'',
         sch_enabled = cfg_service_discovery_enabled c,
         sch_interval_seconds = cfg_discovery_scan_interval_hours c * 3600,
         sch_job_id = ''service_discovery_scan''\<rparr>),
      (''estate_judge'', \<lparr>sch_name = ''estate_judge'',
         sch_enabled = cfg_estate_judge_enabled c,
         sch_interval_seconds = cfg_estate_poll_interval_hours c * 3600,
         sch_job_id = ''estate_judge_poll''\<rparr>),
      (''game_detector'', \<lparr>sch_name = ''game_detector'',
         sch_enabled = cfg_game_detector_enabled c,
         sch_interval_seconds = cfg_game_poll_interval_seconds c,
         sch_job_id = ''game_detector_poll''\<rparr>)]"

definition stall_window_seconds :: "agent_schedule \<Rightarrow> self_monitor_config \<Rightarrow> rat" where
  "stall_window_seconds sch cfg =
     max (of_int (sch_interval_seconds sch) * sm_stall_grace_multiplier cfg)
         (of_int (sm_min_stall_grace_seconds cfg))"

section \<open>Streaks and trends\<close>

text \<open>
  The loop over the runs, newest first: a run in progress is passed over, a failure is counted,
  anything else ends the streak. The error kept is the newest one that is not empty; the
  details hold it as a text.
\<close>

fun failure_streak_loop :: "agent_run list \<Rightarrow> nat \<Rightarrow> string option \<Rightarrow> nat \<times> string option" where
  "failure_streak_loop [] count last_error = (count, last_error)"
| "failure_streak_loop (r # rs) count last_error =
     (if ar_status r = ''running'' then failure_streak_loop rs count last_error
      else if ar_status r = ''failed'' then
        failure_streak_loop rs (Suc count)
          (if last_error = None then get_str (ar_details r) ''error'' else last_error)
      else (count, last_error))"

definition failure_streak :: "agent_run list \<Rightarrow> nat \<times> string option" where
  "failure_streak runs = failure_streak_loop runs 0 None"

definition MIN_TREND_SAMPLES :: nat where
  "MIN_TREND_SAMPLES = 4"

definition TREND_RISING_RATIO :: rat where
  "TREND_RISING_RATIO = 5/4"

definition TREND_FALLING_RATIO :: rat where
  "TREND_FALLING_RATIO = 4/5"

definition mean_or_none :: "rat list \<Rightarrow> rat option" where
  "mean_or_none values =
     (if values = [] then None else Some (sum_list values / of_nat (length values)))"

definition duration_trend :: "rat list \<Rightarrow> string" where
  "duration_trend durations =
     (if length durations < MIN_TREND_SAMPLES then ''unknown''
      else
        (let half = length durations div 2
         in case (mean_or_none (take half durations), mean_or_none (drop half durations)) of
              (Some recent, Some older) \<Rightarrow>
                (if older \<le> 0 then ''unknown''
                 else if TREND_RISING_RATIO \<le> recent / older then ''rising''
                 else if recent / older \<le> TREND_FALLING_RATIO then ''falling''
                 else ''steady'')
            | _ \<Rightarrow> ''unknown''))"

section \<open>The report\<close>

record agent_entry =
  en_name :: string
  en_enabled :: bool
  en_job_id :: string
  en_interval_seconds :: int
  en_stall_window_seconds :: rat
  en_last_run_at :: "string option"
  en_last_status :: string
  en_last_run_type :: "string option"
  en_last_duration_seconds :: "rat option"
  en_seconds_since_last_run :: "rat option"
  en_expected_next_run_at :: "string option"
  en_runs_considered :: nat
  en_consecutive_failures :: nat
  en_last_error :: "string option"
  en_recent_durations :: "rat list"
  en_mean_duration_seconds :: "rat option"
  en_duration_trend :: string
  en_stalled :: bool
  en_stall_reason :: "string option"

definition summarise_agent ::
  "agent_schedule \<Rightarrow> agent_run list \<Rightarrow> self_monitor_config \<Rightarrow> instant \<Rightarrow> agent_entry" where
  "summarise_agent sch runs cfg now =
     (let window = stall_window_seconds sch cfg;
          durations = List.map_filter ar_duration_seconds runs;
          (consecutive_failures, last_error) = failure_streak runs;
          last = (case runs of [] \<Rightarrow> None | r # _ \<Rightarrow> Some r);
          last_run_at = map_option ar_started_at last;
          age_seconds = map_option (\<lambda>t. total_seconds (now - t)) last_run_at;
          stalled = (case age_seconds of None \<Rightarrow> False | Some age \<Rightarrow> sch_enabled sch \<and> window < age)
      in \<lparr>en_name = sch_name sch, en_enabled = sch_enabled sch, en_job_id = sch_job_id sch,
          en_interval_seconds = sch_interval_seconds sch,
          en_stall_window_seconds = py_round_to 1 window,
          en_last_run_at = map_option isoformat last_run_at,
          en_last_status = (case last of None \<Rightarrow> ''never'' | Some r \<Rightarrow> ar_status r),
          en_last_run_type = map_option ar_run_type last,
          en_last_duration_seconds =
            (case last of None \<Rightarrow> None | Some r \<Rightarrow> ar_duration_seconds r),
          en_seconds_since_last_run = map_option (py_round_to 1) age_seconds,
          en_expected_next_run_at =
            map_option (\<lambda>t. isoformat (t + sch_interval_seconds sch * us_per_second)) last_run_at,
          en_runs_considered = length runs,
          en_consecutive_failures = consecutive_failures,
          en_last_error = last_error,
          en_recent_durations = map (py_round_to 2) durations,
          en_mean_duration_seconds = map_option (py_round_to 2) (mean_or_none durations),
          en_duration_trend = duration_trend durations,
          en_stalled = stalled,
          en_stall_reason =
            (if stalled then
               map_option (\<lambda>age. ''no run for '' @ show_int (py_trunc age) @ ''s '' @ em_dash
                 @ '' expected every '' @ show_int (sch_interval_seconds sch)
                 @ ''s (stall window '' @ show_int (py_trunc window) @ ''s)'') age_seconds
             else None)\<rparr>)"

text \<open>The newest runs of each agent, newest first.\<close>

definition load_recent_runs :: "nat \<Rightarrow> agent_run list \<Rightarrow> (string, agent_run list) dict" where
  "load_recent_runs limit t =
     map (\<lambda>n. (n, take limit (sort_key (\<lambda>r. - ar_started_at r) (filter (\<lambda>r. ar_agent r = n) t))))
       (sort (remdups (map ar_agent t)))"

record self_report =
  rep_agents :: "agent_entry list"
  rep_count :: nat
  rep_stalled_count :: nat
  rep_failing_count :: nat
  rep_healthy :: bool
  rep_generated_at :: string

definition build_self_report ::
  "agents_config \<Rightarrow> self_monitor_config \<Rightarrow> agent_run list \<Rightarrow> instant \<Rightarrow> self_report" where
  "build_self_report agents cfg t now =
     (let runs_by_agent = load_recent_runs (sm_recent_runs cfg) t;
          entries = map (\<lambda>(name, sch).
            summarise_agent sch (dict_get_or runs_by_agent name []) cfg now) (agent_schedules agents);
          stalled = filter en_stalled entries;
          failing = filter (\<lambda>e. 0 < en_consecutive_failures e) entries
      in \<lparr>rep_agents = entries, rep_count = length entries,
          rep_stalled_count = length stalled, rep_failing_count = length failing,
          rep_healthy = (stalled = [] \<and> failing = []),
          rep_generated_at = isoformat now\<rparr>)"

section \<open>Closed forms\<close>

definition finished_runs :: "agent_run list \<Rightarrow> agent_run list" where
  "finished_runs runs = filter (\<lambda>r. ar_status r \<noteq> ''running'') runs"

definition latest_failures :: "agent_run list \<Rightarrow> agent_run list" where
  "latest_failures runs = takeWhile (\<lambda>r. ar_status r = ''failed'') (finished_runs runs)"

definition first_some :: "('a \<Rightarrow> 'b option) \<Rightarrow> 'a list \<Rightarrow> 'b option" where
  "first_some f xs = (case List.map_filter f xs of [] \<Rightarrow> None | y # _ \<Rightarrow> Some y)"

lemma first_some_simps [simp]:
  "first_some f [] = None"
  "first_some f (x # xs) = (case f x of None \<Rightarrow> first_some f xs | Some y \<Rightarrow> Some y)"
  by (simp_all add: first_some_def List.map_filter_def split: option.splits)

lemma failure_streak_loop_eq:
  "failure_streak_loop runs c e =
     (c + length (latest_failures runs),
      (case e of Some x \<Rightarrow> Some x
       | None \<Rightarrow> first_some (\<lambda>r. get_str (ar_details r) ''error'') (latest_failures runs)))"
  by (induction runs arbitrary: c e)
    (auto simp: latest_failures_def finished_runs_def split: option.splits)

lemma failure_streak_eq:
  "failure_streak runs =
     (length (latest_failures runs),
      first_some (\<lambda>r. get_str (ar_details r) ''error'') (latest_failures runs))"
  by (simp add: failure_streak_def failure_streak_loop_eq)

lemma summarise_agent_simps [simp]:
  "en_name (summarise_agent sch runs cfg now) = sch_name sch"
  "en_enabled (summarise_agent sch runs cfg now) = sch_enabled sch"
  "en_interval_seconds (summarise_agent sch runs cfg now) = sch_interval_seconds sch"
  "en_consecutive_failures (summarise_agent sch runs cfg now) = length (latest_failures runs)"
  "en_last_error (summarise_agent sch runs cfg now) =
     first_some (\<lambda>r. get_str (ar_details r) ''error'') (latest_failures runs)"
  by (simp_all add: summarise_agent_def Let_def failure_streak_eq)

lemma en_stalled_iff:
  "en_stalled (summarise_agent sch runs cfg now) \<longleftrightarrow>
     sch_enabled sch \<and> runs \<noteq> []
     \<and> stall_window_seconds sch cfg < total_seconds (now - ar_started_at (hd runs))"
  by (cases runs) (simp_all add: summarise_agent_def Let_def failure_streak_eq)

lemma map_fst_agent_schedules:
  "map fst (agent_schedules c) =
     [''sysadmin'', ''file_organiser'', ''log_aggregator'', ''service_discovery'',
      ''estate_judge'', ''game_detector'']"
  by (simp add: agent_schedules_def)

lemma schedule_names: "(n, sch) \<in> set (agent_schedules c) \<Longrightarrow> sch_name sch = n"
  by (auto simp: agent_schedules_def)

lemma rep_agents_names:
  "map en_name (rep_agents (build_self_report c cfg t now)) = map fst (agent_schedules c)"
  by (auto simp: build_self_report_def Let_def schedule_names)

lemma dict_get_load_recent_runs:
  "dict_get_or (load_recent_runs k t) n [] =
     take k (sort_key (\<lambda>r. - ar_started_at r) (filter (\<lambda>r. ar_agent r = n) t))"
proof (cases "n \<in> set (map ar_agent t)")
  case True
  then show ?thesis
    by (simp add: load_recent_runs_def dict_get_or_def map_of_map_restrict [unfolded comp_def]
        restrict_map_def)
next
  case False
  then have "filter (\<lambda>r. ar_agent r = n) t = []"
    by (auto simp: filter_empty_conv)
  with False show ?thesis
    by (simp add: load_recent_runs_def dict_get_or_def map_of_map_restrict restrict_map_def)
qed

section \<open>Properties\<close>

text \<open>
  The failure streak of an agent is the number of failed runs before the newest finished run
  that did not fail, runs still in progress being passed over, with the error text of the newest
  of those failures that has one.
\<close>

theorem failure_streak_spec:
  "failure_streak runs =
     (let failures = takeWhile (\<lambda>r. ar_status r = ''failed'')
            (filter (\<lambda>r. ar_status r \<noteq> ''running'') runs)
      in (length failures, first_some (\<lambda>r. get_str (ar_details r) ''error'') failures))"
  by (simp add: failure_streak_eq latest_failures_def finished_runs_def Let_def)

lemma newest_first:
  assumes "sort_key (\<lambda>r. - ar_started_at r) xs = r # rs" and "x \<in> set xs"
  shows "ar_started_at x \<le> ar_started_at r"
proof -
  have "sorted (map (\<lambda>r. - ar_started_at r) (r # rs))"
    using sorted_sort_key [of "\<lambda>r. - ar_started_at r" xs] unfolding assms(1) .
  moreover have "set (r # rs) = set xs" by (simp flip: assms(1))
  ultimately show ?thesis using assms(2) by auto
qed

lemma stalled_newest:
  assumes "0 < k"
  shows "(\<exists>r. take k (sort_key (\<lambda>r. - ar_started_at r) xs) = r # drop 1 (take k (sort_key (\<lambda>r. - ar_started_at r) xs))
      \<and> w < total_seconds (now - ar_started_at r))
    \<longleftrightarrow> xs \<noteq> [] \<and> (\<forall>x \<in> set xs. w < total_seconds (now - ar_started_at x))"
proof (cases "sort_key (\<lambda>r. - ar_started_at r) xs")
  case Nil
  then have "xs = []" by (metis length_0_conv length_sort)
  with Nil show ?thesis by simp
next
  case (Cons r rs)
  then have "r \<in> set xs" by (metis list.set_intros(1) set_sort)
  moreover have "total_seconds (now - ar_started_at r) \<le> total_seconds (now - ar_started_at x)"
    if "x \<in> set xs" for x
    using newest_first [OF Cons that] by (simp add: total_seconds_def divide_right_mono)
  ultimately show ?thesis
    using Cons assms by (cases k) (auto intro: less_le_trans)
qed

text \<open>
  The self-report has one entry per scheduled agent, in schedule order; an agent is stalled
  exactly when it is enabled, has run at least once, and every one of its runs started longer ago
  than its stall window, and the report is healthy exactly when no entry is stalled or failing.
\<close>

theorem self_report_spec:
  assumes "0 < sm_recent_runs cfg"
  shows "map en_name (rep_agents (build_self_report agents cfg t now)) = map fst (agent_schedules agents)
    \<and> (\<forall>(n, sch) \<in> set (agent_schedules agents).
         \<exists>e \<in> set (rep_agents (build_self_report agents cfg t now)). en_name e = n
           \<and> (en_stalled e \<longleftrightarrow> sch_enabled sch \<and> (\<exists>r \<in> set t. ar_agent r = n)
                \<and> (\<forall>r \<in> set t. ar_agent r = n \<longrightarrow>
                     stall_window_seconds sch cfg < total_seconds (now - ar_started_at r))))
    \<and> (rep_healthy (build_self_report agents cfg t now) \<longleftrightarrow>
         (\<forall>e \<in> set (rep_agents (build_self_report agents cfg t now)).
            \<not> en_stalled e \<and> en_consecutive_failures e = 0))"
proof -
  let ?rep = "build_self_report agents cfg t now"
  have "\<exists>e \<in> set (rep_agents ?rep). en_name e = n
           \<and> (en_stalled e \<longleftrightarrow> sch_enabled sch \<and> (\<exists>r \<in> set t. ar_agent r = n)
                \<and> (\<forall>r \<in> set t. ar_agent r = n \<longrightarrow>
                     stall_window_seconds sch cfg < total_seconds (now - ar_started_at r)))"
    if "(n, sch) \<in> set (agent_schedules agents)" for n sch
  proof -
    let ?xs = "filter (\<lambda>r. ar_agent r = n) t"
    let ?runs = "take (sm_recent_runs cfg) (sort_key (\<lambda>r. - ar_started_at r) ?xs)"
    let ?e = "summarise_agent sch ?runs cfg now"
    have "?e \<in> set (rep_agents ?rep)"
      using that by (force simp: build_self_report_def Let_def dict_get_load_recent_runs)
    moreover have "en_stalled ?e \<longleftrightarrow> sch_enabled sch \<and> ?xs \<noteq> []
        \<and> (\<forall>r \<in> set ?xs. stall_window_seconds sch cfg < total_seconds (now - ar_started_at r))"
      unfolding en_stalled_iff stalled_newest [OF assms, symmetric]
      by (cases ?runs) auto
    ultimately show ?thesis
      using schedule_names [OF that] by (intro bexI [of _ ?e]) (auto simp: filter_empty_conv)
  qed
  moreover have "rep_healthy ?rep \<longleftrightarrow>
      (\<forall>e \<in> set (rep_agents ?rep). \<not> en_stalled e \<and> en_consecutive_failures e = 0)"
    by (auto simp: build_self_report_def Let_def filter_empty_conv)
  ultimately show ?thesis using rep_agents_names [of agents cfg t now] by auto
qed

definition ex_agents :: agents_config where
  "ex_agents =
     \<lparr>cfg_sysadmin_enabled = True, cfg_health_check_interval_seconds = 300,
      cfg_file_organiser_enabled = True, cfg_file_scan_interval_hours = 6,
      cfg_log_aggregator_enabled = True, cfg_log_poll_interval_seconds = 60,
      cfg_service_discovery_enabled = True, cfg_discovery_scan_interval_hours = 24,
      cfg_estate_judge_enabled = True, cfg_estate_poll_interval_hours = 24,
      cfg_game_detector_enabled = False, cfg_game_poll_interval_seconds = 60\<rparr>"

definition ex_self_monitor :: self_monitor_config where
  "ex_self_monitor =
     \<lparr>sm_enabled = True, sm_stall_grace_multiplier = 2, sm_min_stall_grace_seconds = 600,
      sm_recent_runs = 10, sm_failure_alert_threshold = 3, sm_escalate_after_hours = 6\<rparr>"

definition ex_old_run :: agent_run where
  "ex_old_run =
     \<lparr>ar_id = 0, ar_agent = ''log_aggregator'', ar_run_type = ''scheduled'', ar_status = ''completed'',
      ar_duration_seconds = Some 2, ar_findings_count = 0, ar_alerts_raised = 0, ar_details = [],
      ar_started_at = 0, ar_completed_at = Some 1\<rparr>"

theorem self_report_spec_witness:
  "\<exists>e \<in> set (rep_agents (build_self_report ex_agents ex_self_monitor [ex_old_run] (100000 * us_per_second))).
     en_name e = ''log_aggregator'' \<and> en_stalled e"
proof -
  have pos: "0 < sm_recent_runs ex_self_monitor" by (simp add: ex_self_monitor_def)
  define sch where "sch = \<lparr>sch_name = ''log_aggregator'', sch_enabled = True,
    sch_interval_seconds = 60, sch_job_id = ''log_aggregator_poll''\<rparr>"
  have mem: "(''log_aggregator'', sch) \<in> set (agent_schedules ex_agents)"
    by (simp add: agent_schedules_def ex_agents_def sch_def)
  have "stall_window_seconds sch ex_self_monitor
      < total_seconds (100000 * us_per_second - ar_started_at ex_old_run)"
    unfolding sch_def by code_simp
  moreover have "ar_agent ex_old_run = ''log_aggregator''" "sch_enabled sch"
    by (simp_all add: ex_old_run_def sch_def)
  ultimately show ?thesis
    using self_report_spec [OF pos, of ex_agents "[ex_old_run]" "100000 * us_per_second"] mem
    by fastforce
qed

end
