(* ===== verification/Ladder_Families.thy ===== *)
theory Ladder_Families
  imports Self_Monitor
begin

text \<open>
  The two families of alerts about this application's own agents:
  \<open>sysadmin/monitor/stalls.py\<close> (an agent that has not run) and
  \<open>sysadmin/monitor/failures.py\<close> (an agent whose runs fail). Both climb the ladder of
  \<open>sysadmin/core/escalation.py\<close>, and both are applied to the alerts table by
  \<open>SysAdminAgent\<close> (\<open>sysadmin/monitor/agent.py\<close>).

  The locale \<open>ladder_family\<close> states what an evaluation promises its caller: which faults it
  returns, at which rung, with which step, in which order. The lemmas proved there hold for
  both families: a first detection is quiet, an escalation strictly louder, and a fault that
  stands writes at most two rows however often it is evaluated.
\<close>

section \<open>Stalled agents\<close>

definition STALL_TITLE_SUFFIX :: string where
  "STALL_TITLE_SUFFIX = ''agent stalled''"

definition STALL_LADDER :: Ladder where
  "STALL_LADDER = \<lparr>quiet = ''warning'', loud = ''critical''\<rparr>"

definition STALL_DETAIL_KEY :: string where
  "STALL_DETAIL_KEY = ''stalled_agent''"

definition stall_title :: "string \<Rightarrow> string" where
  "stall_title agent_name = agent_name @ '' '' @ STALL_TITLE_SUFFIX"

text \<open>The unresolved row of a fault (\<open>OpenStall\<close>, and field for field \<open>OpenFailure\<close>).\<close>

record open_fault =
  of_alert_id :: nat
  of_severity :: string
  of_created_at :: pydatetime

record stall_alert =
  sa_agent_name :: string
  sa_severity :: string
  sa_step :: Step
  sa_last_run_at :: "string option"
  sa_stall_reason :: "string option"
  sa_seconds_since_last_run :: "rat option"
  sa_interval_seconds :: int
  sa_first_alerted_at :: "pydatetime option"
  sa_hours_since_first_alert :: "rat option"
  sa_escalate_after_hours :: rat

text \<open>An optional text inside an f-string.\<close>

definition fstr :: "string option \<Rightarrow> string" where
  "fstr x = (case x of None \<Rightarrow> ''None'' | Some s \<Rightarrow> s)"

definition stall_message :: "stall_alert \<Rightarrow> string" where
  "stall_message a =
     (let base = ''The '' @ sa_agent_name a @ '' agent has not run since '' @ fstr (sa_last_run_at a);
          plain = (case sa_stall_reason a of
                     None \<Rightarrow> base
                   | Some r \<Rightarrow> if r = [] then base else base @ '' '' @ em_dash @ '' '' @ r)
      in if sa_step a = ESCALATE
         then (case sa_hours_since_first_alert a of
                 None \<Rightarrow> plain
               | Some h \<Rightarrow>
                   ''Still stalled '' @ humanise_hours h @ '' after the first warning '' @ em_dash
                   @ '' '' @ sa_agent_name a @ '' has not run since '' @ fstr (sa_last_run_at a))
         else plain)"

definition stall_details :: "stall_alert \<Rightarrow> jobj" where
  "stall_details a =
     [(STALL_DETAIL_KEY, JStr (sa_agent_name a)),
      (''last_run_at'', jopt JStr (sa_last_run_at a)),
      (''seconds_since_last_run'', jopt JNum (sa_seconds_since_last_run a)),
      (''interval_seconds'', JNum (of_int (sa_interval_seconds a))),
      (''kind'', JStr ''agent_stall''),
      (''rung'', JStr (sa_severity a)),
      (''escalated'', JBool (sa_step a = ESCALATE)),
      (''first_alerted_at'', jopt (\<lambda>t. JStr (dt_isoformat t)) (sa_first_alerted_at a)),
      (''hours_since_first_alert'',
        jopt (\<lambda>h. JNum (py_round_to 2 h)) (sa_hours_since_first_alert a)),
      (''escalate_after_hours'', JNum (sa_escalate_after_hours a))]"

text \<open>\<open>hours_since(existing.created_at, now) if existing else 0.0\<close>\<close>

definition elapsed_hours :: "open_fault option \<Rightarrow> instant \<Rightarrow> rat" where
  "elapsed_hours existing now =
     (case existing of None \<Rightarrow> 0 | Some x \<Rightarrow> hours_since (of_created_at x) now)"

text \<open>One turn of the loop of \<open>stalls.evaluate\<close>: the alert appended, or nothing.\<close>

definition stall_for ::
  "(string, open_fault) dict \<Rightarrow> rat \<Rightarrow> instant \<Rightarrow> agent_entry \<Rightarrow> stall_alert option" where
  "stall_for open_stalls escalate_after_hours now entry =
     (let name = en_name entry; existing = dict_get open_stalls name;
          elapsed = elapsed_hours existing now
      in if name = [] then None
         else case severity_for STALL_LADDER elapsed 0 escalate_after_hours of
                None \<Rightarrow> None
              | Some sev \<Rightarrow>
                  (let step = step_for sev (map_option of_severity existing)
                   in if step = HOLD then None
                      else Some \<lparr>sa_agent_name = name, sa_severity = sev, sa_step = step,
                        sa_last_run_at = en_last_run_at entry,
                        sa_stall_reason = en_stall_reason entry,
                        sa_seconds_since_last_run = en_seconds_since_last_run entry,
                        sa_interval_seconds = en_interval_seconds entry,
                        sa_first_alerted_at = map_option of_created_at existing,
                        sa_hours_since_first_alert = map_option (\<lambda>_. elapsed) existing,
                        sa_escalate_after_hours = escalate_after_hours\<rparr>))"

definition stalls_evaluate ::
  "agent_entry list \<Rightarrow> (string, open_fault) dict \<Rightarrow> rat \<Rightarrow> instant \<Rightarrow> stall_alert list" where
  "stalls_evaluate stalled_entries open_stalls escalate_after_hours now =
     sort_key (\<lambda>a. (sa_severity a \<noteq> ''critical'', sa_agent_name a))
       (List.map_filter (stall_for open_stalls escalate_after_hours now) stalled_entries)"

section \<open>Failing agents\<close>

definition FAILURE_TITLE_SUFFIX :: string where
  "FAILURE_TITLE_SUFFIX = ''agent failing''"

definition FAILURE_LADDER :: Ladder where
  "FAILURE_LADDER = \<lparr>quiet = ''warning'', loud = ''critical''\<rparr>"

definition FAILURE_DETAIL_KEY :: string where
  "FAILURE_DETAIL_KEY = ''failing_agent''"

definition ERROR_CHARS :: nat where
  "ERROR_CHARS = 160"

definition failure_title :: "string \<Rightarrow> string" where
  "failure_title agent_name = agent_name @ '' '' @ FAILURE_TITLE_SUFFIX"

definition is_failing :: "int \<Rightarrow> agent_entry \<Rightarrow> bool" where
  "is_failing failure_threshold entry =
     (if \<not> en_enabled entry then False
      else if en_stalled entry then False
      else failure_threshold \<le> int (en_consecutive_failures entry))"

record failure_alert =
  fa_agent_name :: string
  fa_severity :: string
  fa_step :: Step
  fa_consecutive_failures :: nat
  fa_last_error :: "string option"
  fa_last_run_at :: "string option"
  fa_failure_threshold :: int
  fa_first_alerted_at :: "pydatetime option"
  fa_hours_since_first_alert :: "rat option"
  fa_escalate_after_hours :: rat

definition plural :: "nat \<Rightarrow> string \<Rightarrow> string" where
  "plural count noun =
     (if count = 1 then show_nat count @ '' '' @ noun else show_nat count @ '' '' @ noun @ ''s'')"

definition failure_message :: "failure_alert \<Rightarrow> string" where
  "failure_message a =
     (let runs = plural (fa_consecutive_failures a) ''run'';
          first = ''The '' @ fa_agent_name a @ '' agent has failed '' @ runs @ '' in a row'';
          base = (if fa_step a = ESCALATE
                  then (case fa_hours_since_first_alert a of
                          None \<Rightarrow> first
                        | Some h \<Rightarrow>
                            ''Still failing '' @ humanise_hours h @ '' after the first warning ''
                            @ em_dash @ '' '' @ fa_agent_name a @ '' has now failed '' @ runs
                            @ '' in a row'')
                  else first)
      in case fa_last_error a of
           None \<Rightarrow> base
         | Some e \<Rightarrow> if e = [] then base else base @ '': '' @ e)"

definition failure_details :: "failure_alert \<Rightarrow> jobj" where
  "failure_details a =
     [(FAILURE_DETAIL_KEY, JStr (fa_agent_name a)),
      (''consecutive_failures'', JNum (of_nat (fa_consecutive_failures a))),
      (''failure_threshold'', JNum (of_int (fa_failure_threshold a))),
      (''last_error'', jopt JStr (fa_last_error a)),
      (''last_run_at'', jopt JStr (fa_last_run_at a)),
      (''kind'', JStr ''agent_failure''),
      (''rung'', JStr (fa_severity a)),
      (''escalated'', JBool (fa_step a = ESCALATE)),
      (''first_alerted_at'', jopt (\<lambda>t. JStr (dt_isoformat t)) (fa_first_alerted_at a)),
      (''hours_since_first_alert'',
        jopt (\<lambda>h. JNum (py_round_to 2 h)) (fa_hours_since_first_alert a)),
      (''escalate_after_hours'', JNum (fa_escalate_after_hours a))]"

text \<open>\<open>trunc\<close> stands for \<open>estate.text.truncate_at_word\<close>, which is outside the repository.\<close>

definition short_error :: "(string \<Rightarrow> nat \<Rightarrow> string) \<Rightarrow> string option \<Rightarrow> string option" where
  "short_error trunc error =
     (case error of
        None \<Rightarrow> None
      | Some e \<Rightarrow>
          if e = [] then None
          else (let flattened = flatten_spaces e
                in if flattened = [] then None else Some (trunc flattened ERROR_CHARS)))"

definition failure_for ::
  "(string \<Rightarrow> nat \<Rightarrow> string) \<Rightarrow> (string, open_fault) dict \<Rightarrow> int \<Rightarrow> rat \<Rightarrow> instant
     \<Rightarrow> agent_entry \<Rightarrow> failure_alert option" where
  "failure_for trunc open_failures failure_threshold escalate_after_hours now entry =
     (let name = en_name entry; existing = dict_get open_failures name;
          elapsed = elapsed_hours existing now
      in if name = [] \<or> \<not> is_failing failure_threshold entry then None
         else case severity_for FAILURE_LADDER elapsed 0 escalate_after_hours of
                None \<Rightarrow> None
              | Some sev \<Rightarrow>
                  (let step = step_for sev (map_option of_severity existing)
                   in if step = HOLD then None
                      else Some \<lparr>fa_agent_name = name, fa_severity = sev, fa_step = step,
                        fa_consecutive_failures = en_consecutive_failures entry,
                        fa_last_error = short_error trunc (en_last_error entry),
                        fa_last_run_at = en_last_run_at entry,
                        fa_failure_threshold = failure_threshold,
                        fa_first_alerted_at = map_option of_created_at existing,
                        fa_hours_since_first_alert = map_option (\<lambda>_. elapsed) existing,
                        fa_escalate_after_hours = escalate_after_hours\<rparr>))"

definition failures_evaluate ::
  "(string \<Rightarrow> nat \<Rightarrow> string) \<Rightarrow> int \<Rightarrow> agent_entry list \<Rightarrow> (string, open_fault) dict
     \<Rightarrow> rat \<Rightarrow> instant \<Rightarrow> failure_alert list" where
  "failures_evaluate trunc failure_threshold entries open_failures escalate_after_hours now =
     sort_key (\<lambda>a. (fa_severity a \<noteq> ''critical'', fa_agent_name a))
       (List.map_filter
         (failure_for trunc open_failures failure_threshold escalate_after_hours now) entries)"

section \<open>What the families share\<close>

text \<open>
  What is written about one fault: its agent, rung and step, and the text of the row.
\<close>

record ladder_item =
  it_agent :: string
  it_severity :: string
  it_step :: Step
  it_title :: string
  it_message :: string
  it_details :: jobj

definition stall_item :: "stall_alert \<Rightarrow> ladder_item" where
  "stall_item a =
     \<lparr>it_agent = sa_agent_name a, it_severity = sa_severity a, it_step = sa_step a,
      it_title = stall_title (sa_agent_name a), it_message = stall_message a,
      it_details = stall_details a\<rparr>"

definition failure_item :: "failure_alert \<Rightarrow> ladder_item" where
  "failure_item a =
     \<lparr>it_agent = fa_agent_name a, it_severity = fa_severity a, it_step = fa_step a,
      it_title = failure_title (fa_agent_name a), it_message = failure_message a,
      it_details = failure_details a\<rparr>"

text \<open>The rung a fault is on, given its open row.\<close>

definition rung :: "Ladder \<Rightarrow> rat \<Rightarrow> instant \<Rightarrow> open_fault option \<Rightarrow> string option" where
  "rung L gap now existing = severity_for L (elapsed_hours existing now) 0 gap"

definition due_step :: "Ladder \<Rightarrow> rat \<Rightarrow> instant \<Rightarrow> open_fault option \<Rightarrow> (string \<times> Step) option" where
  "due_step L gap now existing =
     (case rung L gap now existing of
        None \<Rightarrow> None
      | Some sev \<Rightarrow>
          (let st = step_for sev (map_option of_severity existing)
           in if st = HOLD then None else Some (sev, st)))"

text \<open>
  The rows a family writes when the same entries are evaluated at a series of moments, each
  written row being the open one afterwards.
\<close>

fun fault_history ::
  "('e list \<Rightarrow> (string, open_fault) dict \<Rightarrow> rat \<Rightarrow> instant \<Rightarrow> ladder_item list)
     \<Rightarrow> 'e list \<Rightarrow> rat \<Rightarrow> instant list \<Rightarrow> (string, open_fault) dict \<Rightarrow> ladder_item list" where
  "fault_history ev es gap [] os = []"
| "fault_history ev es gap (t # ts) os =
     (let xs = ev es os gap t
      in xs @ fault_history ev es gap ts
           (fold (\<lambda>x. dict_set (it_agent x)
              \<lparr>of_alert_id = 0, of_severity = it_severity x, of_created_at = Aware t\<rparr>) xs os))"

text \<open>How many rungs are left above an open row.\<close>

definition rungs_left :: "Ladder \<Rightarrow> open_fault option \<Rightarrow> nat" where
  "rungs_left L existing =
     (case existing of
        None \<Rightarrow> 2
      | Some r \<Rightarrow>
          (if severity_rank (of_severity r) < severity_rank (quiet L) then 2
           else if severity_rank (of_severity r) < severity_rank (loud L) then 1 else 0))"

lemma dict_get_fold_set:
  "distinct (map f xs) \<Longrightarrow>
     dict_get (fold (\<lambda>x. dict_set (f x) (g x)) xs os) n =
       (case find (\<lambda>x. f x = n) xs of None \<Rightarrow> dict_get os n | Some x \<Rightarrow> Some (g x))"
proof (induction xs arbitrary: os)
  case (Cons x xs)
  have "find (\<lambda>y. f y = f x) xs = None"
    using Cons.prems by (auto simp: find_None_iff image_iff)
  with Cons show ?case by (auto split: option.splits)
qed simp

lemma length_filter_distinct_key:
  "distinct (map f xs) \<Longrightarrow> length (filter (\<lambda>x. f x = n) xs) = (if n \<in> f ` set xs then 1 else 0)"
  by (induction xs) (auto simp: filter_empty_conv)

locale ladder_family =
  fixes faulty :: "'e \<Rightarrow> string option"
    and evaluate :: "'e list \<Rightarrow> (string, open_fault) dict \<Rightarrow> rat \<Rightarrow> instant \<Rightarrow> ladder_item list"
    and L :: Ladder
    and title :: "string \<Rightarrow> string"
    and key :: string
  assumes sound:
      "x \<in> set (evaluate es os gap now) \<Longrightarrow>
         (\<exists>e \<in> set es. faulty e = Some (it_agent x))
         \<and> due_step L gap now (dict_get os (it_agent x)) = Some (it_severity x, it_step x)
         \<and> it_title x = title (it_agent x) \<and> get_str (it_details x) key = Some (it_agent x)"
    and complete:
      "e \<in> set es \<Longrightarrow> faulty e = Some n \<Longrightarrow> due_step L gap now (dict_get os n) \<noteq> None \<Longrightarrow>
         \<exists>x \<in> set (evaluate es os gap now). it_agent x = n"
    and once:
      "distinct (List.map_filter faulty es) \<Longrightarrow> distinct (map it_agent (evaluate es os gap now))"
    and loudest_first:
      "sorted (map (\<lambda>x. (it_severity x \<noteq> ''critical'', it_agent x)) (evaluate es os gap now))"
    and ladder_climbs: "severity_rank (quiet L) < severity_rank (loud L)"
    and title_inj: "inj title"
begin

lemma evaluate_raise:
  assumes "x \<in> set (evaluate es os gap now)" and "it_step x = RAISE"
  shows "dict_get os (it_agent x) = None"
  using sound [OF assms(1)] assms(2)
  by (auto simp: due_step_def Let_def step_for_RAISE_iff split: option.splits if_splits)

lemma evaluate_first_quiet:
  assumes "x \<in> set (evaluate es os gap now)" and "dict_get os (it_agent x) = None" and "0 < gap"
  shows "it_severity x = quiet L" and "it_step x = RAISE"
  using sound [OF assms(1)] assms(2,3)
  by (auto simp: due_step_def rung_def elapsed_hours_def severity_for_def)

lemma evaluate_escalate:
  assumes "x \<in> set (evaluate es os gap now)" and "it_step x = ESCALATE"
  obtains r where "dict_get os (it_agent x) = Some r"
    and "severity_rank (of_severity r) < severity_rank (it_severity x)"
  using sound [OF assms(1)] assms(2)
  by (cases "dict_get os (it_agent x)")
    (auto simp: due_step_def Let_def split: option.splits if_splits)

lemma evaluate_never_holds: "x \<in> set (evaluate es os gap now) \<Longrightarrow> it_step x \<noteq> HOLD"
  by (drule sound) (auto simp: due_step_def Let_def split: option.splits if_splits)

lemma due_step_loud_open:
  "severity_rank (loud L) \<le> severity_rank (of_severity r) \<Longrightarrow> due_step L gap now (Some r) = None"
  using ladder_climbs by (auto simp: due_step_def rung_def severity_for_def Let_def)

lemma evaluate_silent:
  assumes "\<And>e n. e \<in> set es \<Longrightarrow> faulty e = Some n \<Longrightarrow> \<exists>r. dict_get os n = Some r
    \<and> severity_rank (loud L) \<le> severity_rank (of_severity r)"
  shows "evaluate es os gap now = []"
proof (rule ccontr)
  assume "evaluate es os gap now \<noteq> []"
  then obtain x where x: "x \<in> set (evaluate es os gap now)"
    by (cases "evaluate es os gap now") auto
  from sound [OF x] assms show False
    by (fastforce simp: due_step_loud_open)
qed

lemma due_step_climbs:
  assumes "due_step L gap now existing = Some (sev, st)"
  shows "rungs_left L (Some \<lparr>of_alert_id = i, of_severity = sev, of_created_at = t\<rparr>)
    < rungs_left L existing"
  using assms ladder_climbs
  by (cases existing)
    (auto simp: due_step_def rung_def severity_for_def Let_def rungs_left_def split: if_splits)

text \<open>However often a standing fault is evaluated, at most two rows are written about it.\<close>

lemma history_bounded:
  assumes "distinct (List.map_filter faulty es)"
  shows "length (filter (\<lambda>x. it_agent x = n) (fault_history evaluate es gap ts os))
    \<le> rungs_left L (dict_get os n)"
proof (induction ts arbitrary: os)
  case (Cons t ts)
  let ?xs = "evaluate es os gap t"
  let ?row = "\<lambda>x. \<lparr>of_alert_id = 0, of_severity = it_severity x, of_created_at = Aware t\<rparr>"
  let ?os = "fold (\<lambda>x. dict_set (it_agent x) (?row x)) ?xs os"
  have d: "distinct (map it_agent ?xs)" by (rule once [OF assms])
  have "length (filter (\<lambda>x. it_agent x = n) ?xs) + rungs_left L (dict_get ?os n)
      \<le> rungs_left L (dict_get os n)"
  proof (cases "find (\<lambda>x. it_agent x = n) ?xs")
    case None
    then have "filter (\<lambda>x. it_agent x = n) ?xs = []"
      by (auto simp: find_None_iff filter_empty_conv)
    with None show ?thesis by (simp add: dict_get_fold_set [OF d])
  next
    case (Some x)
    then have x: "x \<in> set ?xs" "it_agent x = n" by (auto simp: find_Some_iff)
    then have "rungs_left L (Some (?row x)) < rungs_left L (dict_get os n)"
      using sound [OF x(1)] by (intro due_step_climbs) auto
    with Some x show ?thesis
      by (simp add: dict_get_fold_set [OF d] length_filter_distinct_key [OF d])
  qed
  with Cons.IH [of ?os] show ?case by (simp add: Let_def)
qed simp

end

section \<open>The families are ladder families\<close>

definition stalled_name :: "agent_entry \<Rightarrow> string option" where
  "stalled_name e = (if en_name e = [] then None else Some (en_name e))"

definition failing_name :: "int \<Rightarrow> agent_entry \<Rightarrow> string option" where
  "failing_name threshold e =
     (if en_name e = [] \<or> \<not> is_failing threshold e then None else Some (en_name e))"

lemma stalled_name_ne: "stalled_name e = Some n \<Longrightarrow> n \<noteq> []"
  by (auto simp: stalled_name_def split: if_splits)

lemma failing_name_ne: "failing_name th e = Some n \<Longrightarrow> n \<noteq> []"
  by (auto simp: failing_name_def split: if_splits)

lemma stall_for_eq:
  "stall_for os gap now e =
     (case stalled_name e of
        None \<Rightarrow> None
      | Some n \<Rightarrow>
          map_option (\<lambda>(sev, st). \<lparr>sa_agent_name = n, sa_severity = sev, sa_step = st,
             sa_last_run_at = en_last_run_at e, sa_stall_reason = en_stall_reason e,
             sa_seconds_since_last_run = en_seconds_since_last_run e,
             sa_interval_seconds = en_interval_seconds e,
             sa_first_alerted_at = map_option of_created_at (dict_get os n),
             sa_hours_since_first_alert =
               map_option (\<lambda>_. elapsed_hours (dict_get os n) now) (dict_get os n),
             sa_escalate_after_hours = gap\<rparr>)
            (due_step STALL_LADDER gap now (dict_get os n)))"
  by (simp add: stall_for_def stalled_name_def due_step_def rung_def Let_def split: option.splits)

lemma failure_for_eq:
  "failure_for trunc os th gap now e =
     (case failing_name th e of
        None \<Rightarrow> None
      | Some n \<Rightarrow>
          map_option (\<lambda>(sev, st). \<lparr>fa_agent_name = n, fa_severity = sev, fa_step = st,
             fa_consecutive_failures = en_consecutive_failures e,
             fa_last_error = short_error trunc (en_last_error e),
             fa_last_run_at = en_last_run_at e, fa_failure_threshold = th,
             fa_first_alerted_at = map_option of_created_at (dict_get os n),
             fa_hours_since_first_alert =
               map_option (\<lambda>_. elapsed_hours (dict_get os n) now) (dict_get os n),
             fa_escalate_after_hours = gap\<rparr>)
            (due_step FAILURE_LADDER gap now (dict_get os n)))"
  by (simp add: failure_for_def failing_name_def due_step_def rung_def Let_def split: option.splits)

lemma in_set_map_filter: "x \<in> set (List.map_filter f xs) \<longleftrightarrow> (\<exists>e \<in> set xs. f e = Some x)"
  by (force simp: List.map_filter_def)

lemma map_filter_Cons:
  "List.map_filter f (x # xs) =
     (case f x of None \<Rightarrow> List.map_filter f xs | Some y \<Rightarrow> y # List.map_filter f xs)"
  by (simp add: List.map_filter_def split: option.splits)

lemma distinct_map_filter_key:
  assumes "\<And>e y. e \<in> set es \<Longrightarrow> f e = Some y \<Longrightarrow> g e = Some (k y)"
    and "distinct (List.map_filter g es)"
  shows "distinct (map k (List.map_filter f es))"
  using assms
proof (induction es)
  case (Cons e es)
  have sub: "k ` set (List.map_filter f es) \<subseteq> set (List.map_filter g es)"
    using Cons.prems(1) by (force simp: in_set_map_filter)
  show ?case
    using Cons sub by (auto simp: map_filter_Cons split: option.splits)
qed simp

lemma distinct_map_filter_names:
  assumes "\<And>e n. f e = Some n \<Longrightarrow> n = g e" and "distinct (map g es)"
  shows "distinct (List.map_filter f es)"
  using assms(2)
proof (induction es)
  case (Cons e es)
  have "set (List.map_filter f es) \<subseteq> g ` set es"
    using assms(1) by (force simp: in_set_map_filter)
  with Cons assms(1) show ?case by (auto simp: map_filter_Cons split: option.splits)
qed (simp add: List.map_filter_def)

lemma sorted_map_sort_key_comp:
  "(\<And>a. g (f a) = h a) \<Longrightarrow> sorted (map g (map f (sort_key h xs)))"
  by (simp add: comp_def)

definition stall_items ::
  "agent_entry list \<Rightarrow> (string, open_fault) dict \<Rightarrow> rat \<Rightarrow> instant \<Rightarrow> ladder_item list" where
  "stall_items es os gap now = map stall_item (stalls_evaluate es os gap now)"

definition failure_items ::
  "(string \<Rightarrow> nat \<Rightarrow> string) \<Rightarrow> int \<Rightarrow> agent_entry list \<Rightarrow> (string, open_fault) dict \<Rightarrow> rat
     \<Rightarrow> instant \<Rightarrow> ladder_item list" where
  "failure_items trunc th es os gap now = map failure_item (failures_evaluate trunc th es os gap now)"

lemma stall_title_inj: "inj stall_title"
  by (auto simp: inj_def stall_title_def)

lemma failure_title_inj: "inj failure_title"
  by (auto simp: inj_def failure_title_def)

interpretation stall: ladder_family stalled_name stall_items STALL_LADDER stall_title STALL_DETAIL_KEY
proof
  fix es :: "agent_entry list" and os gap now x
  assume "x \<in> set (stall_items es os gap now)"
  then obtain e a where e: "e \<in> set es" "stall_for os gap now e = Some a" "x = stall_item a"
    by (auto simp: stall_items_def stalls_evaluate_def in_set_map_filter)
  then obtain n where n: "stalled_name e = Some n" by (auto simp: stall_for_eq split: option.splits)
  with e(2) have "sa_agent_name a = n"
    "due_step STALL_LADDER gap now (dict_get os n) = Some (sa_severity a, sa_step a)"
    by (auto simp: stall_for_eq)
  with e n stalled_name_ne [OF n] show "(\<exists>e \<in> set es. stalled_name e = Some (it_agent x))
         \<and> due_step STALL_LADDER gap now (dict_get os (it_agent x)) = Some (it_severity x, it_step x)
         \<and> it_title x = stall_title (it_agent x)
         \<and> get_str (it_details x) STALL_DETAIL_KEY = Some (it_agent x)"
    by (auto simp: stall_item_def stall_details_def get_str_def)
next
  fix es :: "agent_entry list" and os gap now e n
  assume "e \<in> set es" "stalled_name e = Some n" "due_step STALL_LADDER gap now (dict_get os n) \<noteq> None"
  then show "\<exists>x \<in> set (stall_items es os gap now). it_agent x = n"
    by (force simp: stall_items_def stalls_evaluate_def in_set_map_filter stall_for_eq stall_item_def)
next
  fix es :: "agent_entry list" and os gap now
  assume d: "distinct (List.map_filter stalled_name es)"
  have "distinct (map sa_agent_name (List.map_filter (stall_for os gap now) es))"
    by (rule distinct_map_filter_key [OF _ d]) (auto simp: stall_for_eq split: option.splits)
  then show "distinct (map it_agent (stall_items es os gap now))"
    by (simp add: stall_items_def stalls_evaluate_def stall_item_def comp_def distinct_map
        inj_on_def)
next
  fix es :: "agent_entry list" and os gap now
  show "sorted (map (\<lambda>x. (it_severity x \<noteq> ''critical'', it_agent x)) (stall_items es os gap now))"
    unfolding stall_items_def stalls_evaluate_def
    by (rule sorted_map_sort_key_comp) (simp add: stall_item_def)
qed (simp_all add: STALL_LADDER_def stall_title_inj)

interpretation failure: ladder_family "failing_name th" "failure_items trunc th" FAILURE_LADDER
  failure_title FAILURE_DETAIL_KEY for trunc th
proof
  fix es :: "agent_entry list" and os gap now x
  assume "x \<in> set (failure_items trunc th es os gap now)"
  then obtain e a where e: "e \<in> set es" "failure_for trunc os th gap now e = Some a" "x = failure_item a"
    by (auto simp: failure_items_def failures_evaluate_def in_set_map_filter)
  then obtain n where n: "failing_name th e = Some n" by (auto simp: failure_for_eq split: option.splits)
  with e(2) have "fa_agent_name a = n"
    "due_step FAILURE_LADDER gap now (dict_get os n) = Some (fa_severity a, fa_step a)"
    by (auto simp: failure_for_eq)
  with e n failing_name_ne [OF n] show "(\<exists>e \<in> set es. failing_name th e = Some (it_agent x))
         \<and> due_step FAILURE_LADDER gap now (dict_get os (it_agent x)) = Some (it_severity x, it_step x)
         \<and> it_title x = failure_title (it_agent x)
         \<and> get_str (it_details x) FAILURE_DETAIL_KEY = Some (it_agent x)"
    by (auto simp: failure_item_def failure_details_def get_str_def)
next
  fix es :: "agent_entry list" and os gap now e n
  assume "e \<in> set es" "failing_name th e = Some n"
    "due_step FAILURE_LADDER gap now (dict_get os n) \<noteq> None"
  then show "\<exists>x \<in> set (failure_items trunc th es os gap now). it_agent x = n"
    by (force simp: failure_items_def failures_evaluate_def in_set_map_filter failure_for_eq
        failure_item_def)
next
  fix es :: "agent_entry list" and os gap now
  assume d: "distinct (List.map_filter (failing_name th) es)"
  have "distinct (map fa_agent_name (List.map_filter (failure_for trunc os th gap now) es))"
    by (rule distinct_map_filter_key [OF _ d]) (auto simp: failure_for_eq split: option.splits)
  then show "distinct (map it_agent (failure_items trunc th es os gap now))"
    by (simp add: failure_items_def failures_evaluate_def failure_item_def comp_def distinct_map
        inj_on_def)
next
  fix es :: "agent_entry list" and os gap now
  show "sorted (map (\<lambda>x. (it_severity x \<noteq> ''critical'', it_agent x))
      (failure_items trunc th es os gap now))"
    unfolding failure_items_def failures_evaluate_def
    by (rule sorted_map_sort_key_comp) (simp add: failure_item_def)
qed (simp_all add: FAILURE_LADDER_def failure_title_inj)

section \<open>Properties\<close>

definition ex_entry :: agent_entry where
  "ex_entry =
     \<lparr>en_name = ''log_aggregator'', en_enabled = True, en_job_id = ''log_aggregator_poll'',
      en_interval_seconds = 60, en_stall_window_seconds = 600, en_last_run_at = Some ''1970-01-01'',
      en_last_status = ''completed'', en_last_run_type = Some ''scheduled'',
      en_last_duration_seconds = Some 2, en_seconds_since_last_run = Some 100000,
      en_expected_next_run_at = None, en_runs_considered = 1, en_consecutive_failures = 0,
      en_last_error = None, en_recent_durations = [2], en_mean_duration_seconds = Some 2,
      en_duration_trend = ''stable'', en_stalled = True, en_stall_reason = Some ''no run''\<rparr>"

definition ex_failing_entry :: agent_entry where
  "ex_failing_entry = ex_entry\<lparr>en_stalled := False, en_consecutive_failures := 3\<rparr>"

text \<open>
  However often a standing stall is evaluated, at whatever moments, at most two rows are ever
  written about one agent: one on the quiet rung and one on the loud one.
\<close>

theorem stall_at_most_two_rows:
  assumes "distinct (map en_name es)"
  shows "length (filter (\<lambda>x. it_agent x = n) (fault_history stall_items es gap ts [])) \<le> 2"
proof -
  have "distinct (List.map_filter stalled_name es)"
    by (rule distinct_map_filter_names [OF _ assms]) (simp add: stalled_name_def split: if_splits)
  from stall.history_bounded [OF this, of n gap ts "[]"] show ?thesis
    by (simp add: rungs_left_def)
qed

theorem stall_at_most_two_rows_witness:
  "length (filter (\<lambda>x. it_agent x = ''log_aggregator'')
     (fault_history stall_items [ex_entry] 6 [0, 3600 * us_per_second, 90000 * us_per_second] [])) \<le> 2"
  by (rule stall_at_most_two_rows) simp

text \<open>
  The same for a standing failure: at most two rows about one agent, however often its runs
  fail and are evaluated.
\<close>

theorem failure_at_most_two_rows:
  assumes "distinct (map en_name es)"
  shows "length (filter (\<lambda>x. it_agent x = n) (fault_history (failure_items trunc th) es gap ts [])) \<le> 2"
proof -
  have "distinct (List.map_filter (failing_name th) es)"
    by (rule distinct_map_filter_names [OF _ assms]) (simp add: failing_name_def split: if_splits)
  from failure.history_bounded [OF this, of n trunc gap ts "[]"] show ?thesis
    by (simp add: rungs_left_def)
qed

theorem failure_at_most_two_rows_witness:
  "length (filter (\<lambda>x. it_agent x = ''log_aggregator'')
     (fault_history (failure_items (\<lambda>s n. take n s) 3) [ex_failing_entry] 6
        [0, 3600 * us_per_second, 90000 * us_per_second] [])) \<le> 2"
  by (rule failure_at_most_two_rows) simp



text \<open>
  An agent is reported failing exactly when it is enabled, not stalled and at or over the
  threshold, so that no agent is in both families at once.
\<close>

theorem failing_excludes_stalled:
  "List.map_filter (failing_name th) es =
     map en_name (filter (\<lambda>e. en_name e \<noteq> [] \<and> en_enabled e \<and> \<not> en_stalled e
       \<and> th \<le> int (en_consecutive_failures e)) es)
   \<and> (distinct (map en_name es) \<longrightarrow>
       set (map it_agent (failure_items trunc th es os gap now))
       \<inter> set (map it_agent (stall_items (filter en_stalled es) os' gap' now')) = {})"
proof -
  have "List.map_filter (failing_name th) es =
     map en_name (filter (\<lambda>e. en_name e \<noteq> [] \<and> en_enabled e \<and> \<not> en_stalled e
       \<and> th \<le> int (en_consecutive_failures e)) es)"
    by (induction es) (auto simp: map_filter_Cons failing_name_def is_failing_def)
  moreover have "\<not> (x \<in> set (failure_items trunc th es os gap now)
      \<and> y \<in> set (stall_items (filter en_stalled es) os' gap' now') \<and> it_agent x = it_agent y)"
    if "distinct (map en_name es)" for x y
  proof
    assume xy: "x \<in> set (failure_items trunc th es os gap now)
      \<and> y \<in> set (stall_items (filter en_stalled es) os' gap' now') \<and> it_agent x = it_agent y"
    obtain e where e: "e \<in> set es" "failing_name th e = Some (it_agent x)"
      using failure.sound xy by blast
    obtain f where f: "f \<in> set (filter en_stalled es)" "stalled_name f = Some (it_agent y)"
      using stall.sound xy by blast
    have "en_name e = en_name f"
      using e(2) f(2) xy by (auto simp: failing_name_def stalled_name_def split: if_splits)
    then have "e = f" using that e(1) f(1) by (auto simp: distinct_map inj_on_def)
    with e f show False by (auto simp: failing_name_def is_failing_def split: if_splits)
  qed
  ultimately show ?thesis by fastforce
qed

theorem failing_excludes_stalled_witness:
  "List.map_filter (failing_name 3) [ex_failing_entry] = [''log_aggregator'']"
  using failing_excludes_stalled [of 3 "[ex_failing_entry]"]
  by (simp add: ex_failing_entry_def ex_entry_def)

end
