(* ===== verification/Agent_Health.thy ===== *)
theory Agent_Health
  imports Ladder_Families
begin

text \<open>
  \<open>SysAdminAgent._check_agent_health\<close> and the two checks it calls
  (\<open>sysadmin/monitor/agent.py\<close>): the ladder families applied to the alerts table. The
  lemmas extend the locale \<open>ladder_family\<close>: whatever the family, after its check every fault
  the report names has exactly one open row, no other fault has one, and no write is refused
  by the database.
\<close>

section \<open>Reading and closing rows\<close>

definition active_alerts :: "string \<Rightarrow> session \<Rightarrow> alert list" where
  "active_alerts name s = filter (\<lambda>a. al_agent a = name \<and> unresolved a) (rows s)"

definition resolve_alert_ids :: "instant \<Rightarrow> nat list \<Rightarrow> session \<Rightarrow> session" where
  "resolve_alert_ids now ids s =
     (if ids = [] then s else s\<lparr>rows := close_where (\<lambda>a. al_id a \<in> set ids) now (rows s)\<rparr>)"

lemma resolve_alert_ids_eq:
  "resolve_alert_ids now ids s = s\<lparr>rows := close_where (\<lambda>a. al_id a \<in> set ids) now (rows s)\<rparr>"
  by (simp add: resolve_alert_ids_def close_where_def)

text \<open>
  The family's open rows by the fault they name: the loop that fills \<open>open_stalls\<close> and
  \<open>open_failures\<close> from the active alerts.
\<close>

definition open_by_key :: "string \<Rightarrow> alert list \<Rightarrow> (string, alert) dict" where
  "open_by_key key active =
     fold (\<lambda>a d. case get_str (al_details a) key of None \<Rightarrow> d | Some n \<Rightarrow> dict_set n a d) active []"

definition fault_of :: "alert \<Rightarrow> open_fault" where
  "fault_of a =
     \<lparr>of_alert_id = al_id a, of_severity = al_severity a, of_created_at = Aware (al_created_at a)\<rparr>"

definition faults_of :: "(string, alert) dict \<Rightarrow> (string, open_fault) dict" where
  "faults_of d = map (map_prod id fault_of) d"

section \<open>Writing what is due\<close>

text \<open>
  The loop over the due items, the same in both checks: an escalation closes the quiet row
  first, then a row is raised for the item.
\<close>

fun write_due ::
  "string \<Rightarrow> instant \<Rightarrow> (string, alert) dict \<Rightarrow> ladder_item list \<Rightarrow> nat \<Rightarrow> nat \<Rightarrow> session
     \<Rightarrow> py_error + (nat \<times> nat) \<times> session" where
  "write_due name now opens [] raised escalated s = Inr ((raised, escalated), s)"
| "write_due name now opens (x # xs) raised escalated s =
     (case (if it_step x = ESCALATE
            then (case dict_get opens (it_agent x) of
                    None \<Rightarrow> Inl (OtherError ''KeyError'')
                  | Some quiet_row \<Rightarrow>
                      Inr (s\<lparr>rows := close_where (\<lambda>a. al_id a = al_id quiet_row) now (rows s)\<rparr>))
            else Inr s) of
        Inl e \<Rightarrow> Inl e
      | Inr s1 \<Rightarrow>
          (case raise_alert name (it_severity x) (it_title x) (Some (it_message x))
                  (Some (it_details x)) s1 of
             Inl e \<Rightarrow> Inl e
           | Inr (a, s2) \<Rightarrow>
               (if it_step x = ESCALATE
                then write_due name now opens xs raised (Suc escalated) s2
                else write_due name now opens xs (Suc raised) escalated s2)))"

text \<open>The rest of a check: the rows of the faults that are gone are closed.\<close>

definition apply_family ::
  "string \<Rightarrow> instant \<Rightarrow> (string, alert) dict \<Rightarrow> string list \<Rightarrow> ladder_item list \<Rightarrow> session
     \<Rightarrow> py_error + (nat \<times> nat) \<times> session" where
  "apply_family name now opens faulty due s =
     (case write_due name now opens due 0 0 s of
        Inl e \<Rightarrow> Inl e
      | Inr (counts, s') \<Rightarrow>
          Inr (counts,
               resolve_alert_ids now
                 (map (\<lambda>(n, a). al_id a) (filter (\<lambda>(n, a). n \<notin> set faulty) opens)) s'))"

record health_counts =
  hc_found :: nat
  hc_raised :: nat
  hc_escalated :: nat

definition check_agent_liveness ::
  "string \<Rightarrow> instant \<Rightarrow> self_monitor_config \<Rightarrow> self_report \<Rightarrow> alert list \<Rightarrow> session
     \<Rightarrow> py_error + (health_counts \<times> nat) \<times> session" where
  "check_agent_liveness name now cfg report active s =
     (let stalled = fold (\<lambda>e. dict_set (en_name e) e) (filter en_stalled (rep_agents report)) [];
          open_stalls = open_by_key STALL_DETAIL_KEY active;
          due = stall_items (map snd stalled) (faults_of open_stalls) (sm_escalate_after_hours cfg) now
      in case apply_family name now open_stalls (map fst stalled) due s of
           Inl e \<Rightarrow> Inl e
         | Inr ((raised, escalated), s') \<Rightarrow>
             Inr ((\<lparr>hc_found = length stalled, hc_raised = raised, hc_escalated = escalated\<rparr>,
                   raised + escalated), s'))"

definition check_agent_failures ::
  "(string \<Rightarrow> nat \<Rightarrow> string) \<Rightarrow> string \<Rightarrow> instant \<Rightarrow> self_monitor_config \<Rightarrow> self_report \<Rightarrow> alert list
     \<Rightarrow> session \<Rightarrow> py_error + (health_counts \<times> nat) \<times> session" where
  "check_agent_failures trunc name now cfg report active s =
     (let threshold = sm_failure_alert_threshold cfg;
          entries = rep_agents report;
          failing = remdups (map en_name (filter (is_failing threshold) entries));
          open_failures = open_by_key FAILURE_DETAIL_KEY active;
          due = failure_items trunc threshold entries (faults_of open_failures)
                  (sm_escalate_after_hours cfg) now
      in case apply_family name now open_failures failing due s of
           Inl e \<Rightarrow> Inl e
         | Inr ((raised, escalated), s') \<Rightarrow>
             Inr ((\<lparr>hc_found = length failing, hc_raised = raised, hc_escalated = escalated\<rparr>,
                   raised + escalated), s'))"

definition no_counts :: health_counts where
  "no_counts = \<lparr>hc_found = 0, hc_raised = 0, hc_escalated = 0\<rparr>"

text \<open>
  Both checks off one snapshot of the tables. The result is the number of rows written, with
  the counts of the two families.
\<close>

definition check_agent_health ::
  "(string \<Rightarrow> nat \<Rightarrow> string) \<Rightarrow> string \<Rightarrow> instant \<Rightarrow> agents_config \<Rightarrow> self_monitor_config
     \<Rightarrow> agent_run list \<Rightarrow> session
     \<Rightarrow> py_error + (health_counts \<times> health_counts \<times> nat) \<times> session" where
  "check_agent_health trunc name now agents cfg runs s =
     (if \<not> sm_enabled cfg then Inr ((no_counts, no_counts, 0), s)
      else
        (let report = build_self_report agents cfg runs now;
             active = active_alerts name s
         in case check_agent_liveness name now cfg report active s of
              Inl e \<Rightarrow> Inl e
            | Inr ((stalls, w1), s1) \<Rightarrow>
                (case check_agent_failures trunc name now cfg report active s1 of
                   Inl e \<Rightarrow> Inl e
                 | Inr ((fails, w2), s2) \<Rightarrow> Inr ((stalls, fails, w1 + w2), s2))))"

section \<open>The rows of a family\<close>

definition fam_open :: "string \<Rightarrow> string \<Rightarrow> session \<Rightarrow> string \<Rightarrow> alert \<Rightarrow> bool" where
  "fam_open name key s n a =
     (a \<in> set (rows s) \<and> al_agent a = name \<and> unresolved a \<and> get_str (al_details a) key = Some n)"

text \<open>
  The title and the detail key of an open row of the family name the same fault.
\<close>

definition family_inv :: "string \<Rightarrow> string \<Rightarrow> (string \<Rightarrow> string) \<Rightarrow> session \<Rightarrow> bool" where
  "family_inv name key title s =
     (\<forall>a \<in> set (rows s). al_agent a = name \<longrightarrow> unresolved a \<longrightarrow>
        (\<forall>n. get_str (al_details a) key = Some n \<longleftrightarrow> n \<noteq> [] \<and> al_title a = title n))"

lemma get_str_ne: "get_str d k = Some n \<Longrightarrow> n \<noteq> []"
  by (auto simp: get_str_def split: option.splits json.splits if_splits)

lemma fam_open_unique:
  assumes "session_ok s" "family_inv name key title s" "fam_open name key s n a" "fam_open name key s n b"
  shows "a = b"
proof -
  have "alert_key a = alert_key b"
    using assms(2-4) by (auto simp: fam_open_def family_inv_def alert_key_def)
  moreover have "inj_on alert_key (set (filter unresolved (rows s)))"
    using assms(1) by (simp add: session_ok_def schema_ok_def uq_alerts_open_agent_title_def distinct_map)
  ultimately show ?thesis
    using assms(3,4) by (auto simp: fam_open_def inj_on_def)
qed

lemma fam_open_same_row:
  assumes "session_ok s" "family_inv name key title s" "fam_open name key s n q"
  shows "fam_open name key s m b \<and> al_id b \<noteq> al_id q \<longleftrightarrow> m \<noteq> n \<and> fam_open name key s m b"
proof -
  have "b = q" if "fam_open name key s m b" "al_id b = al_id q"
    using that assms(3) by (intro unique_id [OF assms(1)]) (auto simp: fam_open_def)
  moreover have "m = n" if "fam_open name key s m q"
    using that assms(3) by (simp add: fam_open_def)
  moreover have "b = q" if "fam_open name key s n b"
    by (rule fam_open_unique [OF assms(1,2) that assms(3)])
  ultimately show ?thesis by blast
qed

definition opens_ok :: "string \<Rightarrow> string \<Rightarrow> (string, alert) dict \<Rightarrow> session \<Rightarrow> bool" where
  "opens_ok name key opens s = (\<forall>n a. dict_get opens n = Some a \<longleftrightarrow> fam_open name key s n a)"

lemma open_by_key_fold:
  assumes "\<And>a b n. a \<in> set active \<Longrightarrow> b \<in> set active \<Longrightarrow> get_str (al_details a) key = Some n
      \<Longrightarrow> get_str (al_details b) key = Some n \<Longrightarrow> a = b"
    and "\<And>a n. a \<in> set active \<Longrightarrow> get_str (al_details a) key = Some n \<Longrightarrow>
      dict_get d n = None \<or> dict_get d n = Some a"
  shows "dict_get (fold (\<lambda>a d. case get_str (al_details a) key of None \<Rightarrow> d | Some n \<Rightarrow> dict_set n a d)
      active d) n = Some a
    \<longleftrightarrow> dict_get d n = Some a \<or> (a \<in> set active \<and> get_str (al_details a) key = Some n)"
  using assms
proof (induction active arbitrary: d)
  case (Cons b active)
  let ?d = "case get_str (al_details b) key of None \<Rightarrow> d | Some n \<Rightarrow> dict_set n b d"
  have p2: "dict_get ?d m = None \<or> dict_get ?d m = Some c"
    if "c \<in> set active" "get_str (al_details c) key = Some m" for c m
    using Cons.prems(1) [of b c m] Cons.prems(2) [of c m] that by (auto split: option.splits)
  have p1: "c = e" if "c \<in> set active" "e \<in> set active"
    "get_str (al_details c) key = Some m" "get_str (al_details e) key = Some m" for c e m
    using Cons.prems(1) [of c e m] that by simp
  have "dict_get (fold (\<lambda>a d. case get_str (al_details a) key of None \<Rightarrow> d | Some n \<Rightarrow> dict_set n a d)
      active ?d) n = Some a
    \<longleftrightarrow> dict_get ?d n = Some a \<or> (a \<in> set active \<and> get_str (al_details a) key = Some n)"
    by (rule Cons.IH) (fact p1, fact p2)
  moreover have "dict_get ?d n = Some a \<longleftrightarrow>
      dict_get d n = Some a \<or> (a = b \<and> get_str (al_details b) key = Some n)"
    using Cons.prems(2) [of b n] by (auto split: option.splits)
  ultimately show ?case by auto
qed simp

lemma opens_ok_open_by_key:
  assumes "session_ok s" and "family_inv name key title s"
  shows "opens_ok name key (open_by_key key (active_alerts name s)) s"
proof -
  have "a = b" if "a \<in> set (active_alerts name s)" "b \<in> set (active_alerts name s)"
    "get_str (al_details a) key = Some n" "get_str (al_details b) key = Some n" for a b n
    using that by (intro fam_open_unique [OF assms]) (auto simp: fam_open_def active_alerts_def)
  then show ?thesis
    unfolding opens_ok_def open_by_key_def
    by (subst open_by_key_fold) (auto simp: fam_open_def active_alerts_def)
qed

lemma dict_wf_open_by_key: "dict_wf (open_by_key key active)"
proof -
  have "dict_wf d \<Longrightarrow> dict_wf (fold (\<lambda>a d. case get_str (al_details a) key of None \<Rightarrow> d
      | Some n \<Rightarrow> dict_set n a d) active d)" for d :: "(string, alert) dict"
    by (induction active arbitrary: d) (auto split: option.splits)
  then show ?thesis by (simp add: open_by_key_def)
qed

lemma dict_get_iff_mem: "dict_wf d \<Longrightarrow> dict_get d n = Some a \<longleftrightarrow> (n, a) \<in> set d"
  by (simp add: dict_wf_def dict_get_def)

lemma dict_get_faults_of [simp]: "dict_get (faults_of d) n = map_option fault_of (dict_get d n)"
  by (induction d) (auto simp: faults_of_def dict_get_def)

lemma fam_open_close:
  "fam_open name key (s\<lparr>rows := close_where P now (rows s)\<rparr>) n a \<longleftrightarrow> fam_open name key s n a \<and> \<not> P a"
  by (auto simp: fam_open_def set_close_where)

lemma family_inv_close:
  "family_inv name key title s \<Longrightarrow> family_inv name key title (s\<lparr>rows := close_where P now (rows s)\<rparr>)"
  by (auto simp: family_inv_def set_close_where)

section \<open>Every family's check\<close>

text \<open>Raising a row for a fault of a family that has none.\<close>

lemma raise_member:
  assumes "session_ok s" and inv: "family_inv name key title s" and "name \<in> set alert_agents" and "inj title"
    and "known_severity sev" and d: "get_str d key = Some n" and "py_len (title n) \<le> 255"
    and none: "\<And>a. \<not> fam_open name key s n a"
  obtains a s' where "raise_alert name sev (title n) m (Some d) s = Inr (a, s')"
    and "session_ok s'" and "family_inv name key title s'" and "al_severity a = sev"
    and "\<And>k b. fam_open name key s' k b \<longleftrightarrow> fam_open name key s k b \<or> (k = n \<and> b = a)"
proof -
  let ?a = "new_alert name sev (title n) m (Some d) s"
  have n: "n \<noteq> []" using d by (rule get_str_ne)
  have "al_title b \<noteq> title n" if "b \<in> set (rows s)" "al_agent b = name" "unresolved b" for b
    using none [of b] inv that n by (auto simp: fam_open_def family_inv_def)
  then obtain s' where s': "raise_alert name sev (title n) m (Some d) s = Inr (?a, s')"
    using raise_alert_succeeds [OF assms(3,5,7)] by blast
  define a where "a = ?a"
  note r = raise_alert_Inr [OF s', folded a_def]
  have a: "al_agent a = name" "unresolved a" "al_severity a = sev"
    "get_str (al_details a) key = Some n" "al_title a = title n"
    using d by (simp_all add: a_def)
  have "family_inv name key title s'"
    using inv a n inj_eq [OF assms(4)] by (auto simp: family_inv_def r(3))
  moreover have "fam_open name key s' k b \<longleftrightarrow> fam_open name key s k b \<or> (k = n \<and> b = a)" for k b
    using a by (auto simp: fam_open_def r(3))
  ultimately show ?thesis
    using s' a own_effect_ok [OF raise_alert_effect [OF s'] assms(1)]
    by (intro that [of a s']) (auto simp: a_def)
qed

text \<open>Closing the rows of the faults outside \<open>F\<close>, whose ids are those in the dict of open rows.\<close>

lemma close_gone:
  assumes ok: "session_ok s'" and wf: "dict_wf opens"
    and gone: "\<And>n a. n \<notin> F \<Longrightarrow> dict_get opens n = Some a \<longleftrightarrow> fam_open name key s' n a"
  shows "fam_open name key (s'\<lparr>rows := close_where (\<lambda>a. al_id a \<in>
      set (map (\<lambda>(n, a). al_id a) (filter (\<lambda>(n, a). n \<notin> F) opens))) now (rows s')\<rparr>) n a
    \<longleftrightarrow> n \<in> F \<and> fam_open name key s' n a"
proof -
  have "al_id a \<in> set (map (\<lambda>(n, a). al_id a) (filter (\<lambda>(n, a). n \<notin> F) opens)) \<longleftrightarrow> n \<notin> F"
    if a: "fam_open name key s' n a"
  proof
    assume "al_id a \<in> set (map (\<lambda>(n, a). al_id a) (filter (\<lambda>(n, a). n \<notin> F) opens))"
    then obtain m b where b: "m \<notin> F" "dict_get opens m = Some b" "al_id a = al_id b"
      by (auto simp: dict_get_iff_mem [OF wf])
    then have "fam_open name key s' m b" using gone by blast
    moreover from this have "a = b"
      using a b(3) by (intro unique_id [OF ok]) (auto simp: fam_open_def)
    ultimately have "m = n" using a by (simp add: fam_open_def)
    with b show "n \<notin> F" by simp
  next
    assume n: "n \<notin> F"
    with a have "(n, a) \<in> set opens" by (simp add: gone [symmetric] dict_get_iff_mem [OF wf])
    with n show "al_id a \<in> set (map (\<lambda>(n, a). al_id a) (filter (\<lambda>(n, a). n \<notin> F) opens))"
      by force
  qed
  then show ?thesis by (auto simp: fam_open_close)
qed

text \<open>What an item needs of the table before it is written.\<close>

definition item_ready :: "string \<Rightarrow> string \<Rightarrow> (string, alert) dict \<Rightarrow> session \<Rightarrow> ladder_item \<Rightarrow> bool" where
  "item_ready name key opens s x =
     (case it_step x of
        RAISE \<Rightarrow> (\<forall>a. \<not> fam_open name key s (it_agent x) a)
      | ESCALATE \<Rightarrow> (\<exists>a. dict_get opens (it_agent x) = Some a \<and> fam_open name key s (it_agent x) a)
      | HOLD \<Rightarrow> False)"

context ladder_family
begin

definition item_ok :: "ladder_item \<Rightarrow> bool" where
  "item_ok x =
     (known_severity (it_severity x) \<and> it_title x = title (it_agent x)
      \<and> get_str (it_details x) key = Some (it_agent x) \<and> py_len (title (it_agent x)) \<le> 255)"

lemma raise_item:
  assumes "session_ok s" and inv: "family_inv name key title s" and "name \<in> set alert_agents"
    and x: "item_ok x" and none: "\<And>a. \<not> fam_open name key s (it_agent x) a"
  obtains a s' where "raise_alert name (it_severity x) (it_title x) (Some (it_message x))
      (Some (it_details x)) s = Inr (a, s')"
    and "session_ok s'" and "family_inv name key title s'" and "al_severity a = it_severity x"
    and "\<And>m b. fam_open name key s' m b \<longleftrightarrow> fam_open name key s m b \<or> (m = it_agent x \<and> b = a)"
  using raise_member [OF assms(1-3) title_inj, of "it_severity x" "it_details x" "it_agent x"
      "Some (it_message x)"] x none that by (auto simp: item_ok_def)

lemma write_due_ok:
  assumes "session_ok s" and "family_inv name key title s" and nm: "name \<in> set alert_agents"
    and "distinct (map it_agent xs)" and "\<And>x. x \<in> set xs \<Longrightarrow> item_ok x"
    and "\<And>x. x \<in> set xs \<Longrightarrow> item_ready name key opens s x"
  shows "\<exists>r e s'. write_due name now opens xs raised escalated s = Inr ((r, e), s')
    \<and> session_ok s' \<and> family_inv name key title s'
    \<and> r + e = raised + escalated + length xs
    \<and> (\<forall>n. n \<notin> it_agent ` set xs \<longrightarrow> fam_open name key s' n = fam_open name key s n)
    \<and> (\<forall>x \<in> set xs. \<exists>a. fam_open name key s' (it_agent x) a \<and> al_severity a = it_severity x)"
  using assms
proof (induction xs arbitrary: s raised escalated)
  case (Cons x xs)
  let ?n = "it_agent x"
  have ready: "item_ready name key opens s x" and xok: "item_ok x" using Cons.prems by auto
  obtain s1 where s1: "(if it_step x = ESCALATE
            then (case dict_get opens ?n of
                    None \<Rightarrow> Inl (OtherError ''KeyError'')
                  | Some q \<Rightarrow> Inr (s\<lparr>rows := close_where (\<lambda>a. al_id a = al_id q) now (rows s)\<rparr>))
            else Inr s) = (Inr s1 :: py_error + session)"
    and ok1: "session_ok s1" and inv1: "family_inv name key title s1"
    and fo1: "\<And>m b. fam_open name key s1 m b \<longleftrightarrow> m \<noteq> ?n \<and> fam_open name key s m b"
  proof (cases "it_step x")
    case ESCALATE
    then obtain q where q: "dict_get opens ?n = Some q" "fam_open name key s ?n q"
      using ready by (auto simp: item_ready_def)
    let ?s1 = "s\<lparr>rows := close_where (\<lambda>a. al_id a = al_id q) now (rows s)\<rparr>"
    have "fam_open name key ?s1 m b \<longleftrightarrow> m \<noteq> ?n \<and> fam_open name key s m b" for m b
      unfolding fam_open_close by (rule fam_open_same_row [OF Cons.prems(1,2) q(2)])
    moreover have "session_ok ?s1"
      using Cons.prems(1) by (rule session_ok_close_where) simp_all
    ultimately show ?thesis
      using ESCALATE q Cons.prems(2) by (intro that [of ?s1]) (auto intro: family_inv_close)
  next
    case RAISE
    then show ?thesis
      using ready Cons.prems(1,2) by (intro that [of s]) (auto simp: item_ready_def)
  next
    case HOLD
    with ready show ?thesis by (simp add: item_ready_def)
  qed
  obtain a s2 where s2: "raise_alert name (it_severity x) (it_title x) (Some (it_message x))
      (Some (it_details x)) s1 = Inr (a, s2)"
    and ok2: "session_ok s2" and inv2: "family_inv name key title s2" and asev: "al_severity a = it_severity x"
    and fo2: "\<And>m b. fam_open name key s2 m b \<longleftrightarrow> fam_open name key s1 m b \<or> (m = ?n \<and> b = a)"
    using raise_item [OF ok1 inv1 nm xok] fo1 by blast
  have same: "fam_open name key s2 m = fam_open name key s m" if "m \<noteq> ?n" for m
    using that fo1 fo2 by (auto simp: fun_eq_iff)
  have "item_ready name key opens s2 y" if "y \<in> set xs" for y
  proof -
    have "it_agent y \<noteq> ?n" using that Cons.prems(4) by (auto simp: image_iff)
    then show ?thesis
      using Cons.prems(6) [of y] that same by (auto simp: item_ready_def split: Step.splits)
  qed
  then obtain r e s' where w: "write_due name now opens xs
        (if it_step x = ESCALATE then raised else Suc raised)
        (if it_step x = ESCALATE then Suc escalated else escalated) s2 = Inr ((r, e), s')"
    and "session_ok s'" "family_inv name key title s'"
    and len: "r + e = Suc (raised + escalated + length xs)"
    and rest: "\<forall>n. n \<notin> it_agent ` set xs \<longrightarrow> fam_open name key s' n = fam_open name key s2 n"
    and fin: "\<forall>x \<in> set xs. \<exists>a. fam_open name key s' (it_agent x) a \<and> al_severity a = it_severity x"
    using Cons.IH [OF ok2 inv2 nm, of "if it_step x = ESCALATE then raised else Suc raised"
        "if it_step x = ESCALATE then Suc escalated else escalated"] Cons.prems(4,5) by fastforce
  moreover have "write_due name now opens (x # xs) raised escalated s = Inr ((r, e), s')"
    using s1 s2 w by (simp split: if_splits)
  moreover have "fam_open name key s' ?n a \<and> al_severity a = it_severity x"
  proof -
    have "?n \<notin> it_agent ` set xs" using Cons.prems(4) by simp
    then show ?thesis using rest fo2 asev by auto
  qed
  ultimately show ?case using same by (intro exI [of _ r] exI [of _ e] exI [of _ s']) auto
qed auto


lemma items_ok:
  assumes "x \<in> set (evaluate es os gap now)" and "known_severity (quiet L)" and "known_severity (loud L)"
    and "\<And>e n. e \<in> set es \<Longrightarrow> faulty e = Some n \<Longrightarrow> py_len (title n) \<le> 255"
  shows "item_ok x"
  using sound [OF assms(1)] assms(2-4)
  by (auto simp: item_ok_def due_step_def rung_def severity_for_def Let_def split: if_splits)

lemma items_ready:
  assumes "x \<in> set (evaluate es (faults_of opens) gap now)" and o: "opens_ok name key opens s"
  shows "item_ready name key opens s x"
proof (cases "dict_get opens (it_agent x)")
  case None
  have "it_step x = RAISE"
    using sound [OF assms(1)] None
    by (auto simp: due_step_def Let_def split: option.splits if_splits)
  moreover have "\<not> fam_open name key s (it_agent x) a" for a
    using o None by (metis opens_ok_def option.distinct(1))
  ultimately show ?thesis by (simp add: item_ready_def)
next
  case (Some a)
  have "it_step x = ESCALATE"
    using sound [OF assms(1)] Some step_for_RAISE_iff evaluate_never_holds [OF assms(1)]
    by (cases "it_step x") (auto simp: due_step_def Let_def split: option.splits if_splits)
  then show ?thesis using Some o by (auto simp: item_ready_def opens_ok_def)
qed

lemma due_of_faulty:
  assumes "n \<in> set (List.map_filter faulty es)"
    and "n \<notin> it_agent ` set (evaluate es (faults_of opens) gap now)"
  shows "due_step L gap now (map_option fault_of (dict_get opens n)) = None"
proof -
  from assms(1) obtain e where "e \<in> set es" "faulty e = Some n" by (auto simp: in_set_map_filter)
  with complete [of e es n gap now "faults_of opens"] assms(2) show ?thesis by force
qed

lemma due_step_None_open:
  "due_step L gap now existing = None \<Longrightarrow> existing \<noteq> None"
  by (cases existing) (auto simp: due_step_def rung_def severity_for_def elapsed_hours_def Let_def split: if_splits)

lemma write_due_family:
  assumes ok: "session_ok s" and inv: "family_inv name key title s" and nm: "name \<in> set alert_agents"
    and o: "opens_ok name key opens s" and d: "distinct (List.map_filter faulty es)"
    and sev: "known_severity (quiet L)" "known_severity (loud L)"
    and fit: "\<And>n. n \<in> set (List.map_filter faulty es) \<Longrightarrow> py_len (title n) \<le> 255"
  obtains r e s' where "write_due name now opens (evaluate es (faults_of opens) gap now) 0 0 s = Inr ((r, e), s')"
    and "session_ok s'" and "family_inv name key title s'"
    and "\<And>n. n \<notin> set (List.map_filter faulty es) \<Longrightarrow> fam_open name key s' n = fam_open name key s n"
    and "\<And>n. n \<in> set (List.map_filter faulty es) \<Longrightarrow> \<exists>a. fam_open name key s' n a \<and>
      (\<forall>sv. rung L gap now (map_option fault_of (dict_get opens n)) = Some sv \<longrightarrow>
        severity_rank sv \<le> severity_rank (al_severity a))"
proof -
  let ?xs = "evaluate es (faults_of opens) gap now" and ?F = "set (List.map_filter faulty es)"
  have "item_ok x" if "x \<in> set ?xs" for x
    using fit by (intro items_ok [OF that sev]) (auto simp: in_set_map_filter)
  then obtain r e s' where w: "write_due name now opens ?xs 0 0 s = Inr ((r, e), s')"
    and s': "session_ok s'" "family_inv name key title s'"
    and old: "\<And>n. n \<notin> it_agent ` set ?xs \<Longrightarrow> fam_open name key s' n = fam_open name key s n"
    and new: "\<And>x. x \<in> set ?xs \<Longrightarrow>
      \<exists>a. fam_open name key s' (it_agent x) a \<and> al_severity a = it_severity x"
    using write_due_ok [OF ok inv nm once [OF d], of "faults_of opens" gap now opens now 0 0]
      items_ready [OF _ o] by blast
  have xF: "n \<in> ?F" if "n \<in> it_agent ` set ?xs" for n
    using that sound by (fastforce simp: in_set_map_filter)
  have "\<exists>a. fam_open name key s' n a \<and>
      (\<forall>sv. rung L gap now (map_option fault_of (dict_get opens n)) = Some sv \<longrightarrow>
        severity_rank sv \<le> severity_rank (al_severity a))" if "n \<in> ?F" for n
  proof (cases "n \<in> it_agent ` set ?xs")
    case True
    then obtain x a where x: "x \<in> set ?xs" "n = it_agent x"
      and a: "fam_open name key s' n a" "al_severity a = it_severity x" using new by blast
    have "rung L gap now (map_option fault_of (dict_get opens n)) = Some (it_severity x)"
      using sound [OF x(1)] x(2) by (auto simp: due_step_def Let_def split: option.splits if_splits)
    with a show ?thesis by auto
  next
    case False
    note none = due_of_faulty [OF that False]
    from due_step_None_open [OF none] obtain a where a: "dict_get opens n = Some a" by auto
    then have "fam_open name key s' n a" using old [OF False] o by (auto simp: opens_ok_def)
    with none a show ?thesis by (auto simp: due_step_def Let_def fault_of_def split: if_splits)
  qed
  with w s' old xF show ?thesis by (intro that [of r e s']) blast+
qed

text \<open>
  The check of a family: no write is refused, the faults with an open row afterwards are the
  faults of the report, and the row of each is at least as loud as the rung it is on.
\<close>

lemma apply_family_ok:
  assumes ok: "session_ok s" and inv: "family_inv name key title s" and nm: "name \<in> set alert_agents"
    and o: "opens_ok name key opens s" and wf: "dict_wf opens"
    and d: "distinct (List.map_filter faulty es)" and F: "set F = set (List.map_filter faulty es)"
    and sev: "known_severity (quiet L)" "known_severity (loud L)"
    and fit: "\<And>n. n \<in> set F \<Longrightarrow> py_len (title n) \<le> 255"
  obtains r e s' where
    "apply_family name now opens F (evaluate es (faults_of opens) gap now) s = Inr ((r, e), s')"
    and "session_ok s'" and "family_inv name key title s'"
    and "\<And>n a. n \<notin> set F \<Longrightarrow> \<not> fam_open name key s' n a"
    and "\<And>n. n \<in> set F \<Longrightarrow> \<exists>a. fam_open name key s' n a \<and>
      (\<forall>sv. rung L gap now (map_option fault_of (dict_get opens n)) = Some sv \<longrightarrow>
        severity_rank sv \<le> severity_rank (al_severity a))"
proof -
  obtain r e s1 where w: "write_due name now opens (evaluate es (faults_of opens) gap now) 0 0 s = Inr ((r, e), s1)"
    and s1: "session_ok s1" "family_inv name key title s1"
    and old: "\<And>n. n \<notin> set F \<Longrightarrow> fam_open name key s1 n = fam_open name key s n"
    and new: "\<And>n. n \<in> set F \<Longrightarrow> \<exists>a. fam_open name key s1 n a \<and>
      (\<forall>sv. rung L gap now (map_option fault_of (dict_get opens n)) = Some sv \<longrightarrow>
        severity_rank sv \<le> severity_rank (al_severity a))"
    using write_due_family [OF ok inv nm o d sev] fit unfolding F by blast
  let ?ids = "map (\<lambda>(n, a). al_id a) (filter (\<lambda>(n, a). n \<notin> set F) opens)"
  let ?s = "s1\<lparr>rows := close_where (\<lambda>a. al_id a \<in> set ?ids) now (rows s1)\<rparr>"
  have "dict_get opens n = Some a \<longleftrightarrow> fam_open name key s1 n a" if "n \<notin> set F" for n a
    using that old [of n] o by (auto simp: opens_ok_def)
  then have fo: "fam_open name key ?s n a \<longleftrightarrow> n \<in> set F \<and> fam_open name key s1 n a" for n a
    by (intro close_gone [OF s1(1) wf]) auto
  show ?thesis
  proof (rule that [of r e ?s])
    show "session_ok ?s" using s1(1) by (rule session_ok_close_where) simp_all
    show "family_inv name key title ?s" using s1(2) by (rule family_inv_close)
    show "apply_family name now opens F (evaluate es (faults_of opens) gap now) s = Inr ((r, e), ?s)"
      by (simp only: apply_family_def w sum.case prod.case resolve_alert_ids_eq)
  qed (use fo new in blast)+
qed

end

section \<open>One family leaves the other alone\<close>

definition foreign_rows :: "string \<Rightarrow> (string, alert) dict \<Rightarrow> session \<Rightarrow> bool" where
  "foreign_rows key2 opens s =
     (\<forall>n a b. (n, a) \<in> set opens \<longrightarrow> b \<in> set (rows s) \<longrightarrow> al_id b = al_id a
        \<longrightarrow> get_str (al_details b) key2 = None)"

definition foreign_item :: "string \<Rightarrow> (string \<Rightarrow> string) \<Rightarrow> ladder_item \<Rightarrow> bool" where
  "foreign_item key2 title2 x =
     (get_str (it_details x) key2 = None \<and> (\<forall>n. it_title x \<noteq> title2 n))"

lemma foreign_close:
  assumes "foreign_rows key2 opens s" and "\<And>a. P a \<Longrightarrow> \<exists>n b. (n, b) \<in> set opens \<and> al_id a = al_id b"
  shows "foreign_rows key2 opens (s\<lparr>rows := close_where P now (rows s)\<rparr>)"
    and "fam_open name key2 (s\<lparr>rows := close_where P now (rows s)\<rparr>) = fam_open name key2 s"
proof -
  show "foreign_rows key2 opens (s\<lparr>rows := close_where P now (rows s)\<rparr>)"
    using assms(1) by (auto simp: foreign_rows_def set_close_where)
  have "\<not> P a" if "fam_open name key2 s n a" for n a
  proof
    assume "P a"
    then obtain m b where "(m, b) \<in> set opens" "al_id a = al_id b" using assms(2) by blast
    with assms(1) that have "get_str (al_details a) key2 = None"
      by (auto simp: foreign_rows_def fam_open_def)
    with that show False by (simp add: fam_open_def)
  qed
  then show "fam_open name key2 (s\<lparr>rows := close_where P now (rows s)\<rparr>) = fam_open name key2 s"
    by (auto simp: fun_eq_iff fam_open_close)
qed

lemma foreign_raise:
  assumes "raise_alert name (it_severity x) (it_title x) (Some (it_message x)) (Some (it_details x)) s
      = Inr (a, s')"
    and "foreign_rows key2 opens s" and "foreign_item key2 title2 x" and "family_inv name key2 title2 s"
  shows "foreign_rows key2 opens s'" and "family_inv name key2 title2 s'"
    and "fam_open name key2 s' = fam_open name key2 s"
proof -
  note r = raise_alert_Inr [OF assms(1)]
  have a: "get_str (al_details a) key2 = None" "al_title a = it_title x"
    using assms(3) by (simp_all add: r(1) foreign_item_def)
  show "foreign_rows key2 opens s'"
    using assms(2) a by (auto simp: foreign_rows_def r(3))
  show "family_inv name key2 title2 s'"
    using assms(3,4) a by (auto simp: family_inv_def r(3) foreign_item_def)
  show "fam_open name key2 s' = fam_open name key2 s"
    using a by (auto simp: fun_eq_iff fam_open_def r(3))
qed

lemma write_due_foreign:
  assumes "write_due name now opens xs r0 e0 s = Inr (c, s')"
    and "foreign_rows key2 opens s" and "\<And>x. x \<in> set xs \<Longrightarrow> foreign_item key2 title2 x"
    and "family_inv name key2 title2 s"
  shows "foreign_rows key2 opens s' \<and> family_inv name key2 title2 s'
    \<and> fam_open name key2 s' = fam_open name key2 s"
  using assms
proof (induction xs arbitrary: r0 e0 s)
  case (Cons x xs)
  from Cons.prems(1) obtain s1 a s2 r1 e1 where
    s1: "(if it_step x = ESCALATE
            then (case dict_get opens (it_agent x) of
                    None \<Rightarrow> Inl (OtherError ''KeyError'')
                  | Some q \<Rightarrow> Inr (s\<lparr>rows := close_where (\<lambda>a. al_id a = al_id q) now (rows s)\<rparr>))
            else Inr s) = (Inr s1 :: py_error + session)"
    and s2: "raise_alert name (it_severity x) (it_title x) (Some (it_message x)) (Some (it_details x)) s1
      = Inr (a, s2)"
    and rest: "write_due name now opens xs r1 e1 s2 = Inr (c, s')"
    by (force split: sum.splits if_splits)
  have "foreign_rows key2 opens s1 \<and> family_inv name key2 title2 s1
      \<and> fam_open name key2 s1 = fam_open name key2 s"
  proof (cases "it_step x = ESCALATE")
    case True
    with s1 obtain q where q: "(it_agent x, q) \<in> set opens"
      "s1 = s\<lparr>rows := close_where (\<lambda>a. al_id a = al_id q) now (rows s)\<rparr>"
      by (auto simp: dict_get_def dest: map_of_SomeD split: option.splits)
    then show ?thesis
      using foreign_close [OF Cons.prems(2), of "\<lambda>a. al_id a = al_id q"] family_inv_close [OF Cons.prems(4)]
      by blast
  next
    case False
    with s1 Cons.prems(2,4) show ?thesis by simp
  qed
  with foreign_raise [OF s2, of key2 opens title2] Cons.IH [OF rest] Cons.prems(3) show ?case by simp
qed simp

lemma apply_family_foreign:
  assumes "apply_family name now opens F xs s = Inr (c, s')"
    and "foreign_rows key2 opens s" and "\<And>x. x \<in> set xs \<Longrightarrow> foreign_item key2 title2 x"
    and "family_inv name key2 title2 s"
  shows "family_inv name key2 title2 s'" and "fam_open name key2 s' = fam_open name key2 s"
proof -
  let ?P = "\<lambda>a. al_id a \<in> set (map (\<lambda>(n, a). al_id a) (filter (\<lambda>(n, a). n \<notin> set F) opens))"
  from assms(1) obtain s1 where w: "write_due name now opens xs 0 0 s = Inr (c, s1)"
    and s': "s' = s1\<lparr>rows := close_where ?P now (rows s1)\<rparr>"
    by (auto simp: apply_family_def resolve_alert_ids_eq split: sum.splits)
  note f = write_due_foreign [OF w assms(2-4)]
  show "family_inv name key2 title2 s'" using f by (auto simp: s' intro: family_inv_close)
  show "fam_open name key2 s' = fam_open name key2 s"
    using f foreign_close(2) [of key2 opens s1 ?P name now] by (force simp: s')
qed

section \<open>The two families of the program\<close>

definition known_agents :: "self_report \<Rightarrow> bool" where
  "known_agents report =
     (distinct (map en_name (rep_agents report)) \<and> set (map en_name (rep_agents report)) \<subseteq> set AGENT_NAMES)"

lemma known_agents_report: "known_agents (build_self_report agents cfg runs now)"
  by (simp add: known_agents_def rep_agents_names map_fst_agent_schedules AGENT_NAMES_def)

lemma agent_names_fit:
  assumes "n \<in> set AGENT_NAMES"
  shows "n \<noteq> []" and "py_len (stall_title n) \<le> 255" and "py_len (failure_title n) \<le> 255"
proof -
  have "list_all (\<lambda>n. n \<noteq> [] \<and> py_len (stall_title n) \<le> 255 \<and> py_len (failure_title n) \<le> 255) AGENT_NAMES"
    by code_simp
  with assms show "n \<noteq> []" and "py_len (stall_title n) \<le> 255" and "py_len (failure_title n) \<le> 255"
    by (auto simp: list_all_iff)
qed

lemma map_filter_all:
  "(\<And>x. x \<in> set xs \<Longrightarrow> P x \<Longrightarrow> f x = Some (g x)) \<Longrightarrow> (\<And>x. x \<in> set xs \<Longrightarrow> \<not> P x \<Longrightarrow> f x = None)
     \<Longrightarrow> List.map_filter f xs = map g (filter P xs)"
  by (induction xs) (auto simp: map_filter_Cons)

lemma stalled_names:
  assumes "known_agents report"
  shows "List.map_filter stalled_name (filter en_stalled (rep_agents report))
    = map en_name (filter en_stalled (rep_agents report))"
proof -
  have "en_name e \<noteq> []" if "e \<in> set (rep_agents report)" for e
    using assms that agent_names_fit(1) by (auto simp: known_agents_def)
  then show ?thesis
    by (subst map_filter_all [where P = "\<lambda>_. True" and g = en_name]) (auto simp: stalled_name_def)
qed

lemma failing_names:
  assumes "known_agents report"
  shows "List.map_filter (failing_name th) (rep_agents report)
    = map en_name (filter (is_failing th) (rep_agents report))"
proof -
  have "en_name e \<noteq> []" if "e \<in> set (rep_agents report)" for e
    using assms that agent_names_fit(1) by (auto simp: known_agents_def)
  then show ?thesis by (intro map_filter_all) (auto simp: failing_name_def)
qed

lemma family_titles_apart: "stall_title n \<noteq> failure_title m"
  by (auto simp: stall_title_def failure_title_def STALL_TITLE_SUFFIX_def FAILURE_TITLE_SUFFIX_def
      dest!: arg_cong [where f = rev])

lemma foreign_items:
  "x \<in> set (stall_items es os gap now) \<Longrightarrow> foreign_item FAILURE_DETAIL_KEY failure_title x"
  "x \<in> set (failure_items trunc th es os gap now) \<Longrightarrow> foreign_item STALL_DETAIL_KEY stall_title x"
  by (auto simp: stall_items_def failure_items_def foreign_item_def stall_item_def failure_item_def
      family_titles_apart family_titles_apart [symmetric] stall_details_def failure_details_def
      get_str_def FAILURE_DETAIL_KEY_def STALL_DETAIL_KEY_def)

lemma foreign_rows_opens:
  assumes "session_ok s" "opens_ok name k1 opens s" "dict_wf opens"
    and "family_inv name k1 t1 s" "family_inv name k2 t2 s" and "\<And>n m. t1 n \<noteq> t2 m"
  shows "foreign_rows k2 opens s"
proof -
  have "get_str (al_details b) k2 = None"
    if "(n, a) \<in> set opens" "b \<in> set (rows s)" "al_id b = al_id a" for n a b
  proof -
    have a: "fam_open name k1 s n a"
      using assms(2) that(1) by (simp add: opens_ok_def flip: dict_get_iff_mem [OF assms(3)])
    then have "b = a" using that by (intro unique_id [OF assms(1)]) (auto simp: fam_open_def)
    moreover have "al_title a = t1 n" using a assms(4) by (auto simp: fam_open_def family_inv_def)
    ultimately show ?thesis
      using a assms(5,6) by (cases "get_str (al_details b) k2") (auto simp: fam_open_def family_inv_def)
  qed
  then show ?thesis by (auto simp: foreign_rows_def)
qed

definition both_inv :: "string \<Rightarrow> session \<Rightarrow> bool" where
  "both_inv name s =
     (session_ok s \<and> name \<in> set alert_agents \<and> family_inv name STALL_DETAIL_KEY stall_title s
      \<and> family_inv name FAILURE_DETAIL_KEY failure_title s)"

text \<open>The unresolved rows an agent has for one fault of a family.\<close>

definition fault_rows :: "string \<Rightarrow> string \<Rightarrow> string \<Rightarrow> session \<Rightarrow> alert list" where
  "fault_rows name key n s =
     filter (\<lambda>a. al_agent a = name \<and> unresolved a \<and> get_str (al_details a) key = Some n) (rows s)"

lemma set_fault_rows: "a \<in> set (fault_rows name key n s) \<longleftrightarrow> fam_open name key s n a"
  by (auto simp: fault_rows_def fam_open_def)

lemma length_fault_rows:
  assumes "session_ok s" and "family_inv name key title s"
  shows "length (fault_rows name key n s) = (if \<exists>a. fam_open name key s n a then 1 else 0)"
proof -
  have "distinct (fault_rows name key n s)"
    using assms(1) by (auto simp: fault_rows_def session_ok_def schema_ok_def distinct_map)
  then have "length (fault_rows name key n s) = card (set (fault_rows name key n s))"
    by (simp add: distinct_card)
  also have "\<dots> = (if \<exists>a. fam_open name key s n a then 1 else 0)"
  proof (cases "\<exists>a. fam_open name key s n a")
    case True
    then obtain a where a: "fam_open name key s n a" by blast
    then have "set (fault_rows name key n s) = {a}"
      using fam_open_unique [OF assms] by (auto simp: set_fault_rows)
    with a show ?thesis by auto
  next
    case False
    then have "fault_rows name key n s = []"
      using set_fault_rows by (metis list.set_intros(1) neq_Nil_conv)
    with False show ?thesis by simp
  qed
  finally show ?thesis .
qed

lemma liveness_ok:
  assumes inv: "both_inv name s" and kn: "known_agents report"
    and o: "opens_ok name STALL_DETAIL_KEY (open_by_key STALL_DETAIL_KEY active) s"
  obtains c w s' where "check_agent_liveness name now cfg report active s = Inr ((c, w), s')"
    and "both_inv name s'"
    and "fam_open name FAILURE_DETAIL_KEY s' = fam_open name FAILURE_DETAIL_KEY s"
    and "\<And>n. (\<exists>a. fam_open name STALL_DETAIL_KEY s' n a)
      \<longleftrightarrow> n \<in> set (map en_name (filter en_stalled (rep_agents report)))"
proof -
  let ?es = "filter en_stalled (rep_agents report)" and ?op = "open_by_key STALL_DETAIL_KEY active"
  let ?xs = "stall_items ?es (faults_of ?op) (sm_escalate_after_hours cfg) now"
  have dn: "distinct (map en_name ?es)" using kn by (auto simp: known_agents_def intro: distinct_map_filter)
  then have st: "fold (\<lambda>e. dict_set (en_name e) e) ?es [] = map (\<lambda>e. (en_name e, e)) ?es"
    by (subst fold_dict_set_distinct) auto
  have fit: "py_len (stall_title n) \<le> 255" if "n \<in> set (map en_name ?es)" for n
    using that kn agent_names_fit(2) by (auto simp: known_agents_def)
  have i: "session_ok s" "family_inv name STALL_DETAIL_KEY stall_title s" "name \<in> set alert_agents"
    "family_inv name FAILURE_DETAIL_KEY failure_title s" using inv by (simp_all add: both_inv_def)
  have sev: "known_severity (quiet STALL_LADDER)" "known_severity (loud STALL_LADDER)"
    by (simp_all add: STALL_LADDER_def known_severity_iff)
  obtain r e s' where a: "apply_family name now ?op (map en_name ?es) ?xs s = Inr ((r, e), s')"
    and s': "session_ok s'" "family_inv name STALL_DETAIL_KEY stall_title s'"
    and none: "\<And>n a. n \<notin> set (map en_name ?es) \<Longrightarrow> \<not> fam_open name STALL_DETAIL_KEY s' n a"
    and some: "\<And>n. n \<in> set (map en_name ?es) \<Longrightarrow> \<exists>a. fam_open name STALL_DETAIL_KEY s' n a \<and>
      (\<forall>sv. rung STALL_LADDER (sm_escalate_after_hours cfg) now (map_option fault_of (dict_get ?op n)) = Some sv
        \<longrightarrow> severity_rank sv \<le> severity_rank (al_severity a))"
    using stall.apply_family_ok [OF i(1-3) o dict_wf_open_by_key _ _ sev fit, of ?es]
    unfolding stalled_names [OF kn] using dn by blast
  have "foreign_rows FAILURE_DETAIL_KEY ?op s"
    by (rule foreign_rows_opens [OF i(1) o dict_wf_open_by_key i(2,4) family_titles_apart])
  note f = apply_family_foreign [OF a this foreign_items(1) i(4)]
  show ?thesis
  proof (rule that)
    show "check_agent_liveness name now cfg report active s =
        Inr ((\<lparr>hc_found = length ?es, hc_raised = r, hc_escalated = e\<rparr>, r + e), s')"
      by (simp add: check_agent_liveness_def st a comp_def Let_def)
    show "both_inv name s'" using s' f i(3) by (simp add: both_inv_def)
    show "fam_open name FAILURE_DETAIL_KEY s' = fam_open name FAILURE_DETAIL_KEY s" by (rule f(2))
  qed (use none some in blast)
qed

lemma failures_ok:
  assumes inv: "both_inv name s" and kn: "known_agents report"
    and o: "opens_ok name FAILURE_DETAIL_KEY (open_by_key FAILURE_DETAIL_KEY active) s"
  obtains c w s' where "check_agent_failures trunc name now cfg report active s = Inr ((c, w), s')"
    and "both_inv name s'"
    and "fam_open name STALL_DETAIL_KEY s' = fam_open name STALL_DETAIL_KEY s"
    and "\<And>n. (\<exists>a. fam_open name FAILURE_DETAIL_KEY s' n a)
      \<longleftrightarrow> n \<in> set (map en_name (filter (is_failing (sm_failure_alert_threshold cfg)) (rep_agents report)))"
proof -
  let ?es = "rep_agents report" and ?op = "open_by_key FAILURE_DETAIL_KEY active"
  let ?th = "sm_failure_alert_threshold cfg"
  let ?F = "map en_name (filter (is_failing ?th) ?es)"
  let ?xs = "failure_items trunc ?th ?es (faults_of ?op) (sm_escalate_after_hours cfg) now"
  have dn: "distinct ?F" using kn by (auto simp: known_agents_def intro: distinct_map_filter)
  have fit: "py_len (failure_title n) \<le> 255" if "n \<in> set ?F" for n
    using that kn agent_names_fit(3) by (auto simp: known_agents_def)
  have i: "session_ok s" "family_inv name FAILURE_DETAIL_KEY failure_title s" "name \<in> set alert_agents"
    "family_inv name STALL_DETAIL_KEY stall_title s" using inv by (simp_all add: both_inv_def)
  have sev: "known_severity (quiet FAILURE_LADDER)" "known_severity (loud FAILURE_LADDER)"
    by (simp_all add: FAILURE_LADDER_def known_severity_iff)
  obtain r e s' where a: "apply_family name now ?op ?F ?xs s = Inr ((r, e), s')"
    and s': "session_ok s'" "family_inv name FAILURE_DETAIL_KEY failure_title s'"
    and none: "\<And>n a. n \<notin> set ?F \<Longrightarrow> \<not> fam_open name FAILURE_DETAIL_KEY s' n a"
    and some: "\<And>n. n \<in> set ?F \<Longrightarrow> \<exists>a. fam_open name FAILURE_DETAIL_KEY s' n a \<and>
      (\<forall>sv. rung FAILURE_LADDER (sm_escalate_after_hours cfg) now (map_option fault_of (dict_get ?op n)) = Some sv
        \<longrightarrow> severity_rank sv \<le> severity_rank (al_severity a))"
    using failure.apply_family_ok [OF i(1-3) o dict_wf_open_by_key _ _ sev fit, of ?th ?es]
    unfolding failing_names [OF kn] using dn by blast
  have "foreign_rows STALL_DETAIL_KEY ?op s"
    by (rule foreign_rows_opens [OF i(1) o dict_wf_open_by_key i(2,4)]) (metis family_titles_apart)
  note f = apply_family_foreign [OF a this foreign_items(2) i(4)]
  show ?thesis
  proof (rule that)
    show "check_agent_failures trunc name now cfg report active s =
        Inr ((\<lparr>hc_found = length ?F, hc_raised = r, hc_escalated = e\<rparr>, r + e), s')"
      using dn by (simp add: check_agent_failures_def a Let_def distinct_remdups_id)
    show "both_inv name s'" using s' f i(3) by (simp add: both_inv_def)
    show "fam_open name STALL_DETAIL_KEY s' = fam_open name STALL_DETAIL_KEY s" by (rule f(2))
  qed (use none some in blast)
qed

section \<open>Properties\<close>

text \<open>
  C1: the agent-health check never fails on a write, keeps the table's constraints, and leaves
  exactly one unresolved row for each agent the report calls stalled, exactly one for each it
  calls failing, and none for any other agent, whatever rows were open before.
\<close>

theorem check_agent_health_exact:
  assumes "both_inv name s" and "sm_enabled cfg"
  shows "\<exists>c s'. check_agent_health trunc name now agents cfg runs s = Inr (c, s') \<and> both_inv name s'
    \<and> (\<forall>n. length (fault_rows name STALL_DETAIL_KEY n s') =
          (if n \<in> set (map en_name (filter en_stalled
                (rep_agents (build_self_report agents cfg runs now)))) then 1 else 0)
        \<and> length (fault_rows name FAILURE_DETAIL_KEY n s') =
          (if n \<in> set (map en_name (filter (is_failing (sm_failure_alert_threshold cfg))
                (rep_agents (build_self_report agents cfg runs now)))) then 1 else 0))"
proof -
  let ?rep = "build_self_report agents cfg runs now"
  have i: "session_ok s" "family_inv name STALL_DETAIL_KEY stall_title s"
    "family_inv name FAILURE_DETAIL_KEY failure_title s" using assms(1) by (simp_all add: both_inv_def)
  have kn: "known_agents ?rep" by (rule known_agents_report)
  obtain c1 w1 s1 where l: "check_agent_liveness name now cfg ?rep (active_alerts name s) s = Inr ((c1, w1), s1)"
    and i1: "both_inv name s1"
    and f1: "fam_open name FAILURE_DETAIL_KEY s1 = fam_open name FAILURE_DETAIL_KEY s"
    and o1: "\<And>n. (\<exists>a. fam_open name STALL_DETAIL_KEY s1 n a)
      \<longleftrightarrow> n \<in> set (map en_name (filter en_stalled (rep_agents ?rep)))"
    using liveness_ok [OF assms(1) kn opens_ok_open_by_key [OF i(1,2)],
          where now = now and cfg = cfg] by blast
  have "opens_ok name FAILURE_DETAIL_KEY (open_by_key FAILURE_DETAIL_KEY (active_alerts name s)) s1"
    using opens_ok_open_by_key [OF i(1,3)] by (simp add: opens_ok_def f1)
  then obtain c2 w2 s2 where f: "check_agent_failures trunc name now cfg ?rep (active_alerts name s) s1 = Inr ((c2, w2), s2)"
    and i2: "both_inv name s2"
    and f2: "fam_open name STALL_DETAIL_KEY s2 = fam_open name STALL_DETAIL_KEY s1"
    and o2: "\<And>n. (\<exists>a. fam_open name FAILURE_DETAIL_KEY s2 n a)
      \<longleftrightarrow> n \<in> set (map en_name (filter (is_failing (sm_failure_alert_threshold cfg)) (rep_agents ?rep)))"
    using failures_ok [OF i1 kn, where now = now and cfg = cfg and trunc = trunc] by blast
  have "check_agent_health trunc name now agents cfg runs s = Inr ((c1, c2, w1 + w2), s2)"
    using assms(2) by (simp add: check_agent_health_def Let_def l f)
  moreover have "session_ok s2" "family_inv name STALL_DETAIL_KEY stall_title s2"
    "family_inv name FAILURE_DETAIL_KEY failure_title s2" using i2 by (simp_all add: both_inv_def)
  ultimately show ?thesis
    using i2 o1 o2 by (simp add: length_fault_rows f2 del: set_map)
qed

definition ex_monitor_session :: session where
  "ex_monitor_session =
     \<lparr>rows = [], health = [], log_entries = [], fresh_id = 0, tx_time = 100000 * us_per_second, pending_events = Some [],
      published = [], logs = []\<rparr>"

theorem check_agent_health_exact_witness:
  "\<exists>c s'. check_agent_health (\<lambda>s n. take n s) ''sysadmin'' (100000 * us_per_second) ex_agents
       ex_self_monitor [ex_old_run] ex_monitor_session = Inr (c, s')
     \<and> length (fault_rows ''sysadmin'' STALL_DETAIL_KEY ''log_aggregator'' s') = 1"
proof -
  let ?rep = "build_self_report ex_agents ex_self_monitor [ex_old_run] (100000 * us_per_second)"
  have "both_inv ''sysadmin'' ex_monitor_session"
    by (simp add: both_inv_def ex_monitor_session_def session_ok_def schema_ok_def
        uq_alerts_open_agent_title_def alert_agents_def family_inv_def)
  moreover have "''log_aggregator'' \<in> set (map en_name (filter en_stalled (rep_agents ?rep)))"
    by (simp add: build_self_report_def Let_def agent_schedules_def ex_agents_def en_stalled_iff
        dict_get_load_recent_runs ex_old_run_def ex_self_monitor_def stall_window_seconds_def
        total_seconds_def)
  moreover have "sm_enabled ex_self_monitor" by (simp add: ex_self_monitor_def)
  ultimately show ?thesis
    using check_agent_health_exact [of "''sysadmin''" ex_monitor_session ex_self_monitor
        "\<lambda>s n. take n s" "100000 * us_per_second" ex_agents "[ex_old_run]"] by auto
qed

end
