(* ===== verification/Sysadmin_Status.thy ===== *)
theory Sysadmin_Status
  imports Services Agent_Health
begin

text \<open>
  How \<open>SysAdminAgent\<close> (\<open>sysadmin/monitor/agent.py\<close>) turns the result of one service check
  into rows: \<open>_raise_judged\<close> with its suppression of what is already open, \<open>_refresh_open\<close>,
  \<open>_handle_status\<close>, the savepoint each service is written in and \<open>_isolate_write_failure\<close>
  behind it, and \<open>_resolve_recovered\<close>, which closes the rows of what is well again.

  The agent's memory between and during runs is \<open>memory\<close>; a step works on the memory, the
  database session and the health rows added and not yet flushed. A failure returns the state
  as it stands: the savepoint restores the tables, nothing restores the memory.
\<close>

section \<open>State\<close>

definition SYSADMIN :: string where
  "SYSADMIN = ''sysadmin''"

record memory =
  degraded_counts :: "(string, nat) dict"
  failure_counts :: "(string, nat) dict"
  arbitration :: "arbitrated_stops option"
  threshold_keys :: "string list"
  last_status :: "(string, string) dict"
  staged_status :: "(string, string) dict"
  open_titles :: "string list"
  written_titles :: "string list"
  judged_titles :: "string list"
  suppressed :: nat
  refreshed :: nat

record mstate =
  mem :: memory
  sess :: session
  unflushed :: "health_row list"

type_synonym 'a step = "mstate \<Rightarrow> (py_error + 'a) \<times> mstate"

definition upd_mem :: "(memory \<Rightarrow> memory) \<Rightarrow> mstate \<Rightarrow> mstate" where
  "upd_mem f st = st\<lparr>mem := f (mem st)\<rparr>"

definition upd_sess :: "(session \<Rightarrow> session) \<Rightarrow> mstate \<Rightarrow> mstate" where
  "upd_sess f st = st\<lparr>sess := f (sess st)\<rparr>"

definition work_committed :: "memory \<Rightarrow> memory" where
  "work_committed m =
     m\<lparr>last_status := dict_merge (last_status m) (staged_status m), staged_status := []\<rparr>"

definition forget_unknown :: "string list \<Rightarrow> memory \<Rightarrow> string list \<times> memory" where
  "forget_unknown known m =
     (let dropped = sort (remdups (filter (\<lambda>n. n \<notin> set known)
            (map fst (degraded_counts m) @ map fst (failure_counts m) @ map fst (last_status m))))
      in (dropped,
          m\<lparr>degraded_counts := fold dict_del dropped (degraded_counts m),
            failure_counts := fold dict_del dropped (failure_counts m),
            last_status := fold dict_del dropped (last_status m),
            staged_status := fold dict_del dropped (staged_status m)\<rparr>))"

section \<open>Flushing\<close>

definition health_row_ok :: "health_row \<Rightarrow> bool" where
  "health_row_ok h = (health_columns_fit h \<and> chk_health_status h)"

definition flush_health :: "unit step" where
  "flush_health st =
     (case find (\<lambda>h. \<not> health_row_ok h) (unflushed st) of
        Some h \<Rightarrow>
          (Inl (if health_columns_fit h then IntegrityError ''chk_health_status''
                else DataError ''service_health''), st)
      | None \<Rightarrow>
          (Inr (), st\<lparr>unflushed := [],
             sess := (sess st)\<lparr>health := health (sess st) @ unflushed st\<rparr>\<rparr>))"

text \<open>
  \<open>async with session.begin_nested()\<close>: the block's rows are flushed on the way out, and a
  failure of the block or of that flush takes the tables back to where they were.
\<close>

definition savepoint :: "'a step \<Rightarrow> 'a step" where
  "savepoint body st =
     (let failed = (\<lambda>e st'. (Inl e,
            st'\<lparr>unflushed := unflushed st,
               sess := (sess st')\<lparr>rows := rows (sess st), health := health (sess st)\<rparr>\<rparr>))
      in case body st of
           (Inl e, st') \<Rightarrow> failed e st'
         | (Inr x, st') \<Rightarrow>
             (case flush_health st' of
                (Inl e, st'') \<Rightarrow> failed e st''
              | (Inr _, st'') \<Rightarrow> (Inr x, st'')))"

section \<open>Judgements\<close>

definition RUNG_LEFT_STALE_EVENT :: string where
  "RUNG_LEFT_STALE_EVENT = ''alert_rung_left_stale''"

definition open_alert_titles :: "session \<Rightarrow> string list" where
  "open_alert_titles s = map al_title (active_alerts SYSADMIN s)"

definition note_stale_rung :: "string option \<Rightarrow> alert \<Rightarrow> mstate \<Rightarrow> mstate" where
  "note_stale_rung severity a st =
     (case severity of
        None \<Rightarrow> st
      | Some sev \<Rightarrow>
          if sev \<noteq> al_severity a \<and> \<not> may_quieten_in_place sev (al_severity a)
          then upd_sess (log_line ''warning'' RUNG_LEFT_STALE_EVENT) st else st)"

definition refresh_open :: "string \<Rightarrow> string \<Rightarrow> jobj \<Rightarrow> string option \<Rightarrow> bool step" where
  "refresh_open title message details severity st =
     (case flush_health st of
        (Inl e, st1) \<Rightarrow> (Inl e, st1)
      | (Inr _, st1) \<Rightarrow>
          (case find_open SYSADMIN (\<lambda>a. al_title a = title) (rows (sess st1)) of
             None \<Rightarrow> (Inr False, st1)
           | Some a \<Rightarrow>
               (case refresh_alert (Some message) (Some details) severity a of
                  (changed, a', ls) \<Rightarrow>
                    (let st2 = upd_sess (\<lambda>s. s\<lparr>rows := store_row a' (rows s), logs := logs s @ ls\<rparr>)
                                 (note_stale_rung severity a st1)
                     in if changed
                        then (Inr True, upd_mem (\<lambda>m. m\<lparr>refreshed := Suc (refreshed m)\<rparr>) st2)
                        else (Inr False, st2)))))"

definition raise_judged :: "string \<Rightarrow> string \<Rightarrow> string \<Rightarrow> jobj \<Rightarrow> bool \<Rightarrow> nat step" where
  "raise_judged severity title message details dedup st =
     (let st1 = upd_mem (\<lambda>m. m\<lparr>judged_titles := List.insert title (judged_titles m)\<rparr>) st
      in if dedup \<and> (title \<in> set (open_titles (mem st)) \<or> title \<in> set (written_titles (mem st)))
         then
           (let st2 = upd_sess (log_line ''debug'' ''alert_suppressed_row_already_open'')
                        (upd_mem (\<lambda>m. m\<lparr>suppressed := Suc (suppressed m)\<rparr>) st1)
            in if title \<in> set (open_titles (mem st))
               then (case refresh_open title message details (Some severity) st2 of
                       (Inl e, st3) \<Rightarrow> (Inl e, st3)
                     | (Inr _, st3) \<Rightarrow> (Inr 0, st3))
               else (Inr 0, st2))
         else
           (case flush_health st1 of
              (Inl e, st2) \<Rightarrow> (Inl e, st2)
            | (Inr _, st2) \<Rightarrow>
                (case raise_alert SYSADMIN severity title (Some message) (Some details) (sess st2) of
                   Inl e \<Rightarrow> (Inl e, st2)
                 | Inr (a, s) \<Rightarrow>
                     (Inr 1, upd_mem (\<lambda>m. m\<lparr>written_titles := List.insert title (written_titles m)\<rparr>)
                        (st2\<lparr>sess := s\<rparr>)))))"

section \<open>One service\<close>

definition SERVICE_ALERT_KINDS :: "string list" where
  "SERVICE_ALERT_KINDS = [''degraded'', ''warning'', ''critical'', ''unreachable'', ''auto-restarted'']"

definition ARBITRATED_STOP_SEVERITY :: string where
  "ARBITRATED_STOP_SEVERITY = QUIETEST_SEVERITY"

definition NO_ARBITRATION :: arbitrated_stops where
  "NO_ARBITRATION = unread_stops None None None"

definition service_alert_title :: "string \<Rightarrow> string \<Rightarrow> string" where
  "service_alert_title service_name kind = service_name @ '' '' @ kind"

definition DEGRADED_STREAK :: nat where
  "DEGRADED_STREAK = 3"

definition REASON_CHARS :: nat where
  "REASON_CHARS = 200"

text \<open>
  The reason of a reading is a text wherever the checks set one; \<open>trunc\<close> stands for
  \<open>estate.text.truncate_at_word\<close>.
\<close>

definition degraded_message :: "(string \<Rightarrow> nat \<Rightarrow> string) \<Rightarrow> string \<Rightarrow> jobj \<Rightarrow> string" where
  "degraded_message trunc service_name details =
     (let message = service_name @ '' has been degraded for '' @ show_nat DEGRADED_STREAK
                    @ '' consecutive checks''
      in case get_str details ''reason'' of
           None \<Rightarrow> message
         | Some reason \<Rightarrow> message @ ''; last check: '' @ trunc (flatten_spaces reason) REASON_CHARS)"

definition set_degraded :: "string \<Rightarrow> nat \<Rightarrow> mstate \<Rightarrow> mstate" where
  "set_degraded n c = upd_mem (\<lambda>m. m\<lparr>degraded_counts := dict_set n c (degraded_counts m)\<rparr>)"

definition set_failures :: "string \<Rightarrow> nat \<Rightarrow> mstate \<Rightarrow> mstate" where
  "set_failures n c = upd_mem (\<lambda>m. m\<lparr>failure_counts := dict_set n c (failure_counts m)\<rparr>)"

definition with_service :: "string \<Rightarrow> jobj \<Rightarrow> jobj" where
  "with_service n details = dict_set ''service_name'' (JStr n) details"

definition restart_message :: "service_entry \<Rightarrow> bool \<times> string \<Rightarrow> string" where
  "restart_message svc outcome =
     svc_name svc @ '' was automatically restarted after ''
     @ show_int (svc_auto_restart_after_checks svc) @ '' consecutive failures '' @ em_dash @ '' ''
     @ (if fst outcome then ''succeeded'' else ''failed: '' @ snd outcome)"

definition down_message :: "arbitrated_stops \<Rightarrow> string option \<Rightarrow> string \<Rightarrow> string \<Rightarrow> string" where
  "down_message stops unit service_name status =
     service_name @ '' is '' @ status
     @ (if stopped stops unit
        then '' '' @ em_dash @ '' stopped by the estate'' @ [CHR 0x27] @ ''s arbiter under lease ''
             @ (case as_lease_id stops of None \<Rightarrow> ''None'' | Some i \<Rightarrow> show_int i)
             @ (case as_profile stops of
                  None \<Rightarrow> [] | Some p \<Rightarrow> if p = [] then [] else '' ('' @ p @ '')'')
        else [])"

definition arbitration_details :: "arbitrated_stops \<Rightarrow> string option \<Rightarrow> json" where
  "arbitration_details stops unit =
     JObj [(''reading'', JStr (as_reading stops)), (''unit'', jopt JStr unit),
           (''stopped_by_estate'', JBool (stopped stops unit)),
           (''lease_id'', jopt (\<lambda>i. JNum (of_int i)) (as_lease_id stops)),
           (''profile'', jopt JStr (as_profile stops))]"

text \<open>\<open>restart\<close> is what \<open>systemctl restart\<close> answers: success, and its message.\<close>

definition handle_status ::
  "(string \<Rightarrow> nat \<Rightarrow> string) \<Rightarrow> (string \<Rightarrow> bool \<Rightarrow> bool \<times> string) \<Rightarrow> service_entry \<Rightarrow> string \<Rightarrow> jobj \<Rightarrow> nat step"
  where
  "handle_status trunc restart svc status details st =
     (let n = svc_name svc
      in if status = SKIPPED then (Inr 0, st)
         else if status = ''error'' then (Inr 0, st)
         else if status = ''ok'' then (Inr 0, set_failures n 0 (set_degraded n 0 st))
         else if status = ''degraded'' then
           (let streak = Suc (dict_get_or (degraded_counts (mem st)) n 0);
                st1 = set_degraded n streak (set_failures n 0 st)
            in if DEGRADED_STREAK \<le> streak
               then raise_judged ''warning'' (service_alert_title n ''degraded'')
                      (degraded_message trunc n details) (with_service n details) True st1
               else (Inr 0, st1))
         else if status = ''warning'' then
           raise_judged ''warning'' (service_alert_title n ''warning'') (n @ '' is in warning state'')
             (with_service n details) True (set_failures n 0 (set_degraded n 0 st))
         else if status = ''critical'' \<or> status = ''unreachable'' then
           (let failures = Suc (dict_get_or (failure_counts (mem st)) n 0);
                st1 = set_failures n failures (set_degraded n 0 st)
            in if svc_auto_restart svc \<and> svc_controllable svc \<and> given (systemd_unit svc)
                  \<and> svc_auto_restart_after_checks svc \<le> int failures
               then
                 (let st2 = upd_sess (log_line ''info'' ''auto_restart'') st1;
                      outcome = restart (the (systemd_unit svc)) (svc_user svc)
                  in raise_judged ''warning'' (service_alert_title n ''auto-restarted'')
                       (restart_message svc outcome)
                       (dict_set ''auto_restart'' (JBool True) (with_service n details)) False
                       (set_failures n 0 st2))
               else
                 (let stops = (case arbitration (mem st1) of None \<Rightarrow> NO_ARBITRATION | Some a \<Rightarrow> a)
                  in raise_judged
                       (if stopped stops (systemd_unit svc) then ARBITRATED_STOP_SEVERITY else ''critical'')
                       (service_alert_title n status) (down_message stops (systemd_unit svc) n status)
                       (dict_set ''arbitration'' (arbitration_details stops (systemd_unit svc))
                          (with_service n details)) True st1))
         else (Inr 0, st))"

section \<open>Every service in its savepoint\<close>

definition WRITE_ERROR_CHARS :: nat where
  "WRITE_ERROR_CHARS = 400"

text \<open>
  \<open>err_text\<close> is the text of an exception with its class; \<open>marker\<close> is
  \<open>estate.text.TRUNCATION_MARKER\<close>.
\<close>

definition truncate_error :: "string \<Rightarrow> (py_error \<Rightarrow> string) \<Rightarrow> py_error \<Rightarrow> string" where
  "truncate_error marker err_text e =
     (let t = flatten_spaces (err_text e)
      in if py_len t \<le> WRITE_ERROR_CHARS then t else py_take WRITE_ERROR_CHARS t @ marker)"

definition add_health :: "health_row \<Rightarrow> mstate \<Rightarrow> mstate" where
  "add_health h st = st\<lparr>unflushed := unflushed st @ [h]\<rparr>"

definition isolate_write_failure ::
  "string \<Rightarrow> (py_error \<Rightarrow> string) \<Rightarrow> service_entry \<Rightarrow> string \<Rightarrow> py_error \<Rightarrow> mstate \<Rightarrow> mstate" where
  "isolate_write_failure marker err_text svc status e st =
     (let st1 = upd_sess (log_line ''error'' ''service_write_isolated'') st;
          row = \<lparr>sh_service_name = svc_name svc, sh_status = ''error'', sh_response_time_ms = None,
                 sh_details = [(''source'', JStr ''write_isolation''),
                   (''attempted_status'', JStr status),
                   (''error'', JStr (truncate_error marker err_text e))]\<rparr>
      in case savepoint (\<lambda>x. (Inr (), add_health row x)) st1 of
           (Inr _, st2) \<Rightarrow> st2
         | (Inl e', st2) \<Rightarrow> upd_sess (log_line ''error'' ''service_write_isolation_failed'') st2)"

text \<open>What a run knows about one service: the reading of its check.\<close>

record reading =
  rd_service :: service_entry
  rd_status :: string
  rd_response_time_ms :: "int option"
  rd_details :: jobj

record loop_counts =
  lc_raised :: nat
  lc_unhealthy :: "string list"
  lc_write_failures :: "string list"

record monitor_env =
  me_trunc :: "string \<Rightarrow> nat \<Rightarrow> string"
  me_restart :: "string \<Rightarrow> bool \<Rightarrow> bool \<times> string"
  me_stops :: arbitrated_stops
  me_marker :: string
  me_err_text :: "py_error \<Rightarrow> string"

definition ensure_arbitration :: "arbitrated_stops \<Rightarrow> mstate \<Rightarrow> mstate" where
  "ensure_arbitration stops st =
     (if arbitration (mem st) = None then upd_mem (\<lambda>m. m\<lparr>arbitration := Some stops\<rparr>) st else st)"

definition announce_status :: "string \<Rightarrow> string \<Rightarrow> mstate \<Rightarrow> mstate" where
  "announce_status n status st =
     (if dict_get (last_status (mem st)) n \<noteq> Some status
      then upd_sess (queue_event ''service.status'' [(''service'', JStr n), (''status'', JStr status)])
             (upd_mem (\<lambda>m. m\<lparr>staged_status := dict_set n status (staged_status m)\<rparr>) st)
      else st)"

definition write_service :: "monitor_env \<Rightarrow> reading \<Rightarrow> nat step" where
  "write_service env r =
     savepoint (\<lambda>st. handle_status (me_trunc env) (me_restart env) (rd_service r) (rd_status r) (rd_details r)
       (add_health \<lparr>sh_service_name = svc_name (rd_service r), sh_status = rd_status r,
          sh_response_time_ms = rd_response_time_ms r, sh_details = rd_details r\<rparr> st))"

definition service_turn :: "monitor_env \<Rightarrow> reading \<Rightarrow> loop_counts \<Rightarrow> mstate \<Rightarrow> (py_error + loop_counts) \<times> mstate" where
  "service_turn env r c st =
     (let n = svc_name (rd_service r); status = rd_status r;
          c1 = (if status \<notin> set [''ok'', SKIPPED]
                then c\<lparr>lc_unhealthy := List.insert n (lc_unhealthy c)\<rparr> else c);
          st1 = (if status \<in> set [''critical'', ''unreachable'']
                 then ensure_arbitration (me_stops env) st else st)
      in case write_service env r st1 of
           (Inl e, st2) \<Rightarrow>
             (if is_sqlalchemy_error e
              then (Inr (c1\<lparr>lc_unhealthy := List.insert n (lc_unhealthy c1),
                          lc_write_failures := lc_write_failures c1 @ [n]\<rparr>),
                    isolate_write_failure (me_marker env) (me_err_text env) (rd_service r) status e st2)
              else (Inl e, st2))
         | (Inr k, st2) \<Rightarrow>
             (Inr (c1\<lparr>lc_raised := lc_raised c1 + k\<rparr>), announce_status n status st2))"

fun service_loop :: "monitor_env \<Rightarrow> reading list \<Rightarrow> loop_counts \<Rightarrow> mstate \<Rightarrow> (py_error + loop_counts) \<times> mstate" where
  "service_loop env [] c st = (Inr c, st)"
| "service_loop env (r # rs) c st =
     (case service_turn env r c st of
        (Inl e, st') \<Rightarrow> (Inl e, st')
      | (Inr c', st') \<Rightarrow> service_loop env rs c' st')"

section \<open>What is well again\<close>

definition RESOLVABLE_TITLE_PATTERNS :: "string list" where
  "RESOLVABLE_TITLE_PATTERNS =
     map (\<lambda>kind. ''% '' @ kind) SERVICE_ALERT_KINDS @
     [''High RAM usage'', ''High GPU temperature on %'', ''High VRAM usage on %'',
      ''Critical disk usage on %'', ''High disk usage on %'']"

definition protected_titles :: "string list \<Rightarrow> string list \<Rightarrow> string list" where
  "protected_titles judged unhealthy =
     judged @ concat (map (\<lambda>n. map (service_alert_title n) SERVICE_ALERT_KINDS) unhealthy)"

definition recovered :: "string list \<Rightarrow> string list \<Rightarrow> alert \<Rightarrow> bool" where
  "recovered judged unhealthy a =
     (al_agent a = SYSADMIN \<and> unresolved a
      \<and> list_ex (\<lambda>p. sql_like p (al_title a)) RESOLVABLE_TITLE_PATTERNS
      \<and> al_title a \<notin> set (protected_titles judged unhealthy))"

definition resolve_recovered :: "instant \<Rightarrow> string list \<Rightarrow> mstate \<Rightarrow> nat \<times> mstate" where
  "resolve_recovered now unhealthy st =
     (let P = recovered (judged_titles (mem st)) unhealthy;
          resolved = length (filter P (rows (sess st)));
          st1 = upd_sess (\<lambda>s. s\<lparr>rows := close_where P now (rows s)\<rparr>) st
      in (resolved,
          if resolved \<noteq> 0
          then upd_sess (\<lambda>s. queue_event ''alert.resolved''
                 [(''agent'', JStr SYSADMIN), (''match'', JStr ''recovered''),
                  (''count'', JNum (of_nat resolved))] (log_line ''info'' ''service_alerts_resolved'' s)) st1
          else st1))"

section \<open>Frames\<close>

lemma upd_simps [simp]:
  "mem (upd_mem f st) = f (mem st)" "sess (upd_mem f st) = sess st" "unflushed (upd_mem f st) = unflushed st"
  "mem (upd_sess g st) = mem st" "sess (upd_sess g st) = g (sess st)" "unflushed (upd_sess g st) = unflushed st"
  by (simp_all add: upd_mem_def upd_sess_def)

lemma count_frames [simp]:
  "sess (set_degraded n c st) = sess st" "unflushed (set_degraded n c st) = unflushed st"
  "sess (set_failures n c st) = sess st" "unflushed (set_failures n c st) = unflushed st"
  "degraded_counts (mem (set_degraded n c st)) = dict_set n c (degraded_counts (mem st))"
  "failure_counts (mem (set_degraded n c st)) = failure_counts (mem st)"
  "degraded_counts (mem (set_failures n c st)) = degraded_counts (mem st)"
  "failure_counts (mem (set_failures n c st)) = dict_set n c (failure_counts (mem st))"
  "open_titles (mem (set_degraded n c st)) = open_titles (mem st)"
  "open_titles (mem (set_failures n c st)) = open_titles (mem st)"
  "written_titles (mem (set_degraded n c st)) = written_titles (mem st)"
  "written_titles (mem (set_failures n c st)) = written_titles (mem st)"
  "judged_titles (mem (set_degraded n c st)) = judged_titles (mem st)"
  "judged_titles (mem (set_failures n c st)) = judged_titles (mem st)"
  "arbitration (mem (set_degraded n c st)) = arbitration (mem st)"
  "arbitration (mem (set_failures n c st)) = arbitration (mem st)"
  by (simp_all add: set_degraded_def set_failures_def)

lemma note_stale_rung_frame [simp]:
  "mem (note_stale_rung sev a st) = mem st" "unflushed (note_stale_rung sev a st) = unflushed st"
  "rows (sess (note_stale_rung sev a st)) = rows (sess st)"
  "health (sess (note_stale_rung sev a st)) = health (sess st)"
  "fresh_id (sess (note_stale_rung sev a st)) = fresh_id (sess st)"
  by (simp_all add: note_stale_rung_def split: option.splits)

lemma flush_health_Inr:
  assumes "flush_health st = (Inr u, st')"
  shows "mem st' = mem st" and "unflushed st' = []"
    and "sess st' = (sess st)\<lparr>health := health (sess st) @ unflushed st\<rparr>"
    and "list_all health_row_ok (unflushed st)"
  using assms by (auto simp: flush_health_def find_None_iff list_all_iff split: option.splits)

lemma flush_health_Inl:
  assumes "flush_health st = (Inl e, st')"
  shows "st' = st" and "is_sqlalchemy_error e" and "\<not> list_all health_row_ok (unflushed st)"
  using assms by (auto simp: flush_health_def find_Some_iff list_all_iff split: option.splits)

lemma flush_health_ok:
  "list_all health_row_ok (unflushed st) \<Longrightarrow>
     flush_health st = (Inr (), st\<lparr>unflushed := [],
       sess := (sess st)\<lparr>health := health (sess st) @ unflushed st\<rparr>\<rparr>)"
  by (cases "flush_health st") (auto simp: flush_health_def find_Some_iff list_all_iff split: option.splits)

section \<open>What a judgement does to the tables\<close>

text \<open>
  While a run judges, the titles the agent remembers as open or written are exactly the titles of
  its open rows.
\<close>

definition open_own :: "session \<Rightarrow> string \<Rightarrow> bool" where
  "open_own s t = list_ex (\<lambda>a. al_agent a = SYSADMIN \<and> unresolved a \<and> al_title a = t) (rows s)"

definition titles_exact :: "mstate \<Rightarrow> bool" where
  "titles_exact st =
     (session_ok (sess st) \<and>
      (\<forall>t. t \<in> set (open_titles (mem st)) \<or> t \<in> set (written_titles (mem st)) \<longleftrightarrow> open_own (sess st) t))"

lemma open_own_iff:
  "open_own s t \<longleftrightarrow> (SYSADMIN, t) \<in> set (map alert_key (filter unresolved (rows s)))"
  by (auto simp: open_own_def list_ex_iff alert_key_def image_iff) metis

lemma open_own_health [simp]: "open_own (s\<lparr>health := h\<rparr>) = open_own s"
  "session_ok (s\<lparr>health := h\<rparr>) = session_ok s"
  by (simp_all add: open_own_def session_ok_def fun_eq_iff)

lemma raise_alert_open_own:
  assumes "raise_alert SYSADMIN sev t m d s = Inr (a, s')"
  shows "open_own s' t' \<longleftrightarrow> open_own s t' \<or> t' = t" and "session_ok s \<Longrightarrow> session_ok s'"
    and "health s' = health s" and "\<not> open_own s t"
proof -
  note r = raise_alert_Inr [OF assms]
  show "open_own s' t' \<longleftrightarrow> open_own s t' \<or> t' = t"
    using r(1) by (auto simp: open_own_def r(3))
  show "session_ok s \<Longrightarrow> session_ok s'"
    by (rule own_effect_ok [OF raise_alert_effect [OF assms]])
  show "\<not> open_own s t" using r(1,6) by (simp add: open_own_iff)
  show "health s' = health s"
    using assms by (auto simp: raise_alert_def Let_def split: sum.splits)
qed

lemma open_own_store_row:
  assumes "session_ok s" and "a \<in> set (rows s)" and "unresolved a" and "al_agent a = SYSADMIN"
    and "refresh_alert m d sev a = (c, a', ls)"
  shows "open_own (s\<lparr>rows := store_row a' (rows s), logs := l\<rparr>) t \<longleftrightarrow> open_own s t"
proof -
  have a': "al_id a' = al_id a" "alert_key a' = alert_key a" "unresolved a' = unresolved a"
    using refresh_alert_keeps [OF assms(5)] by (simp_all add: unresolved_def)
  have "b = a" if "b \<in> set (rows s)" "al_id b = al_id a'" for b
    using that assms(2) a'(1) by (intro unique_id [OF assms(1)]) auto
  then have "map alert_key (filter unresolved (store_row a' (rows s)))
      = map alert_key (filter unresolved (rows s))"
    using a' by (intro map_filter_store_row) auto
  then show ?thesis by (simp add: open_own_iff)
qed

lemma refresh_open_ok:
  assumes "list_all health_row_ok (unflushed st)" and "session_ok (sess st)"
  obtains b st' where "refresh_open t m d sev st = (Inr b, st')" and "session_ok (sess st')"
    and "open_own (sess st') = open_own (sess st)" and "unflushed st' = []"
    and "health (sess st') = health (sess st) @ unflushed st"
    and "map alert_key (rows (sess st')) = map alert_key (rows (sess st))"
    and "(mem st')\<lparr>refreshed := r\<rparr> = (mem st)\<lparr>refreshed := r\<rparr>"
proof -
  let ?st1 = "st\<lparr>unflushed := [], sess := (sess st)\<lparr>health := health (sess st) @ unflushed st\<rparr>\<rparr>"
  note fl = flush_health_ok [OF assms(1)]
  show ?thesis
  proof (cases "find_open SYSADMIN (\<lambda>a. al_title a = t) (rows (sess st))")
    case None
    then show ?thesis
      using assms(2) fl by (intro that [of False ?st1]) (auto simp: refresh_open_def)
  next
    case (Some a)
    note a = find_open_SomeD [OF Some]
    obtain c a' ls where r: "refresh_alert (Some m) (Some d) sev a = (c, a', ls)"
      by (rule prod_cases3)
    let ?st2 = "note_stale_rung sev a ?st1"
    let ?st3 = "upd_sess (\<lambda>s. s\<lparr>rows := store_row a' (rows s), logs := logs s @ ls\<rparr>) ?st2"
    let ?st4 = "if c then upd_mem (\<lambda>m. m\<lparr>refreshed := Suc (refreshed m)\<rparr>) ?st3 else ?st3"
    have e: "refresh_open t m d sev st = (Inr c, ?st4)"
      using Some r fl by (simp add: refresh_open_def Let_def)
    have rows2: "rows (sess ?st2) = rows (sess st)" "health (sess ?st2) = health (sess st) @ unflushed st"
      "unflushed ?st2 = []" "mem ?st2 = mem st" "fresh_id (sess ?st2) = fresh_id (sess st)"
      by simp_all
    have ok2: "session_ok (sess ?st2)" using assms(2) rows2 by (simp add: session_ok_def)
    have sess4: "sess ?st4 = (sess ?st2)\<lparr>rows := store_row a' (rows (sess ?st2)), logs := logs (sess ?st2) @ ls\<rparr>"
      by simp
    have "session_ok (sess ?st4)"
      unfolding sess4 using a(1) rows2 by (intro session_ok_refresh [OF ok2 _ r]) simp_all
    moreover have "open_own (sess ?st4) = open_own (sess st)"
      unfolding sess4 fun_eq_iff using a rows2
      by (subst open_own_store_row [OF ok2 _ _ _ r]) (simp_all add: open_own_def)
    moreover have "map alert_key (store_row a' (rows (sess st))) = map alert_key (rows (sess st))"
      using unique_id [OF assms(2) _ a(1)] refresh_alert_keeps(1,2) [OF r]
      by (intro map_store_row_same) metis
    ultimately show ?thesis
      using rows2 by (intro that [OF e]) (simp_all add: sess4)
  qed
qed

text \<open>The state a judgement leaves, seen from the titles.\<close>

lemma titles_exact_raise:
  assumes "titles_exact st" and "list_all health_row_ok (unflushed st)"
    and "known_severity sev" and "py_len t \<le> 255"
  shows "\<exists>k st'. raise_judged sev t m d True st = (Inr k, st') \<and> titles_exact st'
    \<and> k = (if open_own (sess st) t then 0 else 1)
    \<and> (\<forall>t'. open_own (sess st') t' \<longleftrightarrow> open_own (sess st) t' \<or> t' = t)
    \<and> t \<in> set (judged_titles (mem st'))"
proof (cases "t \<in> set (open_titles (mem st)) \<or> t \<in> set (written_titles (mem st))")
  case True
  let ?st2 = "upd_sess (log_line ''debug'' ''alert_suppressed_row_already_open'')
    (upd_mem (\<lambda>m. m\<lparr>suppressed := Suc (suppressed m)\<rparr>)
      (upd_mem (\<lambda>m. m\<lparr>judged_titles := List.insert t (judged_titles m)\<rparr>) st))"
  have own: "open_own (sess st) t" using True assms(1) by (auto simp: titles_exact_def)
  have sess2: "session_ok (sess ?st2)" "open_own (sess ?st2) = open_own (sess st)"
    using assms(1) by (simp_all add: titles_exact_def session_ok_def open_own_def fun_eq_iff)
  show ?thesis
  proof (cases "t \<in> set (open_titles (mem st))")
    case opened: True
    have l: "list_all health_row_ok (unflushed ?st2)" using assms(2) by simp
    obtain b st' where r: "refresh_open t m d (Some sev) ?st2 = (Inr b, st')"
      and st': "session_ok (sess st')" "open_own (sess st') = open_own (sess ?st2)"
      and m': "(mem st')\<lparr>refreshed := 0\<rparr> = (mem ?st2)\<lparr>refreshed := 0\<rparr>"
      using refresh_open_ok [OF l sess2(1), where t = t and m = m and d = d and sev = "Some sev" and r = 0]
      by blast
    have "open_titles (mem st') = open_titles (mem st)" "written_titles (mem st') = written_titles (mem st)"
      "judged_titles (mem st') = List.insert t (judged_titles (mem st))"
      using arg_cong [OF m', of open_titles] arg_cong [OF m', of written_titles]
        arg_cong [OF m', of judged_titles] by simp_all
    then show ?thesis
      using opened r st' own sess2 assms(1)
      by (auto simp: raise_judged_def Let_def titles_exact_def)
  next
    case False
    with True show ?thesis
      using own sess2 assms(1) by (auto simp: raise_judged_def Let_def titles_exact_def)
  qed
next
  case False
  let ?st1 = "upd_mem (\<lambda>m. m\<lparr>judged_titles := List.insert t (judged_titles m)\<rparr>) st"
  let ?s = "(sess st)\<lparr>health := health (sess st) @ unflushed st\<rparr>"
  have own: "\<not> open_own (sess st) t" using False assms(1) by (auto simp: titles_exact_def)
  have "al_title a \<noteq> t" if "a \<in> set (rows ?s)" "al_agent a = SYSADMIN" "unresolved a" for a
    using own that by (auto simp: open_own_def list_ex_iff)
  then obtain s' where r: "raise_alert SYSADMIN sev t (Some m) (Some d) ?s
      = Inr (new_alert SYSADMIN sev t (Some m) (Some d) ?s, s')"
    using raise_alert_succeeds [of SYSADMIN sev t ?s "Some m" "Some d"] assms(3,4)
    by (auto simp: SYSADMIN_def alert_agents_def)
  note ro = raise_alert_open_own [OF r]
  have fl: "flush_health ?st1 = (Inr (), ?st1\<lparr>unflushed := [], sess := ?s\<rparr>)"
    using flush_health_ok [of ?st1] assms(2) by simp
  show ?thesis
    using False own ro assms(1)
    by (auto simp: raise_judged_def Let_def fl r titles_exact_def)
qed

section \<open>Every step of a service keeps the books\<close>

definition total_health :: "mstate \<Rightarrow> health_row list" where
  "total_health st = health (sess st) @ unflushed st"

text \<open>
  What a judgement, successful or not, does: a failure is one of the database's and leaves the
  remembered titles alone; a success keeps them exact and loses no health row.
\<close>

definition judged_ok :: "mstate \<Rightarrow> (py_error + nat) \<times> mstate \<Rightarrow> bool" where
  "judged_ok st r =
     (open_titles (mem (snd r)) = open_titles (mem st)
      \<and> (own_effect SYSADMIN)\<^sup>*\<^sup>* (sess st) (sess (snd r))
      \<and> (case fst r of
           Inl e \<Rightarrow> is_sqlalchemy_error e \<and> written_titles (mem (snd r)) = written_titles (mem st)
         | Inr k \<Rightarrow> titles_exact (snd r) \<and> total_health (snd r) = total_health st
             \<and> (unflushed (snd r) = [] \<or> written_titles (mem (snd r)) = written_titles (mem st))))"

lemma own_effect_same [intro]:
  "rows s' = rows s \<Longrightarrow> fresh_id s' = fresh_id s \<Longrightarrow> (own_effect SYSADMIN)\<^sup>*\<^sup>* s s'"
  by (intro r_into_rtranclp eff_none)

lemma refresh_open_effect:
  assumes "refresh_open t m d sev st = (res, st')"
  shows "(own_effect SYSADMIN)\<^sup>*\<^sup>* (sess st) (sess st')"
    and "open_titles (mem st') = open_titles (mem st)" "written_titles (mem st') = written_titles (mem st)"
    and "\<And>e. res = Inl e \<Longrightarrow> is_sqlalchemy_error e"
    and "\<And>b. res = Inr b \<Longrightarrow> unflushed st' = [] \<and> total_health st' = total_health st
      \<and> (session_ok (sess st) \<longrightarrow> open_own (sess st') = open_own (sess st))"
proof -
  obtain fr st1 where fl: "flush_health st = (fr, st1)" by force
  have "(own_effect SYSADMIN)\<^sup>*\<^sup>* (sess st) (sess st')
    \<and> open_titles (mem st') = open_titles (mem st) \<and> written_titles (mem st') = written_titles (mem st)
    \<and> (\<forall>e. res = Inl e \<longrightarrow> is_sqlalchemy_error e)
    \<and> (\<forall>b. res = Inr b \<longrightarrow> unflushed st' = [] \<and> total_health st' = total_health st
      \<and> (session_ok (sess st) \<longrightarrow> open_own (sess st') = open_own (sess st)))"
  proof (cases fr)
    case (Inl e)
    with fl assms flush_health_Inl [of st e st1] show ?thesis by (auto simp: refresh_open_def)
  next
    case (Inr u)
    note f = flush_health_Inr [OF fl [unfolded Inr]]
    show ?thesis
    proof (cases "find_open SYSADMIN (\<lambda>a. al_title a = t) (rows (sess st1))")
      case None
      then show ?thesis using assms fl Inr f by (auto simp: refresh_open_def total_health_def)
    next
      case (Some a)
      note a = find_open_SomeD [OF Some]
      obtain c a' ls where r: "refresh_alert (Some m) (Some d) sev a = (c, a', ls)"
        by (rule prod_cases3)
      let ?st2 = "note_stale_rung sev a st1"
      let ?s' = "(sess ?st2)\<lparr>rows := store_row a' (rows (sess ?st2)), logs := logs (sess ?st2) @ ls\<rparr>"
      have s': "sess st' = ?s'" and rest: "unflushed st' = unflushed st1" "res = Inr c"
          "open_titles (mem st') = open_titles (mem st1)" "written_titles (mem st') = written_titles (mem st1)"
        using assms by (auto simp: refresh_open_def Let_def fl Inr Some r split: if_splits)
      have "own_effect SYSADMIN (sess st) (sess st')"
        using a f(3) by (intro eff_refresh [OF _ _ _ r]) (simp_all add: s')
      moreover have "open_own (sess st') = open_own (sess st)" if "session_ok (sess st)"
      proof -
        have "session_ok (sess ?st2)" using that f(3) by (simp add: session_ok_def)
        then show ?thesis
          using a f(3) unfolding s' fun_eq_iff
          by (subst open_own_store_row [OF _ _ _ _ r]) (simp_all add: open_own_def)
      qed
      ultimately show ?thesis
        using rest f by (auto simp: total_health_def s')
    qed
  qed
  then show "(own_effect SYSADMIN)\<^sup>*\<^sup>* (sess st) (sess st')"
    and "open_titles (mem st') = open_titles (mem st)" "written_titles (mem st') = written_titles (mem st)"
    and "\<And>e. res = Inl e \<Longrightarrow> is_sqlalchemy_error e"
    and "\<And>b. res = Inr b \<Longrightarrow> unflushed st' = [] \<and> total_health st' = total_health st
      \<and> (session_ok (sess st) \<longrightarrow> open_own (sess st') = open_own (sess st))"
    by blast+
qed

lemma raise_judged_ok:
  assumes "titles_exact st"
  shows "judged_ok st (raise_judged sev t m d dedup st)"
proof -
  let ?st1 = "upd_mem (\<lambda>m. m\<lparr>judged_titles := List.insert t (judged_titles m)\<rparr>) st"
  let ?st2 = "upd_sess (log_line ''debug'' ''alert_suppressed_row_already_open'')
    (upd_mem (\<lambda>m. m\<lparr>suppressed := Suc (suppressed m)\<rparr>) ?st1)"
  have ex2: "titles_exact ?st2" "total_health ?st2 = total_health st"
    "(own_effect SYSADMIN)\<^sup>*\<^sup>* (sess st) (sess ?st2)"
    using assms by (auto simp: titles_exact_def session_ok_def open_own_def total_health_def)
  consider "dedup" "t \<in> set (open_titles (mem st))"
    | "dedup" "t \<notin> set (open_titles (mem st))" "t \<in> set (written_titles (mem st))"
    | "\<not> (dedup \<and> (t \<in> set (open_titles (mem st)) \<or> t \<in> set (written_titles (mem st))))"
    by blast
  then show ?thesis
  proof cases
    case 1
    obtain res st3 where r: "refresh_open t m d (Some sev) ?st2 = (res, st3)" by force
    note e = refresh_open_effect [OF r]
    have "raise_judged sev t m d dedup st = (map_sum id (\<lambda>_. 0) res, st3)"
      using 1 r by (cases res) (simp_all add: raise_judged_def Let_def)
    moreover have "(own_effect SYSADMIN)\<^sup>*\<^sup>* (sess st) (sess st3)"
      using ex2(3) e(1) by (rule rtranclp_trans)
    moreover have "titles_exact st3 \<and> total_health st3 = total_health st" if "res = Inr b" for b
      using e(2,3,5) that ex2 own_effects_ok [OF e(1)] by (auto simp: titles_exact_def)
    ultimately show ?thesis using e by (cases res) (auto simp: judged_ok_def)
  next
    case 2
    then have "raise_judged sev t m d dedup st = (Inr 0, ?st2)"
      by (simp add: raise_judged_def Let_def)
    with ex2 show ?thesis by (simp add: judged_ok_def)
  next
    case 3
    obtain fr st3 where fl: "flush_health ?st1 = (fr, st3)" by force
    show ?thesis
    proof (cases fr)
      case (Inl e)
      note f = flush_health_Inl [OF fl [unfolded Inl]]
      have "raise_judged sev t m d dedup st = (Inl e, st3)"
        using 3 fl Inl by (auto simp: raise_judged_def Let_def)
      with f show ?thesis by (simp add: judged_ok_def)
    next
      case (Inr u)
      note f = flush_health_Inr [OF fl [unfolded Inr]]
      show ?thesis
      proof (cases "raise_alert SYSADMIN sev t (Some m) (Some d) (sess st3)")
        case (Inl e)
        have "is_sqlalchemy_error e"
          using Inl flush_insert_error by (auto simp: raise_alert_def Let_def split: sum.splits)
        moreover have "raise_judged sev t m d dedup st = (Inl e, st3)"
          using 3 fl Inr Inl by (auto simp: raise_judged_def Let_def)
        ultimately show ?thesis using f by (auto simp: judged_ok_def)
      next
        case (Inr x)
        obtain a s' where x: "x = (a, s')" by force
        note r = Inr [unfolded x]
        note ro = raise_alert_open_own [OF r]
        have eq: "raise_judged sev t m d dedup st = (Inr 1, upd_mem (\<lambda>m. m\<lparr>written_titles :=
            List.insert t (written_titles m)\<rparr>) (st3\<lparr>sess := s'\<rparr>))"
          using 3 fl \<open>fr = Inr u\<close> r by (auto simp: raise_judged_def Let_def)
        have "(own_effect SYSADMIN)\<^sup>*\<^sup>* (sess st) (sess st3)" using f(3) by auto
        with raise_alert_effect [OF r] have "(own_effect SYSADMIN)\<^sup>*\<^sup>* (sess st) s'" by auto
        then show ?thesis
          using assms f ro by (auto simp: eq judged_ok_def titles_exact_def total_health_def)
      qed
    qed
  qed
qed

lemma judged_ok_frame:
  assumes "sess st' = sess st" "unflushed st' = unflushed st"
    "open_titles (mem st') = open_titles (mem st)" "written_titles (mem st') = written_titles (mem st)"
  shows "judged_ok st' = judged_ok st" and "titles_exact st' = titles_exact st"
  using assms by (simp_all add: judged_ok_def titles_exact_def total_health_def fun_eq_iff split: sum.splits)

lemma judged_ok_log:
  "judged_ok (upd_sess (log_line l e) st) r \<Longrightarrow> judged_ok st r"
  by (auto simp: judged_ok_def total_health_def split: sum.splits
      intro: rtranclp_trans [OF own_effect_same [of "log_line l e (sess st)" "sess st"]])

lemma titles_exact_log: "titles_exact (upd_sess (log_line l e) st) = titles_exact st"
  by (simp add: titles_exact_def session_ok_def open_own_def)

lemma judged_ok_none: "titles_exact st \<Longrightarrow> judged_ok st (Inr 0, st)"
  by (simp add: judged_ok_def)

lemma handle_status_ok:
  assumes "titles_exact st"
  shows "judged_ok st (handle_status trunc restart svc status details st)"
proof -
  have fr: "judged_ok (set_degraded n c st) = judged_ok st" "titles_exact (set_degraded n c st) = titles_exact st"
    "judged_ok (set_failures n c st) = judged_ok st" "titles_exact (set_failures n c st) = titles_exact st"
    for n c st by (intro judged_ok_frame; simp)+
  have ex: "titles_exact (set_failures n c (set_degraded n' c' st))"
    "titles_exact (set_degraded n c (set_failures n' c' st))" for n c n' c'
    using assms by (simp_all add: fr)
  have rj: "judged_ok st (raise_judged sev t m d b (set_failures n c (set_degraded n' c' st)))"
    "judged_ok st (raise_judged sev t m d b (set_degraded n c (set_failures n' c' st)))"
    "judged_ok st (Inr 0, set_failures n c (set_degraded n' c' st))"
    "judged_ok st (Inr 0, set_degraded n c (set_failures n' c' st))" for sev t m d b n c n' c'
    using raise_judged_ok [OF ex(1)] raise_judged_ok [OF ex(2)] judged_ok_none [OF ex(1)]
      judged_ok_none [OF ex(2)] by (simp_all add: fr)
  have logged: "judged_ok st (raise_judged sev t m d b (set_failures n c
      (upd_sess (log_line l e) (set_failures n c' (set_degraded n 0 st)))))" for sev t m d b n c c' l e
    using raise_judged_ok [of "set_failures n c (upd_sess (log_line l e) (set_failures n c' (set_degraded n 0 st)))"]
      judged_ok_log [of l e "set_failures n c' (set_degraded n 0 st)"] assms
    by (simp add: fr titles_exact_log)
  show ?thesis
    unfolding handle_status_def Let_def
    by (simp add: rj logged judged_ok_none [OF assms])
qed

section \<open>One service cannot spoil another's\<close>

lemma savepoint_fails: "isl (fst (body st)) \<Longrightarrow> isl (fst (savepoint body st))"
  by (cases "body st") (auto simp: savepoint_def Let_def split: sum.splits)

text \<open>Between two services nothing is waiting to be flushed.\<close>

definition tidy :: "mstate \<Rightarrow> bool" where
  "tidy st = (titles_exact st \<and> unflushed st = [])"

lemma titles_exact_restored:
  assumes "titles_exact st" and "(own_effect SYSADMIN)\<^sup>*\<^sup>* (sess st) (sess st')"
    and "open_titles (mem st') = open_titles (mem st)" "written_titles (mem st') = written_titles (mem st)"
    and "rows (sess st'') = rows (sess st)" "fresh_id (sess st'') = fresh_id (sess st')" "mem st'' = mem st'"
  shows "titles_exact st''"
  using assms own_effects_fresh [OF assms(2)]
  by (fastforce simp: titles_exact_def session_ok_def open_own_def)

lemma write_service_cases:
  assumes "tidy st"
  obtains (written) k st' where "write_service env r st = (Inr k, st')" and "tidy st'"
      and "health (sess st') = health (sess st) @ [\<lparr>sh_service_name = svc_name (rd_service r),
        sh_status = rd_status r, sh_response_time_ms = rd_response_time_ms r, sh_details = rd_details r\<rparr>]"
      and "others SYSADMIN (rows (sess st')) = others SYSADMIN (rows (sess st))"
    | (refused) e st' where "write_service env r st = (Inl e, st')" and "is_sqlalchemy_error e"
      and "tidy st'" and "rows (sess st') = rows (sess st)" and "health (sess st') = health (sess st)"
proof -
  let ?h = "\<lparr>sh_service_name = svc_name (rd_service r), sh_status = rd_status r,
    sh_response_time_ms = rd_response_time_ms r, sh_details = rd_details r\<rparr>"
  let ?st = "add_health ?h st"
  have t: "titles_exact ?st" "unflushed ?st = [?h]" "sess ?st = sess st" "mem ?st = mem st"
    using assms by (simp_all add: tidy_def titles_exact_def add_health_def)
  have st: "titles_exact st" "unflushed st = []" using assms by (simp_all add: tidy_def)
  obtain res st1 where h: "handle_status (me_trunc env) (me_restart env) (rd_service r) (rd_status r)
      (rd_details r) ?st = (res, st1)" by force
  have j: "judged_ok ?st (res, st1)" using handle_status_ok [OF t(1)] h by metis
  let ?undo = "\<lambda>x. x\<lparr>unflushed := [], sess := (sess x)\<lparr>rows := rows (sess st), health := health (sess st)\<rparr>\<rparr>"
  have bk: "tidy (?undo x)" if "mem x = mem st1" "sess x = sess st1"
    "written_titles (mem st1) = written_titles (mem st)" for x
    using titles_exact_restored [OF t(1), of st1 "?undo x"] j that st t
    by (simp add: judged_ok_def tidy_def)
  show ?thesis
  proof (cases res)
    case (Inl e)
    with h have "write_service env r st = (Inl e, ?undo st1)"
      by (simp add: write_service_def savepoint_def Let_def st)
    with Inl j bk [of st1] t show ?thesis by (intro refused [of e "?undo st1"]) (simp_all add: judged_ok_def)
  next
    case (Inr k)
    then have j': "titles_exact st1" "total_health st1 = health (sess st) @ [?h]"
      "unflushed st1 = [] \<or> written_titles (mem st1) = written_titles (mem st)"
      "(own_effect SYSADMIN)\<^sup>*\<^sup>* (sess st) (sess st1)"
      using j t by (auto simp: judged_ok_def total_health_def)
    obtain fr st2 where fl: "flush_health st1 = (fr, st2)" by force
    show ?thesis
    proof (cases fr)
      case (Inl e)
      note f = flush_health_Inl [OF fl [unfolded Inl]]
      have "written_titles (mem st1) = written_titles (mem st)" using j'(3) f(3) by auto
      moreover have "write_service env r st = (Inl e, ?undo st1)"
        using h Inr fl Inl f(1) by (simp add: write_service_def savepoint_def Let_def st)
      ultimately show ?thesis using f(2) bk [of st1] by (intro refused [of e "?undo st1"]) simp_all
    next
      case (Inr u)
      note f = flush_health_Inr [OF fl [unfolded Inr]]
      have "write_service env r st = (Inr k, st2)"
        using h \<open>res = Inr k\<close> fl Inr by (simp add: write_service_def savepoint_def Let_def)
      moreover have "tidy st2"
        using f j'(1) by (simp add: tidy_def titles_exact_def)
      moreover have "health (sess st2) = health (sess st) @ [?h]"
        using f j'(2) by (simp add: total_health_def)
      moreover have "others SYSADMIN (rows (sess st2)) = others SYSADMIN (rows (sess st))"
        using own_effects_others [OF j'(4)] st(1) f(3) by (simp add: titles_exact_def)
      ultimately show ?thesis by (rule written)
    qed
  qed
qed

lemma tidy_frame:
  "tidy (upd_sess (log_line l e) st) = tidy st"
  "tidy (upd_sess (queue_event t d) st) = tidy st"
  "tidy (ensure_arbitration stops st) = tidy st"
  by (simp_all add: tidy_def titles_exact_def session_ok_def open_own_def ensure_arbitration_def)

lemma isolate_write_failure_health:
  assumes "tidy st" and "py_len (svc_name svc) \<le> 100"
  obtains st' h where "isolate_write_failure mk et svc status e st = st'" and "tidy st'"
    and "health (sess st') = health (sess st) @ [h]" and "sh_service_name h = svc_name svc"
    and "sh_status h = ''error''" and "rows (sess st') = rows (sess st)"
proof -
  let ?st1 = "upd_sess (log_line ''error'' ''service_write_isolated'') st"
  let ?h = "\<lparr>sh_service_name = svc_name svc, sh_status = ''error'', sh_response_time_ms = None,
    sh_details = [(''source'', JStr ''write_isolation''), (''attempted_status'', JStr status),
      (''error'', JStr (truncate_error mk et e))]\<rparr>"
  have "health_row_ok ?h"
    using assms(2) by (simp add: health_row_ok_def health_columns_fit_def chk_health_status_def py_len_def
        utf8_continuation_def)
  then have "savepoint (\<lambda>x. (Inr (), add_health ?h x)) ?st1
      = (Inr (), ?st1\<lparr>sess := (sess ?st1)\<lparr>health := health (sess st) @ [?h]\<rparr>\<rparr>)"
    using assms(1) flush_health_ok [of "add_health ?h ?st1"]
    by (simp add: savepoint_def add_health_def tidy_def)
  then have "isolate_write_failure mk et svc status e st
      = ?st1\<lparr>sess := (sess ?st1)\<lparr>health := health (sess st) @ [?h]\<rparr>\<rparr>"
    by (simp add: isolate_write_failure_def Let_def)
  with assms(1) show ?thesis
    by (intro that [of "isolate_write_failure mk et svc status e st" ?h])
      (simp_all add: tidy_def titles_exact_def session_ok_def open_own_def)
qed

lemma announce_status_frame:
  "tidy (announce_status n x st) = tidy st"
  "rows (sess (announce_status n x st)) = rows (sess st)"
  "health (sess (announce_status n x st)) = health (sess st)"
  by (simp_all add: announce_status_def tidy_def titles_exact_def session_ok_def open_own_def)

lemma ensure_arbitration_frame [simp]: "sess (ensure_arbitration a st) = sess st"
  by (simp add: ensure_arbitration_def)

text \<open>The health row a turn leaves: the reading, or the mark that it could not be written.\<close>

definition turn_row :: "reading \<Rightarrow> string list \<Rightarrow> health_row \<Rightarrow> bool" where
  "turn_row r failures h =
     (sh_service_name h = svc_name (rd_service r)
      \<and> (sh_status h = rd_status r \<or> sh_status h = ''error'' \<and> svc_name (rd_service r) \<in> set failures))"

lemma service_turn_ok:
  assumes "tidy st" and "py_len (svc_name (rd_service r)) \<le> 100"
  shows "\<exists>c' st' h. service_turn env r c st = (Inr c', st') \<and> tidy st'
    \<and> others SYSADMIN (rows (sess st')) = others SYSADMIN (rows (sess st))
    \<and> health (sess st') = health (sess st) @ [h] \<and> turn_row r (lc_write_failures c') h
    \<and> set (lc_write_failures c) \<subseteq> set (lc_write_failures c')"
proof -
  let ?st1 = "if rd_status r \<in> set [''critical'', ''unreachable'']
    then ensure_arbitration (me_stops env) st else st"
  have t1: "tidy ?st1" "sess ?st1 = sess st" using assms(1) by (simp_all add: tidy_frame)
  show ?thesis
    using t1(1)
  proof (cases rule: write_service_cases [where env = env and r = r])
    case (written k st')
    then show ?thesis
      using t1(2) by (simp add: service_turn_def Let_def announce_status_frame turn_row_def)
  next
    case (refused e st')
    obtain st2 h where "isolate_write_failure (me_marker env) (me_err_text env) (rd_service r)
        (rd_status r) e st' = st2" "tidy st2" "health (sess st2) = health (sess st') @ [h]"
      "sh_service_name h = svc_name (rd_service r)" "sh_status h = ''error''" "rows (sess st2) = rows (sess st')"
      by (rule isolate_write_failure_health [OF refused(3) assms(2)])
    then show ?thesis
      using refused t1(2) by (auto simp: service_turn_def Let_def turn_row_def)
  qed
qed

lemma service_loop_ok:
  assumes "tidy st" and "list_all (\<lambda>r. py_len (svc_name (rd_service r)) \<le> 100) rs"
  shows "\<exists>c' st' hs. service_loop env rs c st = (Inr c', st') \<and> tidy st'
    \<and> others SYSADMIN (rows (sess st')) = others SYSADMIN (rows (sess st))
    \<and> health (sess st') = health (sess st) @ hs \<and> list_all2 (\<lambda>r. turn_row r (lc_write_failures c')) rs hs
    \<and> set (lc_write_failures c) \<subseteq> set (lc_write_failures c')"
  using assms
proof (induction rs arbitrary: c st)
  case (Cons r rs)
  then obtain c1 st1 h where t: "service_turn env r c st = (Inr c1, st1)" "tidy st1"
    "others SYSADMIN (rows (sess st1)) = others SYSADMIN (rows (sess st))"
    "health (sess st1) = health (sess st) @ [h]" "turn_row r (lc_write_failures c1) h"
    "set (lc_write_failures c) \<subseteq> set (lc_write_failures c1)"
    using service_turn_ok [OF Cons.prems(1), of r env c] by auto
  obtain c' st' hs where l: "service_loop env rs c1 st1 = (Inr c', st')" "tidy st'"
    "others SYSADMIN (rows (sess st')) = others SYSADMIN (rows (sess st1))"
    "health (sess st') = health (sess st1) @ hs" "list_all2 (\<lambda>r. turn_row r (lc_write_failures c')) rs hs"
    "set (lc_write_failures c1) \<subseteq> set (lc_write_failures c')"
    using Cons.IH [OF t(2), of c1] Cons.prems(2) by auto
  moreover have "turn_row r (lc_write_failures c') h"
    using t(5) l(6) by (auto simp: turn_row_def)
  ultimately show ?case
    using t by (intro exI [of _ c'] exI [of _ st'] exI [of _ "h # hs"]) auto
qed simp

section \<open>Counting\<close>

lemma refresh_open_counts:
  "degraded_counts (mem (snd (refresh_open t m d sev st))) = degraded_counts (mem st)"
  "judged_titles (mem (snd (refresh_open t m d sev st))) = judged_titles (mem st)"
  by (auto simp: refresh_open_def flush_health_def Let_def split: option.splits prod.splits)

lemma raise_judged_counts:
  "degraded_counts (mem (snd (raise_judged sev t m d b st))) = degraded_counts (mem st)
   \<and> judged_titles (mem (snd (raise_judged sev t m d b st))) = List.insert t (judged_titles (mem st))"
proof (cases "b \<and> (t \<in> set (open_titles (mem st)) \<or> t \<in> set (written_titles (mem st)))")
  case True
  let ?st2 = "upd_sess (log_line ''debug'' ''alert_suppressed_row_already_open'')
    (upd_mem (\<lambda>m. m\<lparr>suppressed := Suc (suppressed m)\<rparr>)
      (upd_mem (\<lambda>m. m\<lparr>judged_titles := List.insert t (judged_titles m)\<rparr>) st))"
  obtain res st3 where r: "refresh_open t m d (Some sev) ?st2 = (res, st3)" by force
  have "raise_judged sev t m d b st =
      (if t \<in> set (open_titles (mem st)) then (map_sum id (\<lambda>_. 0) res, st3) else (Inr 0, ?st2))"
    using True r by (cases res) (simp_all add: raise_judged_def Let_def)
  with refresh_open_counts [of t m d "Some sev" ?st2] r show ?thesis by simp
next
  case False
  let ?st1 = "upd_mem (\<lambda>m. m\<lparr>judged_titles := List.insert t (judged_titles m)\<rparr>) st"
  obtain fr st2 where fl: "flush_health ?st1 = (fr, st2)" by force
  have m2: "mem st2 = mem ?st1"
    using fl flush_health_Inr(1) flush_health_Inl(1) by (cases fr) (metis, metis)
  let ?x = "raise_alert SYSADMIN sev t (Some m) (Some d) (sess st2)"
  have "raise_judged sev t m d b st =
      (case fr of Inl e \<Rightarrow> (Inl e, st2)
       | Inr _ \<Rightarrow> (case ?x of Inl e \<Rightarrow> (Inl e, st2)
           | Inr (a, s) \<Rightarrow> (Inr 1, upd_mem (\<lambda>m. m\<lparr>written_titles := List.insert t (written_titles m)\<rparr>)
               (st2\<lparr>sess := s\<rparr>))))"
    unfolding raise_judged_def Let_def if_not_P [OF False] using fl by (cases fr) simp_all
  with m2 show ?thesis by (simp split: sum.splits prod.splits)
qed

definition counted :: "string list" where
  "counted = [''ok'', ''degraded'', ''warning'', ''critical'', ''unreachable'']"

text \<open>The results of one service's checks handled one after the other.\<close>

definition status_run ::
  "(string \<Rightarrow> nat \<Rightarrow> string) \<Rightarrow> (string \<Rightarrow> bool \<Rightarrow> bool \<times> string) \<Rightarrow> service_entry
     \<Rightarrow> (string \<times> jobj) list \<Rightarrow> mstate \<Rightarrow> mstate" where
  "status_run trunc restart svc xs st =
     fold (\<lambda>(status, d) st. snd (handle_status trunc restart svc status d st)) xs st"

definition streak :: "string list \<Rightarrow> nat" where
  "streak ss = length (takeWhile (\<lambda>s. s = ''degraded'') (rev (filter (\<lambda>s. s \<in> set counted) ss)))"

lemma handle_status_degraded_count:
  "dict_get_or (degraded_counts (mem (snd (handle_status trunc restart svc status d st)))) (svc_name svc) 0
   = (if status = ''degraded'' then Suc (dict_get_or (degraded_counts (mem st)) (svc_name svc) 0)
      else if status \<in> set counted then 0 else dict_get_or (degraded_counts (mem st)) (svc_name svc) 0)"
  by (simp add: handle_status_def Let_def raise_judged_counts counted_def SKIPPED_def)

lemma status_run_count:
  assumes "dict_get_or (degraded_counts (mem st)) (svc_name svc) 0 = 0"
  shows "dict_get_or (degraded_counts (mem (status_run trunc restart svc xs st))) (svc_name svc) 0
    = streak (map fst xs)"
proof (induction xs rule: rev_induct)
  case (snoc x xs)
  obtain status d where x: "x = (status, d)" by force
  have "dict_get_or (degraded_counts (mem (status_run trunc restart svc (xs @ [x]) st))) (svc_name svc) 0
      = (if status = ''degraded'' then Suc (streak (map fst xs))
         else if status \<in> set counted then 0 else streak (map fst xs))"
    using snoc by (simp add: status_run_def x handle_status_degraded_count)
  also have "\<dots> = streak (map fst (xs @ [x]))"
    by (simp add: streak_def x) (simp add: counted_def)
  finally show ?case .
qed (simp add: status_run_def streak_def assms)

section \<open>What is closed on recovery\<close>

lemma service_pattern:
  "kind \<in> set SERVICE_ALERT_KINDS \<Longrightarrow>
     list_ex (\<lambda>p. sql_like p (service_alert_title n kind)) RESOLVABLE_TITLE_PATTERNS"
proof -
  assume k: "kind \<in> set SERVICE_ALERT_KINDS"
  then have "sql_plain ('' '' @ kind)" by (auto simp: SERVICE_ALERT_KINDS_def sql_plain_def)
  then have "sql_like (CHR ''%'' # '' '' @ kind) (service_alert_title n kind)"
    unfolding sql_like_suffix [OF \<open>sql_plain ('' '' @ kind)\<close>] service_alert_title_def by (simp add: suffix_def)
  then have "sql_like (''% '' @ kind) (service_alert_title n kind)" by (simp del: sql_like.simps)
  with k show ?thesis
    unfolding RESOLVABLE_TITLE_PATTERNS_def list_ex_iff
    by (intro bexI [of _ "''% '' @ kind"]) (simp_all del: sql_like.simps)
qed

lemma ladder_titles_not_resolvable:
  assumes "n \<in> set AGENT_NAMES"
  shows "\<not> list_ex (\<lambda>p. sql_like p (stall_title n)) RESOLVABLE_TITLE_PATTERNS"
    and "\<not> list_ex (\<lambda>p. sql_like p (failure_title n)) RESOLVABLE_TITLE_PATTERNS"
proof -
  have "list_all (\<lambda>n. \<not> list_ex (\<lambda>p. sql_like p (stall_title n)) RESOLVABLE_TITLE_PATTERNS
      \<and> \<not> list_ex (\<lambda>p. sql_like p (failure_title n)) RESOLVABLE_TITLE_PATTERNS) AGENT_NAMES"
    by code_simp
  with assms show "\<not> list_ex (\<lambda>p. sql_like p (stall_title n)) RESOLVABLE_TITLE_PATTERNS"
    and "\<not> list_ex (\<lambda>p. sql_like p (failure_title n)) RESOLVABLE_TITLE_PATTERNS"
    by (auto simp: list_all_iff)
qed

lemma resolve_recovered_rows:
  "rows (sess (snd (resolve_recovered now u st))) =
     close_where (recovered (judged_titles (mem st)) u) now (rows (sess st))"
  "fst (resolve_recovered now u st) = length (filter (recovered (judged_titles (mem st)) u) (rows (sess st)))"
  by (simp_all add: resolve_recovered_def Let_def)

section \<open>Properties\<close>

definition ex_memory :: memory where
  "ex_memory =
     \<lparr>degraded_counts = [], failure_counts = [], arbitration = None, threshold_keys = [],
      last_status = [], staged_status = [], open_titles = [], written_titles = [], judged_titles = [],
      suppressed = 0, refreshed = 0\<rparr>"

definition ex_mstate :: mstate where
  "ex_mstate = \<lparr>mem = ex_memory, sess = ex_monitor_session, unflushed = []\<rparr>"

definition ex_menv :: monitor_env where
  "ex_menv =
     \<lparr>me_trunc = (\<lambda>s n. take n s), me_restart = (\<lambda>u b. (True, [])), me_stops = NO_ARBITRATION,
      me_marker = ''...'', me_err_text = (\<lambda>e. ''error'')\<rparr>"

definition ex_reading :: reading where
  "ex_reading =
     \<lparr>rd_service = ex_http_entry, rd_status = ''critical'', rd_response_time_ms = None, rd_details = []\<rparr>"

definition no_loop_counts :: loop_counts where
  "no_loop_counts = \<lparr>lc_raised = 0, lc_unhealthy = [], lc_write_failures = []\<rparr>"

text \<open>The state after a restart of the example's service was written about, in a later run.\<close>

definition ex_restarted_row :: alert where
  "ex_restarted_row =
     \<lparr>al_id = 0, al_agent = ''sysadmin'', al_severity = ''warning'', al_title = ''api auto-restarted'',
      al_message = None, al_details = [], al_acknowledged = False, al_acknowledged_at = None,
      al_resolved = False, al_resolved_at = None, al_created_at = 0\<rparr>"

definition ex_restarted :: mstate where
  "ex_restarted =
     \<lparr>mem = ex_memory\<lparr>open_titles := [''api auto-restarted'']\<rparr>,
      sess = ex_monitor_session\<lparr>rows := [ex_restarted_row], fresh_id := 1\<rparr>, unflushed = []\<rparr>"

lemma tidy_ex_mstate: "tidy ex_mstate"
  by (simp add: tidy_def titles_exact_def ex_mstate_def ex_memory_def ex_monitor_session_def session_ok_def
      schema_ok_def uq_alerts_open_agent_title_def open_own_def)

text \<open>
  C12: while the titles an agent remembers as open or written are those of its open rows, a judgement
  is never refused by the database: it writes a row exactly when none with its title is open,
  afterwards exactly the titles open before and this one are open, the memory still agrees with
  the table, and the title counts as judged.
\<close>

theorem raise_judged_deduplicates:
  assumes "titles_exact st" and "unflushed st = []" and "known_severity severity" and "py_len title \<le> 255"
  shows "\<exists>k st'. raise_judged severity title message details True st = (Inr k, st') \<and> titles_exact st'
    \<and> k = (if open_own (sess st) title then 0 else 1)
    \<and> (\<forall>t. open_own (sess st') t \<longleftrightarrow> open_own (sess st) t \<or> t = title)
    \<and> title \<in> set (judged_titles (mem st'))"
  using titles_exact_raise [of st severity title message details] assms by simp

theorem raise_judged_deduplicates_witness:
  "\<exists>k st'. raise_judged ''warning'' ''High RAM usage'' [] [] True ex_mstate = (Inr k, st') \<and> k = 1
     \<and> open_own (sess st') ''High RAM usage''"
proof -
  have "titles_exact ex_mstate" "unflushed ex_mstate = []"
    using tidy_ex_mstate by (simp_all add: tidy_def)
  moreover have "\<not> open_own (sess ex_mstate) ''High RAM usage''"
    by (simp add: open_own_def ex_mstate_def ex_monitor_session_def)
  ultimately show ?thesis
    using raise_judged_deduplicates [of ex_mstate "''warning''" "''High RAM usage''" "[]" "[]"]
    by (auto simp: known_severity_iff py_len_def utf8_continuation_def)
qed

text \<open>
  C11: the loop over the services always reaches its end: whatever each check found and whatever the
  database refuses, every service leaves exactly one health row, in order, with the status read or
  with \<open>error\<close> if its writes were refused (and then it is listed as a write failure); the table's
  constraints and the rows of other agents are kept, and nothing is left unflushed.
\<close>

theorem service_loop_isolates:
  assumes "tidy st" and "list_all (\<lambda>r. py_len (svc_name (rd_service r)) \<le> 100) rs"
  shows "\<exists>c' st' hs. service_loop env rs c st = (Inr c', st') \<and> tidy st'
    \<and> others SYSADMIN (rows (sess st')) = others SYSADMIN (rows (sess st))
    \<and> health (sess st') = health (sess st) @ hs
    \<and> list_all2 (\<lambda>r. turn_row r (lc_write_failures c')) rs hs"
  using service_loop_ok [OF assms, of env c] by blast

theorem service_loop_isolates_witness:
  "\<exists>c' st' h. service_loop ex_menv [ex_reading] no_loop_counts ex_mstate = (Inr c', st')
     \<and> health (sess st') = [h] \<and> turn_row ex_reading (lc_write_failures c') h"
proof -
  have n: "list_all (\<lambda>r. py_len (svc_name (rd_service r)) \<le> 100) [ex_reading]"
    by (simp add: ex_reading_def ex_http_entry_def py_len_def utf8_continuation_def)
  have "health (sess ex_mstate) = []" by (simp add: ex_mstate_def ex_monitor_session_def)
  with service_loop_isolates [OF tidy_ex_mstate n, of ex_menv no_loop_counts] show ?thesis
    by (auto simp: list_all2_Cons1)
qed

lemma raise_judged_refused:
  assumes "open_own (sess st) t"
  shows "isl (fst (raise_judged sev t m d False st))"
proof -
  let ?st1 = "upd_mem (\<lambda>m. m\<lparr>judged_titles := List.insert t (judged_titles m)\<rparr>) st"
  obtain fr st2 where fl: "flush_health ?st1 = (fr, st2)" by force
  have "rows (sess st2) = rows (sess st)"
    using fl by (cases fr) (auto dest: flush_health_Inr(3) flush_health_Inl(1))
  then have "open_own (sess st2) t" using assms by (simp add: open_own_def)
  then have "\<exists>e. raise_alert SYSADMIN sev t (Some m) (Some d) (sess st2) = Inl e"
    using raise_alert_open_own(4) by (metis sum.exhaust surj_pair)
  then show ?thesis using fl by (cases fr) (auto simp: raise_judged_def Let_def)
qed

text \<open>
  C14: a second automatic restart of a service whose first restart row is still open writes no row
  about it: the insert is refused by the index on open titles, the service is listed as a write
  failure, and only the refusal's health row says that anything happened.
\<close>

theorem second_restart_row_refused:
  assumes "tidy st" and "open_own (sess st) (service_alert_title (svc_name svc) ''auto-restarted'')"
    and "rd_service r = svc" and "rd_status r = ''critical'' \<or> rd_status r = ''unreachable''"
    and "svc_auto_restart svc" "svc_controllable svc" "given (systemd_unit svc)"
    and "svc_auto_restart_after_checks svc \<le> int (Suc (dict_get_or (failure_counts (mem st)) (svc_name svc) 0))"
    and "py_len (svc_name svc) \<le> 100"
  shows "\<exists>c' st' h. service_turn env r c st = (Inr c', st') \<and> rows (sess st') = rows (sess st)
    \<and> svc_name svc \<in> set (lc_write_failures c') \<and> health (sess st') = health (sess st) @ [h]
    \<and> sh_status h = ''error'' \<and> lc_raised c' = lc_raised c"
proof -
  let ?st1 = "ensure_arbitration (me_stops env) st"
  have t1: "tidy ?st1" "sess ?st1 = sess st" "failure_counts (mem ?st1) = failure_counts (mem st)"
    using assms(1) by (simp_all add: tidy_frame) (simp add: ensure_arbitration_def)
  have crit: "rd_status r \<noteq> SKIPPED" "rd_status r \<noteq> ''error''" "rd_status r \<noteq> ''ok''"
    "rd_status r \<noteq> ''degraded''" "rd_status r \<noteq> ''warning''"
    using assms(4) by (auto simp: SKIPPED_def)
  have "isl (fst (handle_status trunc restart svc (rd_status r) (rd_details r) x))"
    if "rows (sess x) = rows (sess st)" "failure_counts (mem x) = failure_counts (mem st)" for trunc restart x
    unfolding handle_status_def Let_def using crit assms(2-8) that
    by (simp add: raise_judged_refused open_own_def)
  then have refused: "isl (fst (write_service env r ?st1))"
    using t1 assms(3) unfolding write_service_def
    by (intro savepoint_fails) (simp add: add_health_def)
  show ?thesis
    using t1(1)
  proof (cases rule: write_service_cases [where env = env and r = r])
    case (written k st')
    with refused show ?thesis by simp
  next
    case (refused e st')
    obtain st2 h where "isolate_write_failure (me_marker env) (me_err_text env) (rd_service r)
        (rd_status r) e st' = st2" "tidy st2" "health (sess st2) = health (sess st') @ [h]"
      "sh_service_name h = svc_name (rd_service r)" "sh_status h = ''error''" "rows (sess st2) = rows (sess st')"
      using isolate_write_failure_health [OF refused(3), of "rd_service r"] assms(3,9) by blast
    then show ?thesis
      using refused t1(2) assms(3,4) by (auto simp: service_turn_def Let_def SKIPPED_def)
  qed
qed

theorem second_restart_row_refused_witness:
  "\<exists>c' st' h. service_turn ex_menv ex_reading no_loop_counts ex_restarted = (Inr c', st')
     \<and> rows (sess st') = [ex_restarted_row] \<and> ''api'' \<in> set (lc_write_failures c')
     \<and> health (sess st') = [h] \<and> sh_status h = ''error''"
proof -
  have rows: "rows (sess ex_restarted) = [ex_restarted_row]" "health (sess ex_restarted) = []"
    by (simp_all add: ex_restarted_def ex_monitor_session_def)
  have "session_ok (sess ex_restarted)" by code_simp
  moreover have "open_own (sess ex_restarted) t \<longleftrightarrow> t = ''api auto-restarted''" for t
    by (auto simp: open_own_def rows ex_restarted_row_def SYSADMIN_def unresolved_def)
  ultimately have "tidy ex_restarted" "open_own (sess ex_restarted) (service_alert_title ''api'' ''auto-restarted'')"
    by (auto simp: tidy_def titles_exact_def ex_restarted_def ex_memory_def service_alert_title_def)
  then show ?thesis
    using second_restart_row_refused [of ex_restarted ex_http_entry ex_reading ex_menv no_loop_counts]
    by (auto simp: rows ex_reading_def ex_http_entry_def systemd_unit_def given_def py_len_def
        utf8_continuation_def)
qed

text \<open>
  A service counts as degraded only on its streak: after any sequence of results from a fresh
  count, the count is the number of degraded results since the last other result (skipped and
  failed checks do not interrupt it), and a further degraded result is judged exactly when that
  makes three; before that it changes nothing but the count.
\<close>

theorem degraded_needs_streak:
  assumes "dict_get_or (degraded_counts (mem st)) (svc_name svc) 0 = 0"
    and "st' = status_run trunc restart svc xs st"
    and "handle_status trunc restart svc ''degraded'' d st' = (res, st'')"
  shows "dict_get_or (degraded_counts (mem st')) (svc_name svc) 0 = streak (map fst xs)
    \<and> (if 2 \<le> streak (map fst xs)
       then service_alert_title (svc_name svc) ''degraded'' \<in> set (judged_titles (mem st''))
       else res = Inr 0 \<and> sess st'' = sess st' \<and> judged_titles (mem st'') = judged_titles (mem st'))"
proof -
  have c: "dict_get_or (degraded_counts (mem st')) (svc_name svc) 0 = streak (map fst xs)"
    unfolding assms(2) by (rule status_run_count [OF assms(1)])
  have st'': "st'' = snd (handle_status trunc restart svc ''degraded'' d st')"
    and res: "res = fst (handle_status trunc restart svc ''degraded'' d st')" using assms(3) by simp_all
  show ?thesis
    unfolding st'' res by (simp add: c handle_status_def SKIPPED_def Let_def DEGRADED_STREAK_def raise_judged_counts)
qed

theorem degraded_needs_streak_witness:
  "streak [''ok'', ''degraded'', ''skipped'', ''degraded''] = 2
   \<and> service_alert_title ''api'' ''degraded'' \<in> set (judged_titles (mem (snd (handle_status (\<lambda>s n. s)
       (\<lambda>u b. (True, [])) ex_http_entry ''degraded'' []
       (status_run (\<lambda>s n. s) (\<lambda>u b. (True, [])) ex_http_entry
          [(''ok'', []), (''degraded'', []), (''skipped'', []), (''degraded'', [])] ex_mstate)))))"
proof -
  have n: "streak [''ok'', ''degraded'', ''skipped'', ''degraded''] = 2"
    by (simp add: streak_def counted_def)
  have "dict_get_or (degraded_counts (mem ex_mstate)) (svc_name ex_http_entry) 0 = 0"
    by (simp add: ex_mstate_def ex_memory_def dict_get_or_def)
  from degraded_needs_streak [OF this refl surjective_pairing, of "\<lambda>s n. s" "\<lambda>u b. (True, [])"
      "[(''ok'', []), (''degraded'', []), (''skipped'', []), (''degraded'', [])]" "[]"] n
  show ?thesis by (simp add: ex_http_entry_def)
qed



end
