(* ===== verification/Sysadmin_Resources.thy ===== *)
theory Sysadmin_Resources
  imports Sysadmin_Status
begin

text \<open>
  The resource checks of the monitor: the fixed limits (\<open>_check_thresholds\<close>), the metrics of a
  snapshot and their history, and the z-score detector (\<open>src/sysadmin/monitor/anomaly.py\<close>) with the
  rows it keeps (\<open>_check_anomalies\<close> of \<open>src/sysadmin/monitor/agent.py\<close>).

  \<^item> A snapshot is a value: what \<open>psutil\<close> and the GPU readers answered. Floats are rationals, so
    every value is finite and the tests with \<open>math.isfinite\<close> hold.
  \<^item> \<open>math.sqrt\<close> is the largest multiple of \<open>10\<^sup>-\<^sup>1\<^sup>2\<close> whose square is not above its argument, computed
    by an integer square root.
\<close>

section \<open>Snapshots\<close>

record thresholds =
  th_disk_warning_percent :: int
  th_disk_critical_percent :: int
  th_ram_warning_percent :: int
  th_gpu_temp_warning_c :: int
  th_gpu_vram_warning_percent :: int

record gpu_reading =
  gr_name :: "string option"
  gr_temp_c :: "rat option"
  gr_vram_percent :: "rat option"

record resource_snapshot =
  rs_cpu_percent :: "rat option"
  rs_ram_percent :: "rat option"
  rs_disk_usage :: "(string, rat option) dict"
  rs_gpu_usage :: "(string, gpu_reading) dict"
  rs_recorded_at :: instant

definition DISK_KEY_PREFIX :: string where
  "DISK_KEY_PREFIX = ''disk:''"

definition disk_alert_title :: "string \<Rightarrow> bool \<Rightarrow> string" where
  "disk_alert_title mount critical = (if critical then ''Critical'' else ''High'') @ '' disk usage on '' @ mount"

section \<open>Fixed limits\<close>

text \<open>A judgement a check is about to pass, with the key it adds to \<open>_threshold_keys\<close>.\<close>

record judgement =
  jd_key :: "string option"
  jd_severity :: string
  jd_title :: string
  jd_message :: string
  jd_details :: jobj

definition ram_judgements :: "thresholds \<Rightarrow> resource_snapshot \<Rightarrow> judgement list" where
  "ram_judgements th snap =
     (case rs_ram_percent snap of
        None \<Rightarrow> []
      | Some p \<Rightarrow>
          if p \<noteq> 0 \<and> of_int (th_ram_warning_percent th) \<le> p
          then [\<lparr>jd_key = Some ''ram'', jd_severity = ''warning'', jd_title = ''High RAM usage'',
                 jd_message = ''RAM at '' @ show_float p @ ''% (threshold: ''
                   @ show_int (th_ram_warning_percent th) @ ''%)'',
                 jd_details = [(''ram_percent'', JNum p), (''resource'', JStr ''ram''), (''threshold'', JBool True)]\<rparr>]
          else [])"

definition gpu_judgements :: "thresholds \<Rightarrow> string \<times> gpu_reading \<Rightarrow> judgement list" where
  "gpu_judgements th entry =
     (case entry of
        (card_id, gpu) \<Rightarrow>
          (let gpu_name = (case gr_name gpu of None \<Rightarrow> card_id | Some n \<Rightarrow> n)
           in (case gr_temp_c gpu of
                 None \<Rightarrow> []
               | Some temp \<Rightarrow>
                   if of_int (th_gpu_temp_warning_c th) \<le> temp
                   then [\<lparr>jd_key = None, jd_severity = ''warning'',
                          jd_title = ''High GPU temperature on '' @ gpu_name,
                          jd_message = ''GPU temp at '' @ show_float temp @ degree_sign @ ''C (threshold: ''
                            @ show_int (th_gpu_temp_warning_c th) @ degree_sign @ ''C)'',
                          jd_details = [(''card'', JStr card_id), (''temp_c'', JNum temp)]\<rparr>]
                   else [])
              @ (case gr_vram_percent gpu of
                   None \<Rightarrow> []
                 | Some pct \<Rightarrow>
                     if of_int (th_gpu_vram_warning_percent th) \<le> pct
                     then [\<lparr>jd_key = None, jd_severity = ''warning'',
                            jd_title = ''High VRAM usage on '' @ gpu_name,
                            jd_message = ''VRAM at '' @ show_float pct @ ''% (threshold: ''
                              @ show_int (th_gpu_vram_warning_percent th) @ ''%)'',
                            jd_details = [(''card'', JStr card_id), (''vram_percent'', JNum pct)]\<rparr>]
                     else [])))"

definition disk_judgements :: "thresholds \<Rightarrow> string \<times> rat option \<Rightarrow> judgement list" where
  "disk_judgements th usage =
     (case usage of
        (mount, percent) \<Rightarrow>
          (let pct = (case percent of None \<Rightarrow> 0 | Some p \<Rightarrow> p);
               disk_key = DISK_KEY_PREFIX @ mount;
               judged = (\<lambda>severity critical limit.
                 [\<lparr>jd_key = Some disk_key, jd_severity = severity, jd_title = disk_alert_title mount critical,
                   jd_message = ''Disk at '' @ show_float pct @ ''% on '' @ mount @ '' (threshold: ''
                     @ show_int limit @ ''%)'',
                   jd_details = [(''mount'', JStr mount), (''percent'', JNum pct), (''resource'', JStr disk_key),
                     (''threshold'', JBool True)]\<rparr>])
           in if of_int (th_disk_critical_percent th) \<le> pct
              then judged ''critical'' True (th_disk_critical_percent th)
              else if of_int (th_disk_warning_percent th) \<le> pct
              then judged ''warning'' False (th_disk_warning_percent th)
              else []))"

definition threshold_judgements :: "thresholds \<Rightarrow> resource_snapshot \<Rightarrow> judgement list" where
  "threshold_judgements th snap =
     ram_judgements th snap @ concat (map (gpu_judgements th) (rs_gpu_usage snap))
     @ concat (map (disk_judgements th) (rs_disk_usage snap))"

text \<open>Each judgement notes its key before it is passed; a refused write ends the check.\<close>

fun pass_judgements :: "judgement list \<Rightarrow> nat \<Rightarrow> nat step" where
  "pass_judgements [] n st = (Inr n, st)"
| "pass_judgements (j # js) n st =
     (let st1 = (case jd_key j of
                   None \<Rightarrow> st
                 | Some k \<Rightarrow> upd_mem (\<lambda>m. m\<lparr>threshold_keys := List.insert k (threshold_keys m)\<rparr>) st)
      in case raise_judged (jd_severity j) (jd_title j) (jd_message j) (jd_details j) True st1 of
           (Inl e, st2) \<Rightarrow> (Inl e, st2)
         | (Inr k, st2) \<Rightarrow> pass_judgements js (n + k) st2)"

definition check_thresholds :: "resource_snapshot \<Rightarrow> thresholds \<Rightarrow> nat step" where
  "check_thresholds snap th st =
     pass_judgements (threshold_judgements th snap) 0 (upd_mem (\<lambda>m. m\<lparr>threshold_keys := []\<rparr>) st)"

section \<open>Metrics\<close>

definition snapshot_metrics :: "resource_snapshot \<Rightarrow> (string, rat) dict" where
  "snapshot_metrics snap =
     (let cpu = (case rs_cpu_percent snap of None \<Rightarrow> [] | Some p \<Rightarrow> [(''cpu'', p)]);
          ram = (case rs_ram_percent snap of None \<Rightarrow> [] | Some p \<Rightarrow> [(''ram'', p)])
      in fold (\<lambda>(mount, percent) d. case percent of None \<Rightarrow> d | Some p \<Rightarrow> dict_set (DISK_KEY_PREFIX @ mount) p d)
           (rs_disk_usage snap) (cpu @ ram))"

record anomaly_config =
  an_enabled :: bool
  an_window_days :: int
  an_z_threshold :: rat
  an_min_samples :: nat
  an_min_stdev :: rat
  an_severity :: string

definition load_metric_history ::
  "instant \<Rightarrow> anomaly_config \<Rightarrow> resource_snapshot list \<Rightarrow> (string, rat list) dict" where
  "load_metric_history now cfg stored =
     (if \<not> an_enabled cfg then []
      else
        (let since = now - an_window_days cfg * 86400000000
         in fold (\<lambda>row history.
                fold (\<lambda>(key, value) h. dict_set key (dict_get_or h key [] @ [value]) h)
                  (snapshot_metrics row) history)
              (filter (\<lambda>row. since \<le> rs_recorded_at row) stored) []))"

section \<open>The detector\<close>

definition metric_label :: "string \<Rightarrow> string" where
  "metric_label key =
     (if take (length DISK_KEY_PREFIX) key = DISK_KEY_PREFIX
      then ''disk '' @ drop (length DISK_KEY_PREFIX) key
      else if key = ''cpu'' then ''CPU'' else if key = ''ram'' then ''RAM'' else key)"

definition series_mean :: "rat list \<Rightarrow> rat" where
  "series_mean xs = (if xs = [] then 0 else sum_list xs / of_nat (length xs))"

text \<open>The integer square root, a binary digit of the root per two digits of the number.\<close>

function isqrt :: "nat \<Rightarrow> nat" where
  "isqrt n =
     (if n = 0 then 0
      else (let r = 2 * isqrt (n div 4) in if (r + 1) * (r + 1) \<le> n then r + 1 else r))"
  by pat_completeness auto
termination by (relation "measure id") auto

declare isqrt.simps [simp del]

definition math_sqrt :: "rat \<Rightarrow> rat" where
  "math_sqrt x = of_nat (isqrt (nat \<lfloor>x * 10 ^ 24\<rfloor>)) / 10 ^ 12"

definition variance :: "rat list \<Rightarrow> rat" where
  "variance xs =
     (let mu = series_mean xs in sum_list (map (\<lambda>v. (v - mu)\<^sup>2) xs) / (of_nat (length xs) - 1))"

definition stdev :: "rat list \<Rightarrow> rat" where
  "stdev xs = (if length xs < 2 then 0 else math_sqrt (variance xs))"

definition z_score :: "rat \<Rightarrow> rat \<Rightarrow> rat \<Rightarrow> rat option" where
  "z_score value mu sigma = (if sigma \<le> 0 then None else Some ((value - mu) / sigma))"

record anomaly =
  an_key :: string
  an_label :: string
  an_value :: rat
  an_mean :: rat
  an_stdev :: rat
  an_z :: rat
  an_samples :: nat

definition direction :: "anomaly \<Rightarrow> string" where
  "direction a = (if 0 \<le> an_z a then ''above'' else ''below'')"

definition as_details :: "anomaly \<Rightarrow> jobj" where
  "as_details a =
     [(''anomaly'', JBool True), (''resource'', JStr (an_key a)),
      (''value'', JNum (py_round_to 2 (an_value a))), (''mean'', JNum (py_round_to 2 (an_mean a))),
      (''stdev'', JNum (py_round_to 2 (an_stdev a))), (''z_score'', JNum (py_round_to 2 (an_z a))),
      (''samples'', JNum (of_nat (an_samples a))), (''direction'', JStr (direction a))]"

text \<open>One turn of the loop of \<open>detect_anomalies\<close>.\<close>

definition anomaly_of :: "(string, rat list) dict \<Rightarrow> anomaly_config \<Rightarrow> string \<times> rat \<Rightarrow> anomaly option" where
  "anomaly_of history cfg kv =
     (case kv of
        (key, value) \<Rightarrow>
          (let series = dict_get_or history key []; sigma = stdev series
           in if length series < an_min_samples cfg then None
              else if sigma < an_min_stdev cfg then None
              else
                (case z_score value (series_mean series) sigma of
                   None \<Rightarrow> None
                 | Some z \<Rightarrow>
                     if \<bar>z\<bar> < an_z_threshold cfg then None
                     else Some \<lparr>an_key = key, an_label = metric_label key, an_value = value,
                            an_mean = series_mean series, an_stdev = sigma, an_z = z,
                            an_samples = length series\<rparr>)))"

text \<open>\<open>sort(key=\<dots>, reverse=True)\<close> is stable: equal keys keep their order.\<close>

definition detect_anomalies ::
  "(string, rat) dict \<Rightarrow> (string, rat list) dict \<Rightarrow> anomaly_config \<Rightarrow> anomaly list" where
  "detect_anomalies current history cfg =
     (if \<not> an_enabled cfg then []
      else sort_key (\<lambda>a. - \<bar>an_z a\<bar>) (List.map_filter (anomaly_of history cfg) current))"

section \<open>The rows of the detector\<close>

definition sigma_sign :: string where
  "sigma_sign = [CHR 0xCF, CHR 0x83]"

definition anomaly_title :: "anomaly \<Rightarrow> string" where
  "anomaly_title a = ''Unusual '' @ an_label a @ '' usage''"

definition anomaly_message :: "anomaly_config \<Rightarrow> anomaly \<Rightarrow> string" where
  "anomaly_message cfg a =
     an_label a @ '' at '' @ show_fixed1 (an_value a) @ ''% is '' @ show_fixed1 \<bar>an_z a\<bar> @ sigma_sign @ '' ''
     @ direction a @ '' the '' @ show_int (an_window_days cfg) @ ''-day mean of '' @ show_fixed1 (an_mean a)
     @ ''% ('' @ sigma_sign @ ''='' @ show_fixed1 (an_stdev a) @ '', n='' @ show_nat (an_samples a) @ '')''"

text \<open>
  The two families among the active rows: the resources a threshold row names, and the open
  anomaly rows by resource. A row with both marks is a threshold row.
\<close>

definition resource_of :: "alert \<Rightarrow> string option" where
  "resource_of a = get_str (al_details a) ''resource''"

definition marked :: "string \<Rightarrow> alert \<Rightarrow> bool" where
  "marked mark a = (case map_of (al_details a) mark of None \<Rightarrow> False | Some v \<Rightarrow> truthy v)"

definition threshold_rows :: "alert list \<Rightarrow> string list" where
  "threshold_rows active = List.map_filter (\<lambda>a. if marked ''threshold'' a then resource_of a else None) active"

definition anomaly_rows :: "alert list \<Rightarrow> (string, nat) dict" where
  "anomaly_rows active =
     fold (\<lambda>a d. case resource_of a of
                   None \<Rightarrow> d
                 | Some r \<Rightarrow> if \<not> marked ''threshold'' a \<and> marked ''anomaly'' a then dict_set r (al_id a) d else d)
       active []"

fun raise_anomalies ::
  "anomaly_config \<Rightarrow> string list \<Rightarrow> (string, nat) dict \<Rightarrow> anomaly list \<Rightarrow> nat \<Rightarrow> session
     \<Rightarrow> py_error + nat \<times> session" where
  "raise_anomalies cfg keys opens [] n s = Inr (n, s)"
| "raise_anomalies cfg keys opens (a # as) n s =
     (if an_key a \<in> set keys
      then raise_anomalies cfg keys opens as n (log_line ''debug'' ''anomaly_suppressed_by_threshold_alert'' s)
      else if dict_get opens (an_key a) \<noteq> None then raise_anomalies cfg keys opens as n s
      else
        (case raise_alert SYSADMIN (an_severity cfg) (anomaly_title a) (Some (anomaly_message cfg a))
                (Some (as_details a)) s of
           Inl e \<Rightarrow> Inl e
         | Inr (_, s') \<Rightarrow> raise_anomalies cfg keys opens as (Suc n) s'))"

definition check_anomalies ::
  "instant \<Rightarrow> resource_snapshot \<Rightarrow> (string, rat list) dict \<Rightarrow> anomaly_config \<Rightarrow> string list \<Rightarrow> session
     \<Rightarrow> py_error + nat \<times> session" where
  "check_anomalies now snap history cfg keys s =
     (if \<not> an_enabled cfg then Inr (0, s)
      else
        (let anomalies = detect_anomalies (snapshot_metrics snap) history cfg;
             active = active_alerts SYSADMIN s;
             opens = anomaly_rows active
         in case raise_anomalies cfg (threshold_rows active @ keys) opens anomalies 0 s of
              Inl e \<Rightarrow> Inl e
            | Inr (raised, s') \<Rightarrow>
                Inr (raised, resolve_alert_ids now
                  (map snd (filter (\<lambda>(key, _). key \<notin> set (map an_key anomalies)) opens)) s')))"

section \<open>Square roots\<close>

lemma isqrt_spec: "isqrt n * isqrt n \<le> n \<and> n < (isqrt n + 1) * (isqrt n + 1)"
proof (induction n rule: isqrt.induct)
  case (1 n)
  show ?case
  proof (cases "n = 0")
    case True
    then show ?thesis by (simp add: isqrt.simps)
  next
    case False
    define r where "r = isqrt (n div 4)"
    have ih: "r * r \<le> n div 4" "n div 4 < (r + 1) * (r + 1)"
      using "1.IH" False by (simp_all add: r_def)
    have "4 * (r * r) \<le> n" using ih(1) by linarith
    moreover have "n < 4 * ((r + 1) * (r + 1))" using ih(2) by linarith
    ultimately have "2 * r * (2 * r) \<le> n" "n < (2 * r + 2) * (2 * r + 2)"
      by (simp_all add: algebra_simps)
    moreover have "isqrt n = (if (2 * r + 1) * (2 * r + 1) \<le> n then 2 * r + 1 else 2 * r)"
      using False by (subst isqrt.simps) (simp add: r_def Let_def)
    ultimately show ?thesis by auto
  qed
qed

lemma isqrt_square: "isqrt (r * r) = r"
proof -
  have "isqrt (r * r) * isqrt (r * r) < (r + 1) * (r + 1)" "r * r < (isqrt (r * r) + 1) * (isqrt (r * r) + 1)"
    using isqrt_spec [of "r * r"] by simp_all
  then have "isqrt (r * r) < r + 1" "r < isqrt (r * r) + 1"
    by (metis mult_le_mono not_le)+
  then show ?thesis by simp
qed

lemma math_sqrt_nonneg [simp]: "0 \<le> math_sqrt x"
  by (simp add: math_sqrt_def)

lemma math_sqrt_bounds:
  assumes "0 \<le> x"
  shows "(math_sqrt x)\<^sup>2 \<le> x \<and> x < (math_sqrt x + 1 / 10 ^ 12)\<^sup>2"
proof -
  define n where "n = nat \<lfloor>x * 10 ^ 24\<rfloor>"
  define r where "r = isqrt n"
  have n: "(of_nat n :: rat) \<le> x * 10 ^ 24" "x * 10 ^ 24 < of_nat n + 1"
    using assms floor_correct [of "x * 10 ^ 24"] by (simp_all add: n_def)
  have "r * r \<le> n" "n < (r + 1) * (r + 1)" using isqrt_spec [of n] by (simp_all add: r_def)
  then have "of_nat (r * r) \<le> (of_nat n :: rat)" "(of_nat n :: rat) + 1 \<le> of_nat ((r + 1) * (r + 1))"
    by (simp_all only: of_nat_le_iff of_nat_Suc [symmetric] Suc_le_eq add.commute)
  with n have lo: "(of_nat r :: rat) * of_nat r \<le> x * 10 ^ 24"
    and hi: "x * 10 ^ 24 < (of_nat r + 1) * (of_nat r + 1 :: rat)"
    by (simp_all add: algebra_simps)
  have s: "math_sqrt x = of_nat r / 10 ^ 12" by (simp add: math_sqrt_def r_def n_def)
  have "(math_sqrt x)\<^sup>2 * 10 ^ 24 = of_nat r * of_nat r"
    by (simp add: s power2_eq_square)
  moreover have "(math_sqrt x + 1 / 10 ^ 12)\<^sup>2 * 10 ^ 24 = (of_nat r + 1) * (of_nat r + 1)"
    by (simp add: s power2_eq_square add_divide_distrib [symmetric])
  ultimately show ?thesis using lo hi by (simp add: mult_le_cancel_right mult_less_cancel_right)
qed

lemma variance_nonneg: "2 \<le> length xs \<Longrightarrow> 0 \<le> variance xs"
  unfolding variance_def Let_def by (intro divide_nonneg_nonneg sum_list_nonneg) auto

section \<open>Detection\<close>

lemma set_map_filter: "set (List.map_filter f xs) = {y. \<exists>x \<in> set xs. f x = Some y}"
  by (auto simp: List.map_filter_def) force

lemma anomaly_of_key: "anomaly_of history cfg kv = Some a \<Longrightarrow> an_key a = fst kv"
  by (auto simp: anomaly_of_def Let_def split: prod.splits if_splits option.splits)

lemma detected_distinct: "dict_wf current \<Longrightarrow> distinct (map an_key (detect_anomalies current history cfg))"
proof -
  note key = anomaly_of_key
  assume "dict_wf current"
  then have "distinct (map an_key (List.map_filter (anomaly_of history cfg) current))"
  proof (induction current)
    case (Cons kv current)
    have "an_key a \<in> fst ` set current" if "a \<in> set (List.map_filter (anomaly_of history cfg) current)" for a
    proof -
      from that obtain x where "x \<in> set current" "anomaly_of history cfg x = Some a"
        unfolding set_map_filter by blast
      with key show ?thesis by auto
    qed
    then show ?case using Cons key by (auto simp: dict_wf_def split: option.splits)
  qed simp
  then show ?thesis by (simp add: detect_anomalies_def distinct_map distinct_sort inj_on_def)
qed

text \<open>
  C20: the detector reports exactly the metrics that are unusual: a metric is reported iff its
  history has the configured number of samples, a standard deviation that is positive and not
  below the configured floor, and a deviation from the mean of at least the configured number of
  them; the standard deviation is that of the samples up to \<open>10\<^sup>-\<^sup>1\<^sup>2\<close>, no metric is reported
  twice, and the most unusual comes first.
\<close>

theorem detect_anomalies_exact:
  assumes "an_enabled cfg" "dict_wf current"
  shows "sorted_wrt (\<lambda>a b. \<bar>an_z b\<bar> \<le> \<bar>an_z a\<bar>) (detect_anomalies current history cfg)
    \<and> distinct (map an_key (detect_anomalies current history cfg))
    \<and> (\<forall>key value. dict_get current key = Some value \<longrightarrow>
         (key \<in> an_key ` set (detect_anomalies current history cfg) \<longleftrightarrow>
            (let xs = dict_get_or history key []
             in an_min_samples cfg \<le> length xs \<and> 0 < stdev xs \<and> an_min_stdev cfg \<le> stdev xs
                \<and> an_z_threshold cfg * stdev xs \<le> \<bar>value - series_mean xs\<bar>)))
    \<and> (\<forall>xs. 2 \<le> length xs \<longrightarrow>
         (stdev xs)\<^sup>2 \<le> variance xs \<and> variance xs < (stdev xs + 1 / 10 ^ 12)\<^sup>2)"
proof (intro conjI allI impI)
  let ?found = "List.map_filter (anomaly_of history cfg) current"
  have d: "detect_anomalies current history cfg = sort_key (\<lambda>a. - \<bar>an_z a\<bar>) ?found"
    using assms(1) by (simp add: detect_anomalies_def)
  show "sorted_wrt (\<lambda>a b. \<bar>an_z b\<bar> \<le> \<bar>an_z a\<bar>) (detect_anomalies current history cfg)"
    using sorted_sort_key [of "\<lambda>a. - \<bar>an_z a\<bar>" ?found]
    by (simp add: d sorted_map)
  note key = anomaly_of_key [of history cfg]
  show "distinct (map an_key (detect_anomalies current history cfg))"
    by (rule detected_distinct [OF assms(2)])
  fix k w assume k: "dict_get current k = Some w"
  have "k \<in> an_key ` set ?found \<longleftrightarrow> (\<exists>a. anomaly_of history cfg (k, w) = Some a)"
  proof
    assume "k \<in> an_key ` set ?found"
    then obtain v a where "(k, v) \<in> set current" "anomaly_of history cfg (k, v) = Some a"
      using key by (fastforce simp: set_map_filter)
    moreover from this have "v = w" using k assms(2) by (simp add: dict_get_def dict_wf_def)
    ultimately show "\<exists>a. anomaly_of history cfg (k, w) = Some a" by blast
  next
    assume "\<exists>a. anomaly_of history cfg (k, w) = Some a"
    then obtain a where a: "anomaly_of history cfg (k, w) = Some a" by blast
    have "(k, w) \<in> set current" using k map_of_SomeD by (simp add: dict_get_def)
    with a key [OF a] show "k \<in> an_key ` set ?found" by (force simp: set_map_filter)
  qed
  also have "\<dots> \<longleftrightarrow> (let xs = dict_get_or history k [] in an_min_samples cfg \<le> length xs \<and> 0 < stdev xs
      \<and> an_min_stdev cfg \<le> stdev xs \<and> an_z_threshold cfg * stdev xs \<le> \<bar>w - series_mean xs\<bar>)"
    by (auto simp: anomaly_of_def Let_def z_score_def abs_divide pos_le_divide_eq pos_divide_less_eq not_le not_less)
  finally show "k \<in> an_key ` set (detect_anomalies current history cfg) \<longleftrightarrow>
      (let xs = dict_get_or history k [] in an_min_samples cfg \<le> length xs \<and> 0 < stdev xs
       \<and> an_min_stdev cfg \<le> stdev xs \<and> an_z_threshold cfg * stdev xs \<le> \<bar>w - series_mean xs\<bar>)"
    by (simp add: d)
next
  fix xs :: "rat list" assume n: "2 \<le> length xs"
  then have "stdev xs = math_sqrt (variance xs)" by (simp add: stdev_def)
  then show "(stdev xs)\<^sup>2 \<le> variance xs" "variance xs < (stdev xs + 1 / 10 ^ 12)\<^sup>2"
    using math_sqrt_bounds [OF variance_nonneg [OF n]] by simp_all
qed

definition sample_anomaly_config :: anomaly_config where
  "sample_anomaly_config =
     \<lparr>an_enabled = True, an_window_days = 7, an_z_threshold = 3, an_min_samples = 3, an_min_stdev = 1,
      an_severity = ''warning''\<rparr>"

lemma sample_stdev: "stdev [10, 20, 30] = 10" "series_mean [10, 20, 30] = 20"
proof -
  have v: "variance [10, 20, 30] = 100" by code_simp
  have "nat \<lfloor>(100 :: rat) * 10 ^ 24\<rfloor> = 10 ^ 13 * 10 ^ 13" by simp
  then show "stdev [10, 20, 30] = 10" using isqrt_square [of "10 ^ 13"] v
    by (simp add: stdev_def math_sqrt_def)
  show "series_mean [10, 20, 30] = 20" by code_simp
qed

theorem detect_anomalies_exact_witness:
  "''cpu'' \<in> an_key ` set (detect_anomalies [(''cpu'', 90)] [(''cpu'', [10, 20, 30])] sample_anomaly_config)"
proof -
  note sample_stdev
  moreover have "dict_wf [(''cpu'', 90 :: rat)]" "an_enabled sample_anomaly_config"
    "dict_get [(''cpu'', 90 :: rat)] ''cpu'' = Some 90"
    by (simp_all add: dict_wf_def dict_get_def sample_anomaly_config_def)
  ultimately show ?thesis
    using detect_anomalies_exact [of sample_anomaly_config "[(''cpu'', 90)]" "[(''cpu'', [10, 20, 30])]"]
    by (simp add: dict_get_or_def sample_anomaly_config_def)
qed

section \<open>Passing judgements\<close>

lemma titles_exact_keys:
  "titles_exact (upd_mem (\<lambda>m. m\<lparr>threshold_keys := f m\<rparr>) st) = titles_exact st"
  by (simp add: titles_exact_def)

lemma raise_judged_unflushed:
  assumes "unflushed st = []" "raise_judged sev t m d dedup st = (Inr k, st')"
  shows "unflushed st' = []"
  using assms
  by (auto simp: raise_judged_def Let_def split: if_splits prod.splits sum.splits
      dest: refresh_open_effect(5) [OF _ refl] flush_health_Inr(2))

lemma raise_judged_judged:
  "raise_judged sev t m d dedup st = (Inr k, st') \<Longrightarrow>
     judged_titles (mem st') = List.insert t (judged_titles (mem st))"
  using raise_judged_counts [of sev t m d dedup st] by simp

lemma pass_judgements_ok:
  assumes "titles_exact st" "unflushed st = []"
    "list_all (\<lambda>j. known_severity (jd_severity j) \<and> py_len (jd_title j) \<le> 255) js"
  obtains st' where "pass_judgements js n st = (Inr (n + card {t \<in> jd_title ` set js. \<not> open_own (sess st) t}), st')"
    "titles_exact st'" "unflushed st' = []"
    "\<And>t. open_own (sess st') t \<longleftrightarrow> open_own (sess st) t \<or> t \<in> jd_title ` set js"
    "set (judged_titles (mem st')) = set (judged_titles (mem st)) \<union> jd_title ` set js"
  using assms
proof (induction js arbitrary: n st thesis)
  case (Cons j js)
  let ?st1 = "case jd_key j of None \<Rightarrow> st
    | Some k \<Rightarrow> upd_mem (\<lambda>m. m\<lparr>threshold_keys := List.insert k (threshold_keys m)\<rparr>) st"
  have st1: "titles_exact ?st1" "unflushed ?st1 = []" "sess ?st1 = sess st"
    "judged_titles (mem ?st1) = judged_titles (mem st)"
    using Cons.prems(2,3) by (auto simp: titles_exact_keys split: option.splits)
  obtain k st2 where r: "raise_judged (jd_severity j) (jd_title j) (jd_message j) (jd_details j) True ?st1 = (Inr k, st2)"
    and st2: "titles_exact st2" "k = (if open_own (sess st) (jd_title j) then 0 else 1)"
      "\<And>t. open_own (sess st2) t \<longleftrightarrow> open_own (sess st) t \<or> t = jd_title j"
    using titles_exact_raise [OF st1(1), of "jd_severity j" "jd_title j" "jd_message j" "jd_details j"]
      Cons.prems(4) st1(2,3) by auto
  have un: "unflushed st2 = []" using raise_judged_unflushed [OF st1(2) r] .
  let ?new = "{t \<in> jd_title ` set js. \<not> open_own (sess st2) t}"
  obtain st' where rest: "pass_judgements js (n + k) st2 = (Inr (n + k + card ?new), st')" "titles_exact st'"
    "unflushed st' = []" "\<And>t. open_own (sess st') t \<longleftrightarrow> open_own (sess st2) t \<or> t \<in> jd_title ` set js"
    "set (judged_titles (mem st')) = set (judged_titles (mem st2)) \<union> jd_title ` set js"
    using Cons.IH [OF _ st2(1) un] Cons.prems(4) by auto
  have "{t \<in> jd_title ` set (j # js). \<not> open_own (sess st) t}
      = (if open_own (sess st) (jd_title j) then ?new else insert (jd_title j) ?new)"
    using st2(3) by auto
  then have "k + card ?new = card {t \<in> jd_title ` set (j # js). \<not> open_own (sess st) t}"
    using st2(2,3) by auto
  then show ?case
    using Cons.prems(1) [of st'] rest r st2(3) raise_judged_judged [OF r] st1(4)
    by (auto simp: add.assoc)
qed auto

section \<open>The rows of anomalies\<close>

text \<open>The keys a snapshot can have, on which the titles tell the resources apart.\<close>

definition metric_key :: "string \<Rightarrow> bool" where
  "metric_key k = (k = ''cpu'' \<or> k = ''ram'' \<or> prefix DISK_KEY_PREFIX k)"

definition key_title :: "string \<Rightarrow> string" where
  "key_title k = ''Unusual '' @ metric_label k @ '' usage''"

lemma key_title_inj: "metric_key k \<Longrightarrow> metric_key l \<Longrightarrow> key_title k = key_title l \<Longrightarrow> k = l"
  by (auto simp: metric_key_def key_title_def metric_label_def DISK_KEY_PREFIX_def prefix_def)

lemma snapshot_metrics_keys: "dict_get (snapshot_metrics snap) k = Some v \<Longrightarrow> metric_key k"
proof -
  have "dict_get (fold (\<lambda>(mount, percent) d. case percent of None \<Rightarrow> d
      | Some p \<Rightarrow> dict_set (DISK_KEY_PREFIX @ mount) p d) us d) k = Some v \<Longrightarrow>
    metric_key k \<or> dict_get d k = Some v" for us d
    by (induction us arbitrary: d) (fastforce simp: metric_key_def split: option.splits if_splits)+
  then show "dict_get (snapshot_metrics snap) k = Some v \<Longrightarrow> metric_key k"
    by (fastforce simp: snapshot_metrics_def Let_def dict_get_def metric_key_def split: option.splits if_splits)
qed

lemma snapshot_metrics_wf: "dict_wf (snapshot_metrics snap)"
proof -
  have "dict_wf d \<Longrightarrow> dict_wf (fold (\<lambda>(mount, percent) d. case percent of None \<Rightarrow> d
      | Some p \<Rightarrow> dict_set (DISK_KEY_PREFIX @ mount) p d) us d)" for us and d :: "(string, rat) dict"
    by (induction us arbitrary: d) (auto split: option.splits)
  then show ?thesis by (auto simp: snapshot_metrics_def Let_def dict_wf_def split: option.splits)
qed

definition anom_open :: "session \<Rightarrow> string \<Rightarrow> alert \<Rightarrow> bool" where
  "anom_open s k a =
     (a \<in> set (rows s) \<and> al_agent a = SYSADMIN \<and> unresolved a \<and> resource_of a = Some k
      \<and> \<not> marked ''threshold'' a \<and> marked ''anomaly'' a)"

text \<open>An open row of the agent is titled as an anomaly of \<open>k\<close> exactly when it is marked as one.\<close>

definition anomaly_inv :: "session \<Rightarrow> bool" where
  "anomaly_inv s =
     (\<forall>a \<in> set (rows s). al_agent a = SYSADMIN \<longrightarrow> unresolved a \<longrightarrow>
        (\<forall>k. anom_open s k a \<longleftrightarrow> metric_key k \<and> al_title a = key_title k))"

lemma anom_open_unique:
  assumes "session_ok s" "anomaly_inv s" "anom_open s k a" "anom_open s k b"
  shows "a = b"
proof -
  have "alert_key a = alert_key b"
    using assms(2-4) unfolding anomaly_inv_def alert_key_def by (metis anom_open_def)
  moreover have "inj_on alert_key (set (filter unresolved (rows s)))"
    using assms(1) by (simp add: session_ok_def schema_ok_def uq_alerts_open_agent_title_def distinct_map)
  ultimately show ?thesis
    using assms(3,4) by (auto simp: anom_open_def inj_on_def)
qed

text \<open>The dict of open anomaly rows holds the id of the row of each resource.\<close>

definition anomaly_entry :: "alert \<Rightarrow> (string \<times> nat) option" where
  "anomaly_entry a =
     (case resource_of a of
        None \<Rightarrow> None
      | Some r \<Rightarrow> if \<not> marked ''threshold'' a \<and> marked ''anomaly'' a then Some (r, al_id a) else None)"

lemma anomaly_rows_eq: "anomaly_rows active = dict_merge [] (List.map_filter anomaly_entry active)"
proof -
  have "fold (\<lambda>a d. case resource_of a of None \<Rightarrow> d
      | Some r \<Rightarrow> if \<not> marked ''threshold'' a \<and> marked ''anomaly'' a then dict_set r (al_id a) d else d) active d
    = fold (\<lambda>(k, v). AList.update k v) (List.map_filter anomaly_entry active) d" for d
    by (induction active arbitrary: d) (auto simp: anomaly_entry_def dict_set_def split: option.splits)
  then show ?thesis by (simp add: anomaly_rows_def dict_merge_def)
qed

lemma anomaly_rows_get:
  assumes "session_ok s" "anomaly_inv s"
  shows "dict_get (anomaly_rows (active_alerts SYSADMIN s)) k = Some i \<longleftrightarrow> (\<exists>a. anom_open s k a \<and> al_id a = i)"
proof -
  let ?kvs = "List.map_filter anomaly_entry (active_alerts SYSADMIN s)"
  have mem: "(k, i) \<in> set ?kvs \<longleftrightarrow> (\<exists>a. anom_open s k a \<and> al_id a = i)" for k i
    by (auto simp: set_map_filter anomaly_entry_def anom_open_def active_alerts_def split: option.splits if_splits)
  have "dict_get (anomaly_rows (active_alerts SYSADMIN s)) k = map_of (rev ?kvs) k"
    by (simp add: anomaly_rows_eq dict_get_def map_of_dict_merge split: option.split)
  moreover have "map_of (rev ?kvs) k = Some i \<longleftrightarrow> (k, i) \<in> set ?kvs"
  proof
    assume "(k, i) \<in> set ?kvs"
    moreover have "j = i" if "(k, j) \<in> set ?kvs" for j
      using that \<open>(k, i) \<in> set ?kvs\<close> mem anom_open_unique [OF assms] by metis
    ultimately show "map_of (rev ?kvs) k = Some i"
      by (metis map_of_SomeD not_None_eq set_rev weak_map_of_SomeI)
  qed (use map_of_SomeD in force)
  ultimately show ?thesis by (simp add: mem)
qed

lemma raise_anomaly:
  assumes "session_ok s" "anomaly_inv s" "known_severity sev" "metric_key (an_key a)"
    "an_label a = metric_label (an_key a)" "py_len (anomaly_title a) \<le> 255" "\<And>b. \<not> anom_open s (an_key a) b"
  obtains b s' where "raise_alert SYSADMIN sev (anomaly_title a) (Some m) (Some (as_details a)) s = Inr (b, s')"
    "session_ok s'" "anomaly_inv s'"
    "\<And>k c. anom_open s' k c \<longleftrightarrow> anom_open s k c \<or> k = an_key a \<and> c = b"
proof -
  let ?t = "anomaly_title a"
  have t: "?t = key_title (an_key a)" using assms(5) by (simp add: anomaly_title_def key_title_def)
  have "al_title b \<noteq> ?t" if "b \<in> set (rows s)" "al_agent b = SYSADMIN" "unresolved b" for b
    using assms(2,4,7) that t by (auto simp: anomaly_inv_def)
  then obtain s' where s': "raise_alert SYSADMIN sev ?t (Some m) (Some (as_details a)) s
      = Inr (new_alert SYSADMIN sev ?t (Some m) (Some (as_details a)) s, s')"
    using raise_alert_succeeds [of SYSADMIN sev ?t s "Some m" "Some (as_details a)"] assms(3,6)
    by (auto simp: SYSADMIN_def alert_agents_def)
  define b where "b = new_alert SYSADMIN sev ?t (Some m) (Some (as_details a)) s"
  note r = raise_alert_Inr [OF s', folded b_def]
  have ne: "an_key a \<noteq> []" using assms(4) by (auto simp: metric_key_def DISK_KEY_PREFIX_def)
  have b: "al_agent b = SYSADMIN" "unresolved b" "al_title b = key_title (an_key a)"
    "resource_of b = Some (an_key a)" "\<not> marked ''threshold'' b" "marked ''anomaly'' b"
    using ne by (simp_all add: b_def t resource_of_def marked_def get_str_def as_details_def)
  have op: "anom_open s' k c \<longleftrightarrow> anom_open s k c \<or> k = an_key a \<and> c = b" for k c
    using b by (auto simp: anom_open_def r(3))
  have new: "b \<notin> set (rows s)"
    using assms(2,4,7) b(1-3) by (auto simp: anomaly_inv_def)
  have "anomaly_inv s'"
    unfolding anomaly_inv_def
  proof (intro ballI impI allI)
    fix c k assume c: "c \<in> set (rows s')" "al_agent c = SYSADMIN" "unresolved c"
    show "anom_open s' k c \<longleftrightarrow> metric_key k \<and> al_title c = key_title k"
    proof (cases "c = b")
      case True
      then show ?thesis using op b(3) assms(4) key_title_inj new by (auto simp: anom_open_def)
    next
      case False
      then show ?thesis using op c assms(2) by (auto simp: anomaly_inv_def r(3))
    qed
  qed
  then show ?thesis
    using that [of b s'] s' op own_effect_ok [OF raise_alert_effect [OF s'] assms(1)] by (simp add: b_def)
qed

lemma anom_frame:
  "rows s' = rows s \<Longrightarrow> anom_open s' = anom_open s" "rows s' = rows s \<Longrightarrow> anomaly_inv s' = anomaly_inv s"
  by (simp_all add: anom_open_def anomaly_inv_def fun_eq_iff)

lemma log_line_ok: "session_ok (log_line l e s) = session_ok s" "rows (log_line l e s) = rows s"
  by (simp_all add: log_line_def session_ok_def)

lemma raise_anomalies_ok:
  assumes "session_ok s" "anomaly_inv s" "known_severity (an_severity cfg)" "distinct (map an_key as)"
    "\<And>a. a \<in> set as \<Longrightarrow> metric_key (an_key a) \<and> an_label a = metric_label (an_key a)
        \<and> py_len (anomaly_title a) \<le> 255
        \<and> (dict_get opens (an_key a) \<noteq> None \<longleftrightarrow> (\<exists>b. anom_open s (an_key a) b))"
  shows "\<exists>n' s'. raise_anomalies cfg keys opens as n s = Inr (n', s') \<and> session_ok s' \<and> anomaly_inv s'
    \<and> (\<forall>k b. anom_open s k b \<longrightarrow> anom_open s' k b)
    \<and> (\<forall>k. (\<exists>b. anom_open s' k b) \<longleftrightarrow> (\<exists>b. anom_open s k b) \<or> k \<in> an_key ` set as - set keys)"
  using assms
proof (induction "as" arbitrary: s n)
  case (Cons a as)
  have a: "metric_key (an_key a)" "an_label a = metric_label (an_key a)" "py_len (anomaly_title a) \<le> 255"
    "dict_get opens (an_key a) \<noteq> None \<longleftrightarrow> (\<exists>b. anom_open s (an_key a) b)"
    using Cons.prems(5) [of a] by auto
  have dist: "an_key a \<notin> an_key ` set as" "distinct (map an_key as)" using Cons.prems(4) by auto
  consider (supp) "an_key a \<in> set keys" | (known) "an_key a \<notin> set keys" "\<exists>b. anom_open s (an_key a) b"
    | (new) "an_key a \<notin> set keys" "\<And>b. \<not> anom_open s (an_key a) b" by blast
  then show ?case
  proof cases
    case supp
    let ?s = "log_line ''debug'' ''anomaly_suppressed_by_threshold_alert'' s"
    note fr = anom_frame [of ?s s, OF log_line_ok(2)]
    have "\<exists>n' s'. raise_anomalies cfg keys opens as n ?s = Inr (n', s') \<and> session_ok s' \<and> anomaly_inv s'
      \<and> (\<forall>k b. anom_open ?s k b \<longrightarrow> anom_open s' k b)
      \<and> (\<forall>k. (\<exists>b. anom_open s' k b) \<longleftrightarrow> (\<exists>b. anom_open ?s k b) \<or> k \<in> an_key ` set as - set keys)"
      using Cons.prems dist by (intro Cons.IH) (simp_all add: log_line_ok fr)
    then show ?thesis using supp by (auto simp: fr)
  next
    case known
    have "\<exists>n' s'. raise_anomalies cfg keys opens as n s = Inr (n', s') \<and> session_ok s' \<and> anomaly_inv s'
      \<and> (\<forall>k b. anom_open s k b \<longrightarrow> anom_open s' k b)
      \<and> (\<forall>k. (\<exists>b. anom_open s' k b) \<longleftrightarrow> (\<exists>b. anom_open s k b) \<or> k \<in> an_key ` set as - set keys)"
      using Cons.prems dist by (intro Cons.IH) simp_all
    then show ?thesis using known a(4) by auto
  next
    case new
    obtain b s1 where r: "raise_alert SYSADMIN (an_severity cfg) (anomaly_title a) (Some (anomaly_message cfg a))
        (Some (as_details a)) s = Inr (b, s1)" and ok1: "session_ok s1" "anomaly_inv s1"
      and op1: "\<And>k c. anom_open s1 k c \<longleftrightarrow> anom_open s k c \<or> k = an_key a \<and> c = b"
      using raise_anomaly [OF Cons.prems(1-3) a(1-3) new(2)] by blast
    have "\<exists>n' s'. raise_anomalies cfg keys opens as (Suc n) s1 = Inr (n', s') \<and> session_ok s' \<and> anomaly_inv s'
      \<and> (\<forall>k b. anom_open s1 k b \<longrightarrow> anom_open s' k b)
      \<and> (\<forall>k. (\<exists>b. anom_open s' k b) \<longleftrightarrow> (\<exists>b. anom_open s1 k b) \<or> k \<in> an_key ` set as - set keys)"
    proof (intro Cons.IH ok1 Cons.prems(3) dist(2))
      fix c assume c: "c \<in> set as"
      then have "an_key c \<noteq> an_key a" using dist(1) by (metis image_eqI)
      then show "metric_key (an_key c) \<and> an_label c = metric_label (an_key c) \<and> py_len (anomaly_title c) \<le> 255
        \<and> (dict_get opens (an_key c) \<noteq> None \<longleftrightarrow> (\<exists>b. anom_open s1 (an_key c) b))"
        using Cons.prems(5) [of c] c op1 by simp
    qed
    then show ?thesis using new a(4) r op1 by auto
  qed
qed simp

lemma detected:
  assumes "a \<in> set (detect_anomalies current history cfg)"
  shows "\<exists>v. (an_key a, v) \<in> set current \<and> an_label a = metric_label (an_key a)"
  using assms
  by (auto simp: detect_anomalies_def set_map_filter anomaly_of_def Let_def split: if_splits option.splits) blast

text \<open>
  C21: after the anomaly check exactly these resources have an open anomaly row: the unusual ones
  that had one already, and the unusual ones no fixed limit speaks for. No write is refused, the
  table keeps its constraints, and the rows of resources back to normal are closed.
\<close>

theorem check_anomalies_exact:
  assumes "session_ok s" "anomaly_inv s" "an_enabled cfg" "known_severity (an_severity cfg)"
    "list_all (\<lambda>a. py_len (anomaly_title a) \<le> 255) (detect_anomalies (snapshot_metrics snap) history cfg)"
  shows "\<exists>n s'. check_anomalies now snap history cfg keys s = Inr (n, s') \<and> session_ok s' \<and> anomaly_inv s'
    \<and> (\<forall>k. (\<exists>a. anom_open s' k a) \<longleftrightarrow>
         k \<in> an_key ` set (detect_anomalies (snapshot_metrics snap) history cfg)
         \<and> ((\<exists>a. anom_open s k a) \<or> k \<notin> set (threshold_rows (active_alerts SYSADMIN s) @ keys)))"
proof -
  let ?as = "detect_anomalies (snapshot_metrics snap) history cfg"
  let ?opens = "anomaly_rows (active_alerts SYSADMIN s)"
  let ?keys = "threshold_rows (active_alerts SYSADMIN s) @ keys"
  note get = anomaly_rows_get [OF assms(1,2)]
  have "metric_key (an_key a) \<and> an_label a = metric_label (an_key a) \<and> py_len (anomaly_title a) \<le> 255
      \<and> (dict_get ?opens (an_key a) \<noteq> None \<longleftrightarrow> (\<exists>b. anom_open s (an_key a) b))" if "a \<in> set ?as" for a
    using detected [OF that] assms(5) that snapshot_metrics_keys [of snap "an_key a"] snapshot_metrics_wf [of snap] get
    by (auto simp: list_all_iff dict_get_def dict_wf_def)
  then obtain n s1 where r: "raise_anomalies cfg ?keys ?opens ?as 0 s = Inr (n, s1)" and ok1: "session_ok s1" "anomaly_inv s1"
    and kept: "\<And>k b. anom_open s k b \<Longrightarrow> anom_open s1 k b"
    and op1: "\<And>k. (\<exists>b. anom_open s1 k b) \<longleftrightarrow> (\<exists>b. anom_open s k b) \<or> k \<in> an_key ` set ?as - set ?keys"
    using raise_anomalies_ok [OF assms(1,2,4) detected_distinct [OF snapshot_metrics_wf],
        where opens = ?opens and keys = ?keys and n = 0] by metis
  define ids where "ids = map snd (filter (\<lambda>(key, _). key \<notin> set (map an_key ?as)) ?opens)"
  let ?s2 = "s1\<lparr>rows := close_where (\<lambda>a. al_id a \<in> set ids) now (rows s1)\<rparr>"
  have wf: "dict_wf ?opens" by (simp add: anomaly_rows_eq)
  have ids: "i \<in> set ids \<longleftrightarrow> (\<exists>k a. k \<notin> an_key ` set ?as \<and> anom_open s k a \<and> al_id a = i)" for i
  proof -
    have "i \<in> set ids \<longleftrightarrow> (\<exists>k. k \<notin> an_key ` set ?as \<and> dict_get ?opens k = Some i)"
      by (force simp: ids_def dict_get_iff_mem [OF wf])
    then show ?thesis using get by blast
  qed
  have gone: "al_id a \<in> set ids \<longleftrightarrow> k \<notin> an_key ` set ?as" if a: "anom_open s1 k a" for k a
  proof
    assume "al_id a \<in> set ids"
    then obtain k' b where b: "k' \<notin> an_key ` set ?as" "anom_open s k' b" "al_id b = al_id a" using ids by blast
    have "b = a" using kept [OF b(2)] a b(3) by (intro unique_id [OF ok1(1)]) (auto simp: anom_open_def)
    then show "k \<notin> an_key ` set ?as" using a b by (auto simp: anom_open_def)
  next
    assume k: "k \<notin> an_key ` set ?as"
    then obtain b where b: "anom_open s k b" using op1 [of k] a by blast
    then have "b = a" using anom_open_unique [OF ok1 kept [OF b] a] by simp
    then show "al_id a \<in> set ids" using ids k b by blast
  qed
  have op2: "anom_open ?s2 k a \<longleftrightarrow> anom_open s1 k a \<and> al_id a \<notin> set ids" for k a
    by (auto simp: anom_open_def set_close_where)
  have inv2: "anomaly_inv ?s2"
    using ok1(2) op2 by (auto simp: anomaly_inv_def set_close_where)
  have "session_ok ?s2" using ok1(1) by (rule session_ok_close_where) simp_all
  moreover have "check_anomalies now snap history cfg keys s = Inr (n, ?s2)"
    using assms(3) r by (simp add: check_anomalies_def Let_def resolve_alert_ids_eq ids_def)
  moreover have "(\<exists>a. anom_open ?s2 k a) \<longleftrightarrow>
      k \<in> an_key ` set ?as \<and> ((\<exists>a. anom_open s k a) \<or> k \<notin> set ?keys)" for k
    using op1 [of k] op2 gone by blast
  ultimately show ?thesis using inv2 by blast
qed

definition sample_snapshot :: resource_snapshot where
  "sample_snapshot =
     \<lparr>rs_cpu_percent = Some 90, rs_ram_percent = None, rs_disk_usage = [], rs_gpu_usage = [], rs_recorded_at = 0\<rparr>"

theorem check_anomalies_exact_witness:
  "\<exists>n s'. check_anomalies 0 sample_snapshot [(''cpu'', [10, 20, 30])] sample_anomaly_config [] (sess ex_mstate) = Inr (n, s')
     \<and> (\<exists>a. anom_open s' ''cpu'' a)"
proof -
  let ?h = "[(''cpu'', [10, 20, 30])] :: (string, rat list) dict"
  let ?s = "sess ex_mstate"
  have m: "snapshot_metrics sample_snapshot = [(''cpu'', 90)]"
    by (simp add: snapshot_metrics_def sample_snapshot_def)
  have d: "detect_anomalies [(''cpu'', 90)] ?h sample_anomaly_config =
      [\<lparr>an_key = ''cpu'', an_label = ''CPU'', an_value = 90, an_mean = 20, an_stdev = 10, an_z = 7, an_samples = 3\<rparr>]"
    by (simp add: detect_anomalies_def anomaly_of_def sample_anomaly_config_def dict_get_or_def sample_stdev
        z_score_def metric_label_def DISK_KEY_PREFIX_def Let_def)
  have s: "session_ok ?s" "anomaly_inv ?s" "active_alerts SYSADMIN ?s = []"
    using tidy_ex_mstate
    by (simp_all add: tidy_def titles_exact_def anomaly_inv_def ex_mstate_def ex_monitor_session_def active_alerts_def)
  have fit: "list_all (\<lambda>a. py_len (anomaly_title a) \<le> 255)
      (detect_anomalies (snapshot_metrics sample_snapshot) ?h sample_anomaly_config)"
    by (simp add: m d anomaly_title_def py_len_def utf8_continuation_def)
  have c: "an_enabled sample_anomaly_config" "known_severity (an_severity sample_anomaly_config)"
    by (simp_all add: sample_anomaly_config_def known_severity_iff)
  obtain n s' where r: "check_anomalies 0 sample_snapshot ?h sample_anomaly_config [] ?s = Inr (n, s')"
    and k: "\<And>k. (\<exists>a. anom_open s' k a) \<longleftrightarrow>
        k \<in> an_key ` set (detect_anomalies (snapshot_metrics sample_snapshot) ?h sample_anomaly_config)
        \<and> ((\<exists>a. anom_open ?s k a) \<or> k \<notin> set (threshold_rows (active_alerts SYSADMIN ?s) @ []))"
    using check_anomalies_exact [OF s(1,2) c fit, of 0 "[]"] by blast
  have "\<exists>a. anom_open s' ''cpu'' a"
    unfolding k m d s(3) by (simp add: threshold_rows_def)
  then show ?thesis using r by blast
qed

end
