(* ===== verification/Standing_Checks.thy ===== *)
theory Standing_Checks
  imports Sysadmin_Resources
begin

text \<open>
  The two standing checks of the monitor that keep rows of their own: databases whose collation
  version is stale (\<open>src/sysadmin/monitor/collation.py\<close>) and the journal's horizon with the core-dump
  loops that shorten it (\<open>src/sysadmin/monitor/journal_horizon.py\<close>), with \<open>_check_collation\<close> and
  \<open>_check_journal_horizon\<close> of \<open>src/sysadmin/monitor/agent.py\<close>.

  \<^item> The answer of the catalog query and the readings of \<open>journalctl\<close> are arguments.
  \<^item> The local-time text of a journal head is an argument too; it depends on the zone of the host.
  \<^item> The rows written are \<^typ>\<open>judgement\<close>s without a key.
\<close>

section \<open>Rows raised one after the other\<close>

fun raise_all :: "string \<Rightarrow> judgement list \<Rightarrow> nat \<Rightarrow> session \<Rightarrow> py_error + nat \<times> session" where
  "raise_all name [] n s = Inr (n, s)"
| "raise_all name (j # js) n s =
     (case raise_alert name (jd_severity j) (jd_title j) (Some (jd_message j)) (Some (jd_details j)) s of
        Inl e \<Rightarrow> Inl e
      | Inr (_, s') \<Rightarrow> raise_all name js (Suc n) s')"

section \<open>Collation versions\<close>

definition COLLATION_DETAIL_KEY :: string where
  "COLLATION_DETAIL_KEY = ''collation_database''"

definition COLLATION_SEVERITY :: string where
  "COLLATION_SEVERITY = ''warning''"

definition collation_title :: "string \<Rightarrow> string" where
  "collation_title datname = ''Stale collation version on '' @ datname"

record mismatch =
  mm_datname :: string
  mm_recorded :: string
  mm_actual :: string

definition mismatch_message :: "mismatch \<Rightarrow> string" where
  "mismatch_message m =
     mm_datname m @ '' was created with collation version '' @ mm_recorded m
     @ ''; the operating system now provides '' @ mm_actual m
     @ ''. Text indexes were built against the old ordering, so a lookup can miss a row that is present. ''
     @ ''Fix, in this order: REINDEX DATABASE '' @ mm_datname m
     @ '', then ALTER DATABASE '' @ mm_datname m @ '' REFRESH COLLATION VERSION. ''
     @ ''REFRESH on its own only silences the warning.''"

definition mismatch_details :: "mismatch \<Rightarrow> jobj" where
  "mismatch_details m =
     [(COLLATION_DETAIL_KEY, JStr (mm_datname m)), (''recorded_version'', JStr (mm_recorded m)),
      (''actual_version'', JStr (mm_actual m)),
      (''remedy'', JArr [JStr (''REINDEX DATABASE '' @ mm_datname m),
         JStr (''ALTER DATABASE '' @ mm_datname m @ '' REFRESH COLLATION VERSION'')])]"

definition mismatch_judgement :: "mismatch \<Rightarrow> judgement" where
  "mismatch_judgement m =
     \<lparr>jd_key = None, jd_severity = COLLATION_SEVERITY, jd_title = collation_title (mm_datname m),
      jd_message = mismatch_message m, jd_details = mismatch_details m\<rparr>"

definition collation_evaluate :: "mismatch list \<Rightarrow> string list \<Rightarrow> mismatch list" where
  "collation_evaluate mismatches open_databases =
     filter (\<lambda>m. mm_datname m \<notin> set open_databases) mismatches"

definition resolved_databases :: "string list \<Rightarrow> string list \<Rightarrow> string list" where
  "resolved_databases open_databases mismatched = filter (\<lambda>n. n \<notin> set mismatched) open_databases"

record collation_counts =
  cc_mismatched :: nat
  cc_raised :: nat
  cc_resolved :: nat

definition no_collation :: collation_counts where
  "no_collation = \<lparr>cc_mismatched = 0, cc_raised = 0, cc_resolved = 0\<rparr>"

definition check_collation ::
  "bool \<Rightarrow> py_error + mismatch list \<Rightarrow> string \<Rightarrow> instant \<Rightarrow> session
     \<Rightarrow> py_error + (collation_counts \<times> nat) \<times> session" where
  "check_collation enabled answer name now s =
     (if \<not> enabled then Inr ((no_collation, 0), s)
      else
        (case answer of
           Inl e \<Rightarrow>
             if is_sqlalchemy_error e
             then Inr ((no_collation, 0), log_line ''warning'' ''collation_check_failed'' s)
             else Inl e
         | Inr mismatches \<Rightarrow>
             (let open_rows = open_by_key COLLATION_DETAIL_KEY (active_alerts name s)
              in case raise_all name (map mismatch_judgement (collation_evaluate mismatches (map fst open_rows))) 0 s of
                   Inl e \<Rightarrow> Inl e
                 | Inr (raised, s1) \<Rightarrow>
                     (let cleared = resolved_databases (map fst open_rows) (map mm_datname mismatches);
                          ids = List.map_filter (\<lambda>n. map_option al_id (dict_get open_rows n)) (sort cleared)
                      in Inr ((\<lparr>cc_mismatched = length mismatches, cc_raised = raised,
                                cc_resolved = length cleared\<rparr>, raised),
                              resolve_alert_ids now ids s1)))))"

section \<open>The journal's horizon\<close>

definition HORIZON_DETAIL_KEY :: string where
  "HORIZON_DETAIL_KEY = ''journal_horizon''"

definition WINDOW_SUBJECT :: string where
  "WINDOW_SUBJECT = ''window''"

definition COREDUMP_DETAIL_KEY :: string where
  "COREDUMP_DETAIL_KEY = ''coredump_exe''"

definition HORIZON_SEVERITY :: string where
  "HORIZON_SEVERITY = ''warning''"

definition WINDOW_TITLE :: string where
  "WINDOW_TITLE = ''Short journal window''"

text \<open>\<open>os.path.basename\<close>: what follows the last slash.\<close>

definition basename :: "string \<Rightarrow> string" where
  "basename path = rev (takeWhile (\<lambda>c. c \<noteq> CHR ''/'') (rev path))"

definition loop_title :: "string \<Rightarrow> string" where
  "loop_title exe = ''Core dump loop in '' @ basename exe"

record journal_window =
  jw_system_head :: "instant option"
  jw_user_head :: "instant option"
  jw_measured_at :: instant

definition jw_head :: "journal_window \<Rightarrow> instant option" where
  "jw_head w =
     (case (jw_system_head w, jw_user_head w) of
        (None, u) \<Rightarrow> u
      | (Some a, None) \<Rightarrow> Some a
      | (Some a, Some b) \<Rightarrow> Some (max a b))"

definition jw_days :: "journal_window \<Rightarrow> rat option" where
  "jw_days w = map_option (\<lambda>h. total_seconds (jw_measured_at w - h) / 86400) (jw_head w)"

record core_loop =
  cl_exe :: string
  cl_count :: nat
  cl_window_minutes :: nat

definition loop_message :: "core_loop \<Rightarrow> string" where
  "loop_message l =
     cl_exe l @ '' dumped core '' @ show_nat (cl_count l) @ '' times in the last ''
     @ show_nat (cl_window_minutes l) @ '' minutes. Each dump is a journal record, and a loop fills the ''
     @ ''journal's size cap until the vacuum cuts its window short. Stop the program or fix the crash; ''
     @ ''coredumpctl info '' @ basename (cl_exe l) @ '' shows the newest trace.''"

definition loop_details :: "core_loop \<Rightarrow> jobj" where
  "loop_details l =
     [(COREDUMP_DETAIL_KEY, JStr (cl_exe l)), (''dumps'', JNum (of_nat (cl_count l))),
      (''window_minutes'', JNum (of_nat (cl_window_minutes l)))]"

definition loop_judgement :: "core_loop \<Rightarrow> judgement" where
  "loop_judgement l =
     \<lparr>jd_key = None, jd_severity = HORIZON_SEVERITY, jd_title = loop_title (cl_exe l),
      jd_message = loop_message l, jd_details = loop_details l\<rparr>"

definition window_message :: "(instant \<Rightarrow> string) \<Rightarrow> instant \<Rightarrow> rat \<Rightarrow> rat \<Rightarrow> string" where
  "window_message local_time head days min_days =
     ''The journal reaches back '' @ show_fixed1 days @ '' days, to '' @ local_time head @ '', under the ''
     @ show_g min_days @ ''-day floor. Records older than that are gone, so a reader that looks further back ''
     @ ''finds nothing. Usual cause: something flooding the journal (see any open core dump loop row); ''
     @ ''journalctl --disk-usage shows the cap.''"

definition window_details :: "journal_window \<Rightarrow> rat \<Rightarrow> jobj" where
  "window_details w min_days =
     [(HORIZON_DETAIL_KEY, JStr WINDOW_SUBJECT),
      (''window_days'', JNum (py_round_to 2 (case jw_days w of None \<Rightarrow> 0 | Some d \<Rightarrow> d))),
      (''min_window_days'', JNum min_days),
      (''system_head'', jopt (\<lambda>t. JStr (isoformat t)) (jw_system_head w)),
      (''user_head'', jopt (\<lambda>t. JStr (isoformat t)) (jw_user_head w))]"

definition is_short :: "journal_window \<Rightarrow> rat \<Rightarrow> bool option" where
  "is_short w min_days = map_option (\<lambda>d. d < min_days) (jw_days w)"

definition loops_from :: "(string, nat) dict \<Rightarrow> nat \<Rightarrow> nat \<Rightarrow> core_loop list" where
  "loops_from exe_counts loop_count window_minutes =
     sort_key (\<lambda>l. (- int (cl_count l), cl_exe l))
       (map (\<lambda>(exe, n). \<lparr>cl_exe = exe, cl_count = n, cl_window_minutes = window_minutes\<rparr>)
         (filter (\<lambda>(exe, n). loop_count \<le> n) exe_counts))"

text \<open>
  \<open>read_dump_counts\<close>, from the lines of the reply: \<^const>\<open>None\<close> for a line that is no JSON, the
  value otherwise. A line that is JSON but no object ends the read with an \<open>AttributeError\<close>.
\<close>

fun read_dump_counts :: "json option list \<Rightarrow> (string, nat) dict \<Rightarrow> py_error + (string, nat) dict" where
  "read_dump_counts [] counts = Inr counts"
| "read_dump_counts (None # ls) counts = read_dump_counts ls counts"
| "read_dump_counts (Some (JObj obj) # ls) counts =
     (case get_str obj ''COREDUMP_EXE'' of
        None \<Rightarrow> read_dump_counts ls counts
      | Some exe \<Rightarrow> read_dump_counts ls (dict_set exe (dict_get_or counts exe 0 + 1) counts))"
| "read_dump_counts (Some j # ls) counts = Inl (OtherError ''AttributeError'')"

record journal_config =
  jc_enabled :: bool
  jc_min_window_days :: rat
  jc_loop_count :: nat
  jc_loop_window_minutes :: nat

record journal_counts =
  jn_window_days :: "rat option"
  jn_loops :: nat
  jn_raised :: nat
  jn_resolved :: nat

definition no_journal_horizon :: journal_counts where
  "no_journal_horizon = \<lparr>jn_window_days = None, jn_loops = 0, jn_raised = 0, jn_resolved = 0\<rparr>"

definition window_judgements ::
  "(instant \<Rightarrow> string) \<Rightarrow> journal_config \<Rightarrow> journal_window \<Rightarrow> judgement list" where
  "window_judgements local_time cfg w =
     (case (jw_head w, jw_days w) of
        (Some h, Some d) \<Rightarrow>
          [\<lparr>jd_key = None, jd_severity = HORIZON_SEVERITY, jd_title = WINDOW_TITLE,
            jd_message = window_message local_time h d (jc_min_window_days cfg),
            jd_details = window_details w (jc_min_window_days cfg)\<rparr>]
      | _ \<Rightarrow> [])"

definition check_journal_horizon ::
  "(instant \<Rightarrow> string) \<Rightarrow> journal_config \<Rightarrow> journal_window \<Rightarrow> (string, nat) dict option \<Rightarrow> string \<Rightarrow> instant
     \<Rightarrow> session \<Rightarrow> py_error + (journal_counts \<times> nat) \<times> session" where
  "check_journal_horizon local_time cfg w dumps name now s =
     (if \<not> jc_enabled cfg then Inr ((no_journal_horizon, 0), s)
      else
        (let active = active_alerts name s;
             open_window = map al_id (filter (\<lambda>a. map_of (al_details a) HORIZON_DETAIL_KEY \<noteq> None) active);
             open_loops = open_by_key COREDUMP_DETAIL_KEY active;
             short = is_short w (jc_min_window_days cfg);
             loops = (case dumps of
                        None \<Rightarrow> []
                      | Some d \<Rightarrow> loops_from d (jc_loop_count cfg) (jc_loop_window_minutes cfg));
             due = (if short = Some True \<and> open_window = [] then window_judgements local_time cfg w else [])
               @ map loop_judgement (filter (\<lambda>l. dict_get open_loops (cl_exe l) = None) loops);
             resolved = (if short = Some False then open_window else [])
               @ (if dumps = None then []
                  else List.map_filter (\<lambda>n. map_option al_id (dict_get open_loops n))
                    (sort (filter (\<lambda>n. n \<notin> set (map cl_exe loops)) (map fst open_loops))))
         in case raise_all name due 0 s of
              Inl e \<Rightarrow> Inl e
            | Inr (raised, s1) \<Rightarrow>
                Inr ((\<lparr>jn_window_days = map_option (py_round_to 2) (jw_days w), jn_loops = length loops,
                       jn_raised = raised, jn_resolved = length resolved\<rparr>, raised),
                     resolve_alert_ids now resolved s1)))"

section \<open>Keyed families without a ladder\<close>

text \<open>
  The contract under which rows raised once per open fault are never refused: the detail key names
  the fault the title names, and different faults have different titles.
\<close>

locale keyed_family =
  fixes key :: string
    and title :: "string \<Rightarrow> string"
    and judge :: "'a \<Rightarrow> judgement"
    and fault :: "'a \<Rightarrow> string"
  assumes judged: "known_severity (jd_severity (judge x))" "jd_title (judge x) = title (fault x)"
    and keyed: "fault x \<noteq> [] \<Longrightarrow> get_str (jd_details (judge x)) key = Some (fault x)"
    and title_inj: "inj title"
begin

lemma raise_all_family:
  assumes "session_ok s" "family_inv name key title s" "name \<in> set alert_agents" "distinct (map fault xs)"
    "\<And>x. x \<in> set xs \<Longrightarrow> fault x \<noteq> [] \<and> py_len (title (fault x)) \<le> 255 \<and> (\<forall>a. \<not> fam_open name key s (fault x) a)"
  shows "\<exists>s'. raise_all name (map judge xs) n s = Inr (n + length xs, s') \<and> session_ok s'
    \<and> family_inv name key title s' \<and> (\<forall>k a. fam_open name key s k a \<longrightarrow> fam_open name key s' k a)
    \<and> (\<forall>k. k \<notin> fault ` set xs \<longrightarrow> fam_open name key s' k = fam_open name key s k)
    \<and> (\<forall>x \<in> set xs. \<exists>a. fam_open name key s' (fault x) a)"
  using assms
proof (induction xs arbitrary: s n)
  case (Cons x xs)
  have x: "fault x \<noteq> []" "py_len (title (fault x)) \<le> 255" "\<And>a. \<not> fam_open name key s (fault x) a"
    using Cons.prems(5) [of x] by auto
  obtain a s1 where r: "raise_alert name (jd_severity (judge x)) (title (fault x)) (Some (jd_message (judge x)))
      (Some (jd_details (judge x))) s = Inr (a, s1)"
    and ok1: "session_ok s1" "family_inv name key title s1"
    and "al_severity a = jd_severity (judge x)"
    and op1: "\<And>k b. fam_open name key s1 k b \<longleftrightarrow> fam_open name key s k b \<or> (k = fault x \<and> b = a)"
    by (rule raise_member [OF Cons.prems(1-3) title_inj judged(1) [of x] keyed [OF x(1)] x(2,3),
          where m = "Some (jd_message (judge x))"]) (rule that; assumption)
  have other: "fault y \<noteq> fault x" if "y \<in> set xs" for y
  proof -
    have "fault x \<notin> fault ` set xs" using Cons.prems(4) by simp
    then show ?thesis using that by (metis imageI)
  qed
  obtain s' where s': "raise_all name (map judge xs) (Suc n) s1 = Inr (Suc n + length xs, s')" "session_ok s'"
    "family_inv name key title s'" "\<And>k a. fam_open name key s1 k a \<Longrightarrow> fam_open name key s' k a"
    "\<And>k. k \<notin> fault ` set xs \<Longrightarrow> fam_open name key s' k = fam_open name key s1 k"
    "\<And>y. y \<in> set xs \<Longrightarrow> \<exists>a. fam_open name key s' (fault y) a"
  proof -
    have "distinct (map fault xs)" using Cons.prems(4) by simp
    moreover have "fault y \<noteq> [] \<and> py_len (title (fault y)) \<le> 255 \<and> (\<forall>a. \<not> fam_open name key s1 (fault y) a)"
      if "y \<in> set xs" for y
      using Cons.prems(5) [of y] other [OF that] that op1 by simp
    ultimately show ?thesis using that Cons.IH [OF ok1 Cons.prems(3), of "Suc n"] by blast
  qed
  have "fam_open name key s' (fault x) a" using s'(4) op1 by blast
  then show ?case
    using r s' op1 judged(2) by (auto simp: fun_eq_iff)
qed simp

end

interpretation collation_family: keyed_family COLLATION_DETAIL_KEY collation_title mismatch_judgement mm_datname
  by unfold_locales
    (auto simp: mismatch_judgement_def COLLATION_SEVERITY_def known_severity_iff mismatch_details_def
      get_str_def collation_title_def inj_def)

lemma ids_of_gone:
  assumes "dict_wf opens"
  shows "set (List.map_filter (\<lambda>n. map_option al_id (dict_get opens n)) (sort (filter (\<lambda>n. n \<notin> F) (map fst opens))))
    = set (map (\<lambda>(n, a). al_id a) (filter (\<lambda>(n, a). n \<notin> F) opens))"
proof -
  have get: "(n, a) \<in> set opens \<Longrightarrow> dict_get opens n = Some a" for n a
    using assms by (simp add: dict_get_iff_mem)
  have "i \<in> set (List.map_filter (\<lambda>n. map_option al_id (dict_get opens n)) (sort (filter (\<lambda>n. n \<notin> F) (map fst opens))))
      \<longleftrightarrow> (\<exists>n a. (n, a) \<in> set opens \<and> n \<notin> F \<and> i = al_id a)" for i
  proof -
    have "n \<in> set (map fst opens) \<longleftrightarrow> (\<exists>a. (n, a) \<in> set opens)" for n by force
    then show ?thesis using get by (auto simp: set_map_filter simp del: set_map) blast
  qed
  moreover have "i \<in> set (map (\<lambda>(n, a). al_id a) (filter (\<lambda>(n, a). n \<notin> F) opens))
      \<longleftrightarrow> (\<exists>n a. (n, a) \<in> set opens \<and> n \<notin> F \<and> i = al_id a)" for i
    by force
  ultimately show ?thesis by blast
qed

text \<open>
  C22: after the collation check the databases with an open row are exactly those the catalog
  reports as mismatched: one row each, raised once, the rows that were open and still hold left
  as they are, the others closed; no write is refused and the table keeps its constraints. When
  the query itself fails, nothing is raised or closed.
\<close>

theorem check_collation_exact:
  assumes "session_ok s" "family_inv name COLLATION_DETAIL_KEY collation_title s" "name \<in> set alert_agents"
    "distinct (map mm_datname ms)" "list_all (\<lambda>m. mm_datname m \<noteq> [] \<and> py_len (mm_datname m) \<le> 63) ms"
    "is_sqlalchemy_error e"
  shows "(\<exists>c n s'. check_collation True (Inr ms) name now s = Inr ((c, n), s') \<and> session_ok s'
      \<and> family_inv name COLLATION_DETAIL_KEY collation_title s'
      \<and> (\<forall>d. (\<exists>a. fam_open name COLLATION_DETAIL_KEY s' d a) \<longleftrightarrow> d \<in> mm_datname ` set ms)
      \<and> (\<forall>d a. fam_open name COLLATION_DETAIL_KEY s d a \<and> d \<in> mm_datname ` set ms \<longrightarrow>
           fam_open name COLLATION_DETAIL_KEY s' d a))
    \<and> (\<exists>s'. check_collation True (Inl e) name now s = Inr ((no_collation, 0), s') \<and> rows s' = rows s)"
proof -
  let ?k = COLLATION_DETAIL_KEY
  let ?opens = "open_by_key ?k (active_alerts name s)"
  let ?new = "collation_evaluate ms (map fst ?opens)"
  have oo: "opens_ok name ?k ?opens s" by (rule opens_ok_open_by_key [OF assms(1,2)])
  have wf: "dict_wf ?opens" by (rule dict_wf_open_by_key)
  have opened: "d \<in> set (map fst ?opens) \<longleftrightarrow> (\<exists>a. fam_open name ?k s d a)" for d
  proof -
    have "d \<in> set (map fst ?opens) \<longleftrightarrow> (\<exists>a. dict_get ?opens d = Some a)"
      unfolding dict_get_iff_mem [OF wf] by force
    then show ?thesis using oo by (simp add: opens_ok_def)
  qed
  have len: "py_len (collation_title d) \<le> 255" if "py_len d \<le> 63" for d
    using that by (simp add: collation_title_def py_len_def utf8_continuation_def)
  have "distinct (map mm_datname ?new)"
    using assms(4) by (simp add: collation_evaluate_def distinct_map_filter)
  moreover have "mm_datname m \<noteq> [] \<and> py_len (collation_title (mm_datname m)) \<le> 255
      \<and> (\<forall>a. \<not> fam_open name ?k s (mm_datname m) a)" if "m \<in> set ?new" for m
    using that assms(5) opened len by (auto simp: collation_evaluate_def list_all_iff)
  ultimately obtain s1 where r: "raise_all name (map mismatch_judgement ?new) 0 s = Inr (length ?new, s1)"
    and ok1: "session_ok s1" "family_inv name ?k collation_title s1"
    and kept: "\<And>k a. fam_open name ?k s k a \<Longrightarrow> fam_open name ?k s1 k a"
    and same: "\<And>k. k \<notin> mm_datname ` set ?new \<Longrightarrow> fam_open name ?k s1 k = fam_open name ?k s k"
    and new: "\<And>m. m \<in> set ?new \<Longrightarrow> \<exists>a. fam_open name ?k s1 (mm_datname m) a"
    using collation_family.raise_all_family [OF assms(1-3), of ?new 0] by auto
  let ?F = "set (map mm_datname ms)"
  let ?ids = "List.map_filter (\<lambda>n. map_option al_id (dict_get ?opens n))
    (sort (resolved_databases (map fst ?opens) (map mm_datname ms)))"
  let ?s2 = "s1\<lparr>rows := close_where (\<lambda>a. al_id a \<in> set ?ids) now (rows s1)\<rparr>"
  have sub: "mm_datname ` set ?new \<subseteq> ?F" by (auto simp: collation_evaluate_def)
  have "dict_get ?opens d = Some a \<longleftrightarrow> fam_open name ?k s1 d a" if "d \<notin> ?F" for d a
  proof -
    have "d \<notin> mm_datname ` set ?new" using that sub by blast
    with same oo show ?thesis by (simp add: opens_ok_def)
  qed
  note gone = close_gone [OF ok1(1) wf this, where F = ?F]
  have op2: "fam_open name ?k ?s2 d a \<longleftrightarrow> d \<in> ?F \<and> fam_open name ?k s1 d a" for d a
    using gone [of now d a] ids_of_gone [OF wf, of ?F] by (simp add: resolved_databases_def)
  have "\<exists>c. check_collation True (Inr ms) name now s = Inr ((c, length ?new), ?s2)"
    using r by (simp add: check_collation_def Let_def resolve_alert_ids_eq)
  moreover have "session_ok ?s2" using ok1(1) by (rule session_ok_close_where) simp_all
  moreover have "family_inv name ?k collation_title ?s2" using ok1(2) by (rule family_inv_close)
  moreover have "(\<exists>a. fam_open name ?k ?s2 d a) \<longleftrightarrow> d \<in> mm_datname ` set ms" for d
    using op2 opened [of d] kept new by (auto simp: collation_evaluate_def) blast+
  moreover have "fam_open name ?k ?s2 d a" if "fam_open name ?k s d a \<and> d \<in> mm_datname ` set ms" for d a
    using that op2 kept by simp
  moreover have "\<exists>s'. check_collation True (Inl e) name now s = Inr ((no_collation, 0), s') \<and> rows s' = rows s"
    using assms(6) by (simp add: check_collation_def log_line_ok)
  ultimately show ?thesis by blast
qed

definition sample_mismatch :: mismatch where
  "sample_mismatch = \<lparr>mm_datname = ''estate'', mm_recorded = ''2.39'', mm_actual = ''2.40''\<rparr>"

theorem check_collation_exact_witness:
  "\<exists>c n s'. check_collation True (Inr [sample_mismatch]) SYSADMIN 0 (sess ex_mstate) = Inr ((c, n), s')
     \<and> (\<exists>a. fam_open SYSADMIN COLLATION_DETAIL_KEY s' ''estate'' a)"
proof -
  have s: "session_ok (sess ex_mstate)" "family_inv SYSADMIN COLLATION_DETAIL_KEY collation_title (sess ex_mstate)"
    using tidy_ex_mstate
    by (simp_all add: tidy_def titles_exact_def family_inv_def ex_mstate_def ex_monitor_session_def)
  have m: "SYSADMIN \<in> set alert_agents" "distinct (map mm_datname [sample_mismatch])"
    "list_all (\<lambda>m. mm_datname m \<noteq> [] \<and> py_len (mm_datname m) \<le> 63) [sample_mismatch]"
    "is_sqlalchemy_error OperationalError" "mm_datname sample_mismatch = ''estate''"
    by (simp_all add: SYSADMIN_def alert_agents_def sample_mismatch_def py_len_def utf8_continuation_def)
  show ?thesis
    using check_collation_exact [OF s m(1-4), of 0] m(5) by auto
qed

section \<open>Core-dump loops\<close>

text \<open>Rows raised in one go have different titles, or one of them is refused.\<close>

lemma raise_all_distinct:
  assumes "raise_all name js n s = Inr (k, s')"
  shows "distinct (map jd_title js)
    \<and> (\<forall>j \<in> set js. (name, jd_title j) \<notin> set (map alert_key (filter unresolved (rows s))))"
  using assms
proof (induction js arbitrary: n s)
  case (Cons j js)
  obtain a s1 where r: "raise_alert name (jd_severity j) (jd_title j) (Some (jd_message j)) (Some (jd_details j)) s
      = Inr (a, s1)" and rest: "raise_all name js (Suc n) s1 = Inr (k, s')"
    using Cons.prems by (auto split: sum.splits)
  note ra = raise_alert_Inr [OF r]
  have a: "alert_key a = (name, jd_title j)" "unresolved a" by (simp_all add: ra(1) alert_key_def)
  have "set (map alert_key (filter unresolved (rows s1)))
      = insert (name, jd_title j) (set (map alert_key (filter unresolved (rows s))))"
    using a by (simp add: ra(3))
  then show ?case using Cons.IH [OF rest] ra(6) a(1) by auto
qed simp

lemma loops_from_mem:
  "l \<in> set (loops_from counts n m) \<longleftrightarrow>
     (cl_exe l, cl_count l) \<in> set counts \<and> n \<le> cl_count l \<and> cl_window_minutes l = m"
  by (cases l) (force simp: loops_from_def)

text \<open>
  Two executables of the same name in different directories that both loop, with no open row of
  the second: the title is the same, so the row of one of them is refused.
\<close>

lemma same_name_loops_refused:
  assumes "jc_enabled cfg" "dumps = Some counts"
    "(x, m) \<in> set counts" "jc_loop_count cfg \<le> m" "(y, n) \<in> set counts" "jc_loop_count cfg \<le> n"
    "x \<noteq> y" "basename x = basename y"
    "dict_get (open_by_key COREDUMP_DETAIL_KEY (active_alerts name s)) x = None"
    "dict_get (open_by_key COREDUMP_DETAIL_KEY (active_alerts name s)) y = None"
  shows "isl (check_journal_horizon local_time cfg w dumps name now s)"
proof (rule ccontr)
  let ?loops = "loops_from counts (jc_loop_count cfg) (jc_loop_window_minutes cfg)"
  let ?fresh = "filter (\<lambda>l. dict_get (open_by_key COREDUMP_DETAIL_KEY (active_alerts name s)) (cl_exe l) = None) ?loops"
  assume "\<not> isl (check_journal_horizon local_time cfg w dumps name now s)"
  then obtain due r where r: "raise_all name (due @ map loop_judgement ?fresh) 0 s = Inr r"
    using assms(1,2) by (auto simp: check_journal_horizon_def Let_def split: sum.splits if_splits)
  then have d: "distinct (map jd_title (map loop_judgement ?fresh))"
    using raise_all_distinct [of name "due @ map loop_judgement ?fresh" 0 s "fst r" "snd r"] by simp
  let ?x = "\<lparr>cl_exe = x, cl_count = m, cl_window_minutes = jc_loop_window_minutes cfg\<rparr>"
  let ?y = "\<lparr>cl_exe = y, cl_count = n, cl_window_minutes = jc_loop_window_minutes cfg\<rparr>"
  have "?x \<in> set ?fresh" "?y \<in> set ?fresh" "?x \<noteq> ?y"
    using assms by (auto simp: loops_from_mem)
  moreover have "(jd_title \<circ> loop_judgement) ?x = (jd_title \<circ> loop_judgement) ?y"
    using assms(8) by (simp add: loop_judgement_def loop_title_def)
  moreover have "inj_on (jd_title \<circ> loop_judgement) (set ?fresh)"
    using d by (simp only: map_map distinct_map)
  ultimately show False using inj_onD by metis
qed

end
