(* ===== verification/Sysadmin_Execute.thy ===== *)
theory Sysadmin_Execute
  imports Standing_Checks
begin

text \<open>
  One whole run of the monitor: \<open>_execute\<close> of \<open>src/sysadmin/monitor/agent.py\<close> as the work the run
  template of \<open>Agent_Runs\<close> executes. It composes the service loop, the resource checks, the watch on
  the agents, the two standing checks and the recovery, in the order of the source; an error of
  one of them ends the run.

  \<^item> What the run reads from outside is in \<open>run_inputs\<close>: the answers of the probes, the resource
    snapshot, the stored snapshots and runs, the catalog and the journal.
  \<^item> A query of the session flushes pending health rows first (autoflush); \<open>on_session\<close> does so.
  \<^item> The row of the snapshot itself goes to a table of its own that no check here reads in the same
    run; it is not part of the state.
\<close>

section \<open>Inputs\<close>

record run_inputs =
  ri_readings :: "reading list"
  ri_snapshot :: resource_snapshot
  ri_stored_snapshots :: "resource_snapshot list"
  ri_thresholds :: thresholds
  ri_anomaly :: anomaly_config
  ri_agents :: agents_config
  ri_self_monitor :: self_monitor_config
  ri_runs :: "agent_run list"
  ri_collation_enabled :: bool
  ri_collation_answer :: "py_error + mismatch list"
  ri_journal :: journal_config
  ri_window :: journal_window
  ri_dumps :: "(string, nat) dict option"
  ri_local_time :: "instant \<Rightarrow> string"
  ri_now :: instant

definition on_session :: "(session \<Rightarrow> py_error + 'a \<times> session) \<Rightarrow> 'a step" where
  "on_session f st =
     (case flush_health st of
        (Inl e, st1) \<Rightarrow> (Inl e, st1)
      | (Inr _, st1) \<Rightarrow>
          (case f (sess st1) of
             Inl e \<Rightarrow> (Inl e, st1)
           | Inr (x, s) \<Rightarrow> (Inr x, st1\<lparr>sess := s\<rparr>)))"

definition bind_step :: "'a step \<Rightarrow> ('a \<Rightarrow> 'b step) \<Rightarrow> 'b step" where
  "bind_step f g st = (case f st of (Inl e, st1) \<Rightarrow> (Inl e, st1) | (Inr x, st1) \<Rightarrow> g x st1)"

section \<open>The run\<close>

text \<open>The fields \<open>_execute\<close> resets, and the titles it reads before the loop.\<close>

definition begin_run :: "memory \<Rightarrow> session \<Rightarrow> mstate" where
  "begin_run m s =
     \<lparr>mem = m\<lparr>arbitration := None, judged_titles := [], written_titles := [], suppressed := 0,
              refreshed := 0, staged_status := [], open_titles := open_alert_titles s\<rparr>,
      sess = s, unflushed = []\<rparr>"

record run_counts =
  rc_raised :: nat
  rc_unhealthy :: "string list"
  rc_write_failures :: "string list"
  rc_stalls :: health_counts
  rc_failures :: health_counts
  rc_collation :: collation_counts

text \<open>Everything up to and including the collation check.\<close>

definition checks_before_journal :: "monitor_env \<Rightarrow> run_inputs \<Rightarrow> run_counts step" where
  "checks_before_journal env inp =
     bind_step (service_loop env (ri_readings inp) \<lparr>lc_raised = 0, lc_unhealthy = [], lc_write_failures = []\<rparr>)
     (\<lambda>c. bind_step (check_thresholds (ri_snapshot inp) (ri_thresholds inp))
     (\<lambda>k1 st. bind_step (on_session (check_anomalies (ri_now inp) (ri_snapshot inp)
            (load_metric_history (ri_now inp) (ri_anomaly inp) (ri_stored_snapshots inp)) (ri_anomaly inp)
            (threshold_keys (mem st))))
     (\<lambda>k2. bind_step (on_session (check_agent_health (me_trunc env) SYSADMIN (ri_now inp) (ri_agents inp)
            (ri_self_monitor inp) (ri_runs inp)))
     (\<lambda>(stalls, failures, k3). bind_step (on_session (check_collation (ri_collation_enabled inp)
            (ri_collation_answer inp) SYSADMIN (ri_now inp)))
     (\<lambda>(collation, k4) st. (Inr \<lparr>rc_raised = lc_raised c + k1 + k2 + k3 + k4, rc_unhealthy = lc_unhealthy c,
            rc_write_failures = lc_write_failures c, rc_stalls = stalls, rc_failures = failures,
            rc_collation = collation\<rparr>, st)))) st))"

definition counts_json :: "string \<Rightarrow> health_counts \<Rightarrow> json" where
  "counts_json found c =
     JObj [(found, JNum (of_nat (hc_found c))), (''raised'', JNum (of_nat (hc_raised c))),
           (''escalated'', JNum (of_nat (hc_escalated c)))]"

definition run_details :: "run_inputs \<Rightarrow> run_counts \<Rightarrow> journal_counts \<Rightarrow> nat \<Rightarrow> memory \<Rightarrow> jobj" where
  "run_details inp c j resolved m =
     [(''services_checked'',
         JNum (of_nat (length (filter (\<lambda>r. \<not> checks_nothing (check_plan_of (rd_service r))) (ri_readings inp))))),
      (''services_declared'', JNum (of_nat (length (ri_readings inp)))),
      (''alerts_resolved'', JNum (of_nat resolved)),
      (''write_failures'', JArr (map JStr (rc_write_failures c))),
      (''stalls'', counts_json ''stalled'' (rc_stalls c)),
      (''agent_failures'', counts_json ''failing'' (rc_failures c)),
      (''collation'', JObj [(''mismatched'', JNum (of_nat (cc_mismatched (rc_collation c)))),
         (''raised'', JNum (of_nat (cc_raised (rc_collation c)))),
         (''resolved'', JNum (of_nat (cc_resolved (rc_collation c))))]),
      (''journal_horizon'', JObj [(''window_days'', jopt JNum (jn_window_days j)),
         (''loops'', JNum (of_nat (jn_loops j))), (''raised'', JNum (of_nat (jn_raised j))),
         (''resolved'', JNum (of_nat (jn_resolved j)))]),
      (''standing'', JObj [(''judged'', JNum (of_nat (length (judged_titles m)))),
         (''suppressed'', JNum (of_nat (suppressed m))), (''refreshed'', JNum (of_nat (refreshed m)))])]"

text \<open>
  The catalog query of the collation check is no savepoint's: a query the database refuses leaves
  the transaction aborted, and the statement after it, here the next read or, with the journal
  check off, the update of the recovery, is refused as well.
\<close>

definition collation_refused :: "run_inputs \<Rightarrow> bool" where
  "collation_refused inp =
     (ri_collation_enabled inp
      \<and> (case ri_collation_answer inp of Inl e \<Rightarrow> is_sqlalchemy_error e | Inr _ \<Rightarrow> False))"

definition next_statement :: "run_inputs \<Rightarrow> unit step" where
  "next_statement inp st =
     (if collation_refused inp then Inl (InternalError ''InFailedSQLTransaction'') else Inr (), st)"

definition execute :: "monitor_env \<Rightarrow> run_inputs \<Rightarrow> memory work" where
  "execute env inp m s =
     (case bind_step (checks_before_journal env inp)
        (\<lambda>c. bind_step (next_statement inp)
        (\<lambda>_. bind_step (on_session (check_journal_horizon (ri_local_time inp) (ri_journal inp) (ri_window inp)
                 (ri_dumps inp) SYSADMIN (ri_now inp)))
        (\<lambda>(j, k) st.
           (case resolve_recovered (ri_now inp) (rc_unhealthy c) st of
              (resolved, st') \<Rightarrow>
                (Inr \<lparr>findings_count = int (length (ri_readings inp)), alerts_raised = int (rc_raised c + k),
                      res_details = run_details inp c j resolved (mem st')\<rparr>, st')))))
        (begin_run m s) of
        (res, st) \<Rightarrow> (res, mem st, sess st))"

section \<open>A loop that fails the run\<close>

lemma execute_journal_fails:
  assumes "checks_before_journal env inp (begin_run m s) = (Inr c, st)" "unflushed st = []"
    "isl (check_journal_horizon (ri_local_time inp) (ri_journal inp) (ri_window inp) (ri_dumps inp) SYSADMIN
        (ri_now inp) (sess st))"
  shows "isl (fst (execute env inp m s))"
proof -
  have "flush_health st = (Inr (), st)"
    using flush_health_ok [of st] assms(2) by simp
  then show ?thesis
    using assms(1,3)
    by (auto simp: execute_def bind_step_def on_session_def next_statement_def split: sum.splits prod.splits)
qed

lemma execute_collation_refused:
  assumes "collation_refused inp"
  shows "isl (fst (execute env inp m s))"
  using assms by (auto simp: execute_def bind_step_def next_statement_def split: sum.splits prod.splits)

lemma failed_execute_run:
  assumes "runs_ok p" "env_start_error renv = None" "env_outcome_error renv = None"
    "isl (fst (execute env inp (p_memory p)
       (open_session renv (snd (record_start renv SYSADMIN t (p\<lparr>p_pending := Some []\<rparr>))))))"
  shows "\<exists>r p'. run_locked renv SYSADMIN t (execute env inp) work_committed p = (Inr None, p')
    \<and> p_alerts p' = p_alerts p \<and> p_health p' = p_health p
    \<and> p_runs p' = p_runs p @ [r] \<and> ar_status r = ''failed''
    \<and> p_published p' = p_published p @ [(''agent.run'', run_event renv SYSADMIN t ''failed'')]"
proof -
  let ?s = "open_session renv (snd (record_start renv SYSADMIN t (p\<lparr>p_pending := Some []\<rparr>)))"
  obtain res mem' s' where x: "execute env inp (p_memory p) ?s = (res, mem', s')" by (rule prod_cases3)
  with assms(4) obtain e where e: "res = Inl e" by (cases res) auto
  have "\<exists>r p'. run_locked renv SYSADMIN t (execute env inp) work_committed p = (Inr None, p')
    \<and> p_alerts p' = p_alerts p \<and> p_health p' = p_health p \<and> p_entries p' = p_entries p \<and> p_memory p' = mem' \<and> p_pending p' = None
    \<and> p_published p' = p_published p @ [(''agent.run'', run_event renv SYSADMIN t ''failed'')]
    \<and> p_runs p' = p_runs p @ [r] \<and> ar_agent r = SYSADMIN \<and> ar_run_type r = t \<and> ar_status r = ''failed''
    \<and> ar_completed_at r = Some (env_completed_at renv)
    \<and> ar_details r = [(''error'', JStr (env_err_text renv e)),
                      (INSTANCE_DETAIL_KEY, JStr (env_instance renv))]"
    by (rule run_failed_effect [OF assms(1-3)]) (use x e in auto)
  then show ?thesis by blast
qed

text \<open>
  C23: two programs of the same file name that both dump core in a loop, neither with an open row,
  fail the whole run of the monitor: their rows have one title, the second is refused by the
  index on open titles, and the refusal is not contained. The run is recorded as failed and
  every row it had written, the services' health rows and alerts included, is gone.
\<close>

theorem same_name_loops_fail_run:
  assumes "runs_ok p" "env_start_error renv = None" "env_outcome_error renv = None"
    "s = open_session renv (snd (record_start renv SYSADMIN t (p\<lparr>p_pending := Some []\<rparr>)))"
    "checks_before_journal env inp (begin_run (p_memory p) s) = (Inr c, st)" "unflushed st = []"
    "jc_enabled (ri_journal inp)" "ri_dumps inp = Some counts"
    "(x, m) \<in> set counts" "jc_loop_count (ri_journal inp) \<le> m"
    "(y, n) \<in> set counts" "jc_loop_count (ri_journal inp) \<le> n"
    "x \<noteq> y" "basename x = basename y"
    "dict_get (open_by_key COREDUMP_DETAIL_KEY (active_alerts SYSADMIN (sess st))) x = None"
    "dict_get (open_by_key COREDUMP_DETAIL_KEY (active_alerts SYSADMIN (sess st))) y = None"
  shows "\<exists>r p'. run_locked renv SYSADMIN t (execute env inp) work_committed p = (Inr None, p')
    \<and> p_alerts p' = p_alerts p \<and> p_health p' = p_health p
    \<and> p_runs p' = p_runs p @ [r] \<and> ar_status r = ''failed''
    \<and> p_published p' = p_published p @ [(''agent.run'', run_event renv SYSADMIN t ''failed'')]"
proof (rule failed_execute_run [OF assms(1-3)])
  have "isl (check_journal_horizon (ri_local_time inp) (ri_journal inp) (ri_window inp) (ri_dumps inp) SYSADMIN
      (ri_now inp) (sess st))"
    by (rule same_name_loops_refused [OF assms(7-16)])
  then show "isl (fst (execute env inp (p_memory p)
      (open_session renv (snd (record_start renv SYSADMIN t (p\<lparr>p_pending := Some []\<rparr>))))))"
    using execute_journal_fails assms(4-6) by blast
qed


definition quiet_inputs :: run_inputs where
  "quiet_inputs =
     \<lparr>ri_readings = [],
      ri_snapshot = \<lparr>rs_cpu_percent = None, rs_ram_percent = None, rs_disk_usage = [], rs_gpu_usage = [],
        rs_recorded_at = 0\<rparr>,
      ri_stored_snapshots = [],
      ri_thresholds = \<lparr>th_disk_warning_percent = 80, th_disk_critical_percent = 90, th_ram_warning_percent = 85,
        th_gpu_temp_warning_c = 90, th_gpu_vram_warning_percent = 90\<rparr>,
      ri_anomaly = sample_anomaly_config\<lparr>an_enabled := False\<rparr>,
      ri_agents = ex_agents, ri_self_monitor = ex_self_monitor\<lparr>sm_enabled := False\<rparr>, ri_runs = [],
      ri_collation_enabled = False, ri_collation_answer = Inr [],
      ri_journal = \<lparr>jc_enabled = True, jc_min_window_days = 14, jc_loop_count = 5, jc_loop_window_minutes = 60\<rparr>,
      ri_window = \<lparr>jw_system_head = None, jw_user_head = None, jw_measured_at = 0\<rparr>,
      ri_dumps = Some [(''/usr/bin/indexer'', 9), (''/opt/bin/indexer'', 7)],
      ri_local_time = isoformat, ri_now = 0\<rparr>"

definition quiet_process :: "memory process" where
  "quiet_process =
     \<lparr>p_alerts = [], p_health = [], p_entries = [], p_runs = [], p_fresh = 0, p_pending = None, p_published = [],
      p_logs = [], p_memory = ex_memory\<rparr>"

lemma quiet_before_journal:
  assumes "rows s = []"
  shows "\<exists>c st. checks_before_journal env quiet_inputs (begin_run m s) = (Inr c, st) \<and> unflushed st = [] \<and> rows (sess st) = []"
  using assms
  by (simp add: checks_before_journal_def bind_step_def on_session_def begin_run_def quiet_inputs_def
      check_thresholds_def threshold_judgements_def ram_judgements_def check_anomalies_def
      sample_anomaly_config_def check_agent_health_def ex_self_monitor_def check_collation_def flush_health_def)

theorem same_name_loops_fail_run_witness:
  "\<exists>p' r. run_locked ex_env SYSADMIN ''scheduled'' (execute ex_menv quiet_inputs) work_committed quiet_process
       = (Inr None, p') \<and> p_runs p' = [r] \<and> ar_status r = ''failed''"
proof -
  let ?s = "open_session ex_env (snd (record_start ex_env SYSADMIN ''scheduled'' (quiet_process\<lparr>p_pending := Some []\<rparr>)))"
  have "rows ?s = []" by (simp add: open_session_def record_start_def quiet_process_def Let_def)
  then obtain c st where st: "checks_before_journal ex_menv quiet_inputs (begin_run (p_memory quiet_process) ?s) = (Inr c, st)"
    "unflushed st = []" "rows (sess st) = []"
    using quiet_before_journal by blast
  have none: "dict_get (open_by_key COREDUMP_DETAIL_KEY (active_alerts SYSADMIN (sess st))) k = None" for k
    using st(3) by (simp add: active_alerts_def open_by_key_def)
  have ok: "runs_ok quiet_process" "env_start_error ex_env = None" "env_outcome_error ex_env = None"
    by (simp_all add: quiet_process_def runs_ok_def ex_env_def)
  have b: "basename ''/usr/bin/indexer'' = basename ''/opt/bin/indexer''" by code_simp
  show ?thesis
    using same_name_loops_fail_run [OF ok refl st(1,2) _ _ _ _ _ _ _ b none none,
        of "[(''/usr/bin/indexer'', 9), (''/opt/bin/indexer'', 7)]" 9 7]
    by (auto simp: quiet_inputs_def quiet_process_def)
qed


end
