(* ===== verification/Notification_Policy.thy ===== *)
theory Notification_Policy
  imports Escalation "HOL-Library.Multiset"
begin

text \<open>
  The tray's notification policy (\<open>src/sysadmin_tray/notifications.py\<close>, class
  \<open>NotificationPolicy\<close>): fed the open alerts of each poll, it decides whether and how loudly to
  speak. One record holds the policy's fields; every method is a function from the policy to
  its answer and the policy after it.

  \<^item> The clock is an argument: one instant per call, in seconds. The source reads its monotonic
    clock again inside \<open>is_snoozed\<close>; the readings of one call are one instant here.
  \<^item> The dict of fingerprint states is an association list, so the order of insertion is kept.
  \<^item> \<open>evaluate\<close> may raise: the roll-up indexes the first line of a body, which an empty body
    does not have. The policy is mutated up to that point, so an error comes with a policy too.
  \<^item> Log lines carry no state of the policy and are left out.

  The properties follow the states of one fingerprint through whole sequences of calls: what is
  sent is audible, announcements of one fault keep the cool-down and the reminder interval,
  a standing critical is escalated, and what digest mode loses.
\<close>

section \<open>Constants and data\<close>

definition SEVERITY_LEVELS :: "(string, int) dict" where
  "SEVERITY_LEVELS = [(''info'', 0), (''warning'', 1), (''critical'', 2)]"

definition FP_COALESCED :: string where
  "FP_COALESCED = ''sysadmin:new-alert-summary''"

definition FP_DIGEST :: string where
  "FP_DIGEST = ''sysadmin:warning-digest''"

definition FP_REMINDER :: string where
  "FP_REMINDER = ''sysadmin:still-open-summary''"

definition FP_BACKEND_UNREACHABLE :: string where
  "FP_BACKEND_UNREACHABLE = ''sysadmin:backend-unreachable''"

definition BACKEND_UNREACHABLE_TITLE :: string where
  "BACKEND_UNREACHABLE_TITLE = ''Monitoring is down''"

definition BACKEND_UNREACHABLE_SEVERITY :: string where
  "BACKEND_UNREACHABLE_SEVERITY = ''critical''"

definition MAX_LISTED_TITLES :: nat where
  "MAX_LISTED_TITLES = 5"

text \<open>\<open>AlertInfo\<close> of \<open>core/contracts.py\<close>, an alert as the API serves it.\<close>

record alert_info =
  ai_id :: string
  ai_agent :: string
  ai_severity :: string
  ai_title :: string
  ai_message :: "string option"
  ai_details :: jobj
  ai_acknowledged :: bool
  ai_resolved :: bool
  ai_created_at :: "string option"

text \<open>The property is declared \<open>str | None\<close>: a value of another type is not considered.\<close>

definition ai_service_name :: "alert_info \<Rightarrow> string option" where
  "ai_service_name a =
     (case map_of (ai_details a) ''service_name'' of Some (JStr s) \<Rightarrow> Some s | _ \<Rightarrow> None)"

record notification_request =
  rq_summary :: string
  rq_body :: string
  rq_severity :: string
  rq_alert_severity :: "string option"
  rq_service_name :: "string option"
  rq_fingerprint :: "string option"
  rq_transient :: bool
  rq_snooze_key :: "string option"
  rq_escalation :: bool
  rq_reminder :: bool

record notification_settings =
  ns_enabled :: bool
  ns_min_severity :: string
  ns_flap_cooldown_minutes :: int
  ns_escalation_polls :: int
  ns_coalesce_threshold :: int
  ns_snooze_minutes :: int
  ns_digest_mode :: bool
  ns_digest_interval_minutes :: int
  ns_respect_desktop_dnd :: bool
  ns_muted_services :: "string list"
  ns_reminder_hours :: rat
  ns_backend_unreachable_grace_seconds :: rat

definition default_settings :: notification_settings where
  "default_settings =
     \<lparr>ns_enabled = True, ns_min_severity = ''critical'', ns_flap_cooldown_minutes = 30,
      ns_escalation_polls = 3, ns_coalesce_threshold = 2, ns_snooze_minutes = 60,
      ns_digest_mode = False, ns_digest_interval_minutes = 60, ns_respect_desktop_dnd = True,
      ns_muted_services = [], ns_reminder_hours = 24,
      ns_backend_unreachable_grace_seconds = 300\<rparr>"

definition severity_level :: "string \<Rightarrow> int" where
  "severity_level s = dict_get_or SEVERITY_LEVELS s 0"

definition min_severity_level :: "notification_settings \<Rightarrow> int" where
  "min_severity_level cfg = dict_get_or SEVERITY_LEVELS (ns_min_severity cfg) 2"

record fingerprint_state =
  fs_fingerprint :: string
  fs_severity :: string
  fs_episode_open :: bool
  fs_polls_active :: nat
  fs_notified :: bool
  fs_escalated :: bool
  fs_last_notified_at :: "rat option"
  fs_first_notified_at :: "rat option"
  fs_reminders_sent :: nat
  fs_suppressed_episodes :: nat

definition new_state :: "string \<Rightarrow> string \<Rightarrow> fingerprint_state" where
  "new_state fp severity =
     \<lparr>fs_fingerprint = fp, fs_severity = severity, fs_episode_open = False, fs_polls_active = 0,
      fs_notified = False, fs_escalated = False, fs_last_notified_at = None,
      fs_first_notified_at = None, fs_reminders_sent = 0, fs_suppressed_episodes = 0\<rparr>"

record policy =
  pl_states :: "(string, fingerprint_state) dict"
  pl_snoozes :: "(string, rat) dict"
  pl_digest :: "(string \<times> string) list"
  pl_digest_started_at :: "rat option"

definition empty_policy :: policy where
  "empty_policy = \<lparr>pl_states = [], pl_snoozes = [], pl_digest = [], pl_digest_started_at = None\<rparr>"

text \<open>The clock and the Do Not Disturb facts of one call.\<close>

record poll =
  po_now :: rat
  po_dnd_active :: bool
  po_dnd_allow_critical :: bool
  po_desktop_inhibited :: bool

section \<open>Small helpers\<close>

definition humanise_minutes :: "rat \<Rightarrow> string" where
  "humanise_minutes minutes =
     (let mins = py_round minutes
      in if mins \<ge> 60 \<and> mins mod 60 = 0
         then (let hours = mins div 60
               in if hours = 1 then ''hour'' else show_int hours @ '' hours'')
         else show_int (if mins \<le> 0 then 1 else mins) @ '' min'')"

definition count_line :: "string list \<Rightarrow> string" where
  "count_line severities =
     py_join '', ''
       (map (\<lambda>sev. show_nat (count_list severities sev) @ '' '' @ sev)
         (filter (\<lambda>sev. count_list severities sev \<noteq> 0) [''critical'', ''warning'', ''info'']))"

text \<open>\<open>max(severities, key=\<dots>, default="info")\<close>: the first of the loudest.\<close>

fun highest_from :: "string \<Rightarrow> string list \<Rightarrow> string" where
  "highest_from best [] = best"
| "highest_from best (s # ss) =
     highest_from (if severity_level best < severity_level s then s else best) ss"

definition highest :: "string list \<Rightarrow> string" where
  "highest severities = (case severities of [] \<Rightarrow> ''info'' | s # ss \<Rightarrow> highest_from s ss)"

text \<open>\<open>text.splitlines()[0]\<close>, with every line boundary Python knows; an empty text has no line.\<close>

fun line_head :: "string \<Rightarrow> string" where
  "line_head [] = []"
| "line_head (c # cs) =
     (if c \<in> set [CHR 0x0A, CHR 0x0B, CHR 0x0C, CHR 0x0D, CHR 0x1C, CHR 0x1D, CHR 0x1E] then []
      else if c = CHR 0xC2 \<and> take 1 cs = [CHR 0x85] then []
      else if c = CHR 0xE2 \<and> take 2 cs \<in> set [[CHR 0x80, CHR 0xA8], [CHR 0x80, CHR 0xA9]] then []
      else c # line_head cs)"

definition splitlines_0 :: "string \<Rightarrow> py_error + string" where
  "splitlines_0 s = (if s = [] then Inl (OtherError ''IndexError'') else Inr (line_head s))"

text \<open>
  \<open>re.search(rf"\b{re.escape(name)}\b", title)\<close> for a name that is not empty: an occurrence of the
  name with a word boundary on both sides. The word characters are the ASCII ones; a letter
  beyond ASCII is not taken for one.
\<close>

definition word_boundary :: "string \<Rightarrow> nat \<Rightarrow> bool" where
  "word_boundary s i =
     ((0 < i \<and> i \<le> length s \<and> word_char (s ! (i - 1))) \<noteq> (i < length s \<and> word_char (s ! i)))"

definition search_word :: "string \<Rightarrow> string \<Rightarrow> bool" where
  "search_word name s =
     list_ex (\<lambda>i. take (length name) (drop i s) = name \<and> word_boundary s i
                \<and> word_boundary s (i + length name)) [0..<Suc (length s)]"

section \<open>Suppression rules\<close>

definition fingerprint :: "alert_info \<Rightarrow> string" where
  "fingerprint a = ai_severity a @ '':'' @ ai_title a"

definition snooze_key_for :: "alert_info \<Rightarrow> string \<Rightarrow> string" where
  "snooze_key_for a fp =
     (case ai_service_name a of
        None \<Rightarrow> ''fp:'' @ fp
      | Some s \<Rightarrow> if s = [] then ''fp:'' @ fp else ''service:'' @ py_lower s)"

definition is_muted :: "notification_settings \<Rightarrow> alert_info \<Rightarrow> bool" where
  "is_muted cfg a =
     (let muted = map py_lower (filter (\<lambda>m. m \<noteq> []) (ns_muted_services cfg));
          service = (case ai_service_name a of None \<Rightarrow> [] | Some s \<Rightarrow> py_lower s)
      in if muted = [] then False
         else if service \<noteq> [] then service \<in> set muted
         else list_ex (\<lambda>name. search_word name (py_lower (ai_title a))) muted)"

text \<open>\<open>is_snoozed\<close> forgets an expired snooze.\<close>

definition is_snoozed :: "rat \<Rightarrow> string \<Rightarrow> policy \<Rightarrow> bool \<times> policy" where
  "is_snoozed now key p =
     (case dict_get (pl_snoozes p) key of
        None \<Rightarrow> (False, p)
      | Some expiry \<Rightarrow>
          if expiry \<le> now then (False, p\<lparr>pl_snoozes := dict_del key (pl_snoozes p)\<rparr>)
          else (True, p))"

definition is_snoozed_for :: "rat \<Rightarrow> string \<Rightarrow> string option \<Rightarrow> policy \<Rightarrow> bool \<times> policy" where
  "is_snoozed_for now fp service p =
     (case is_snoozed now (''fp:'' @ fp) p of
        (True, p1) \<Rightarrow> (True, p1)
      | (False, p1) \<Rightarrow>
          (case service of
             None \<Rightarrow> (False, p1)
           | Some s \<Rightarrow> if s = [] then (False, p1) else is_snoozed now (''service:'' @ py_lower s) p1))"

definition suppressed_by_dnd :: "notification_settings \<Rightarrow> poll \<Rightarrow> string \<Rightarrow> bool" where
  "suppressed_by_dnd cfg po severity =
     (let is_critical = (severity = ''critical'')
      in if po_dnd_active po \<and> \<not> (is_critical \<and> po_dnd_allow_critical po) then True
         else ns_respect_desktop_dnd cfg \<and> po_desktop_inhibited po \<and> \<not> is_critical)"

section \<open>One alert\<close>

definition cooldown_seconds :: "notification_settings \<Rightarrow> rat" where
  "cooldown_seconds cfg = of_int (ns_flap_cooldown_minutes cfg * 60)"

definition reminder_due :: "notification_settings \<Rightarrow> fingerprint_state \<Rightarrow> rat \<Rightarrow> bool" where
  "reminder_due cfg s now =
     (let interval = ns_reminder_hours cfg * 3600
      in case fs_last_notified_at s of
           None \<Rightarrow> False
         | Some t \<Rightarrow> 0 < interval \<and> interval \<le> now - t)"

text \<open>\<open>[title, \<dots>]\<close>, and the message when there is one.\<close>

definition body_lines :: "string list \<Rightarrow> alert_info \<Rightarrow> string" where
  "body_lines ls a =
     py_join newline
       (ls @ (case ai_message a of None \<Rightarrow> [] | Some m \<Rightarrow> if m = [] then [] else [m]))"

definition first_notification ::
  "notification_settings \<Rightarrow> alert_info \<Rightarrow> rat \<Rightarrow> fingerprint_state
     \<Rightarrow> notification_request \<times> fingerprint_state" where
  "first_notification cfg a now s =
     (let severity = ai_severity a;
          quiet_first = (severity = ''critical'' \<and> ns_escalation_polls cfg > 1);
          effective = (if quiet_first then ''info'' else severity);
          flap_lines =
            (case fs_last_notified_at s of
               None \<Rightarrow> []
             | Some t \<Rightarrow>
                 if fs_suppressed_episodes s = 0 then []
                 else [ai_title a @ '' flapped '' @ show_nat (fs_suppressed_episodes s + 1) @ times_sign
                         @ '' in the last '' @ humanise_minutes ((now - t) / 60)])
      in (\<lparr>rq_summary = py_upper severity @ '': sysadmin'',
           rq_body = body_lines (ai_title a # flap_lines) a,
           rq_severity = effective, rq_alert_severity = Some severity,
           rq_service_name = ai_service_name a, rq_fingerprint = Some (fs_fingerprint s),
           rq_transient = (effective = ''info''),
           rq_snooze_key = Some (snooze_key_for a (fs_fingerprint s)),
           rq_escalation = False, rq_reminder = False\<rparr>,
          s\<lparr>fs_suppressed_episodes := 0, fs_notified := True, fs_escalated := False,
            fs_last_notified_at := Some now, fs_first_notified_at := Some now,
            fs_reminders_sent := 0\<rparr>))"

definition maybe_escalate ::
  "notification_settings \<Rightarrow> alert_info \<Rightarrow> rat \<Rightarrow> fingerprint_state
     \<Rightarrow> notification_request option \<times> fingerprint_state" where
  "maybe_escalate cfg a now s =
     (if ai_severity a \<noteq> ''critical'' \<or> fs_escalated s then (None, s)
      else if ns_escalation_polls cfg \<le> 1 then (None, s)
      else if int (fs_polls_active s) < ns_escalation_polls cfg then (None, s)
      else
        (Some \<lparr>rq_summary = ''CRITICAL: sysadmin'',
           rq_body = body_lines
             [ai_title a, ''Still failing after '' @ show_nat (fs_polls_active s) @ '' checks''] a,
           rq_severity = ''critical'', rq_alert_severity = Some ''critical'',
           rq_service_name = ai_service_name a, rq_fingerprint = Some (fs_fingerprint s),
           rq_transient = False, rq_snooze_key = Some (snooze_key_for a (fs_fingerprint s)),
           rq_escalation = True, rq_reminder = False\<rparr>,
         s\<lparr>fs_escalated := True, fs_last_notified_at := Some now\<rparr>))"

text \<open>
  \<open>_reminder\<close>. A reminder is never due while \<open>last_notified_at\<close> is unset, so \<open>opened\<close> is an instant.
\<close>

definition reminder ::
  "notification_settings \<Rightarrow> alert_info \<Rightarrow> rat \<Rightarrow> fingerprint_state
     \<Rightarrow> notification_request option \<times> fingerprint_state" where
  "reminder cfg a now s =
     (case fs_last_notified_at s of
        None \<Rightarrow> (None, s)
      | Some spoke \<Rightarrow>
        if \<not> reminder_due cfg s now then (None, s)
        else
        (let opened = (case fs_first_notified_at s of None \<Rightarrow> spoke | Some t \<Rightarrow> t)
         in (Some \<lparr>rq_summary = py_upper (ai_severity a) @ '': sysadmin'',
               rq_body = body_lines
                 [ai_title a, ''Still open '' @ humanise_hours ((now - opened) / 3600)
                    @ '' after the first alert''] a,
               rq_severity = ai_severity a, rq_alert_severity = Some (ai_severity a),
               rq_service_name = ai_service_name a, rq_fingerprint = Some (fs_fingerprint s),
               rq_transient = False, rq_snooze_key = Some (snooze_key_for a (fs_fingerprint s)),
               rq_escalation = False, rq_reminder = True\<rparr>,
             s\<lparr>fs_last_notified_at := Some now, fs_reminders_sent := Suc (fs_reminders_sent s)\<rparr>)))"

text \<open>\<open>_consider\<close>: the state of the alert's fingerprint is passed beside the policy.\<close>

definition consider_alert ::
  "notification_settings \<Rightarrow> poll \<Rightarrow> alert_info \<Rightarrow> bool \<Rightarrow> fingerprint_state \<Rightarrow> policy
     \<Rightarrow> notification_request option \<times> fingerprint_state \<times> policy" where
  "consider_alert cfg po a first_poll s p =
     (let severity = ai_severity a; now = po_now po
      in if severity_level severity < min_severity_level cfg then (None, s, p)
         else if is_muted cfg a then (None, s, p)
         else
           (case is_snoozed_for now (fs_fingerprint s) (ai_service_name a) p of
              (True, p1) \<Rightarrow> (None, s, p1)
            | (False, p1) \<Rightarrow>
                if suppressed_by_dnd cfg po severity then (None, s, p1)
                else if ns_digest_mode cfg \<and> severity \<noteq> ''critical'' then
                  (None, s,
                   if first_poll
                   then p1\<lparr>pl_digest := pl_digest p1 @ [(severity, ai_title a)],
                           pl_digest_started_at :=
                             (case pl_digest_started_at p1 of None \<Rightarrow> Some now | t \<Rightarrow> t)\<rparr>
                   else p1)
                else if fs_notified s then
                  (case maybe_escalate cfg a now s of
                     (Some r, s1) \<Rightarrow> (Some r, s1, p1)
                   | (None, s1) \<Rightarrow> (case reminder cfg a now s1 of (r, s2) \<Rightarrow> (r, s2, p1)))
                else if 0 < cooldown_seconds cfg
                    \<and> (case fs_last_notified_at s of
                         None \<Rightarrow> False | Some t \<Rightarrow> now - t < cooldown_seconds cfg) then
                  (None,
                   if first_poll then s\<lparr>fs_suppressed_episodes := Suc (fs_suppressed_episodes s)\<rparr>
                   else s, p1)
                else (case first_notification cfg a now s of (r, s1) \<Rightarrow> (Some r, s1, p1))))"

section \<open>One poll\<close>

fun seq_results :: "('e + 'a) list \<Rightarrow> 'e + 'a list" where
  "seq_results [] = Inr []"
| "seq_results (Inl e # xs) = Inl e"
| "seq_results (Inr x # xs) = (case seq_results xs of Inl e \<Rightarrow> Inl e | Inr ys \<Rightarrow> Inr (x # ys))"

definition and_more :: "'a list \<Rightarrow> string list" where
  "and_more xs =
     (if length xs > MAX_LISTED_TITLES
      then [ellipsis @ ''and '' @ show_nat (length xs - MAX_LISTED_TITLES) @ '' more''] else [])"

text \<open>\<open>_coalesce\<close>: the label, the fingerprint and the reminder flag are the keyword arguments.\<close>

definition coalesce ::
  "notification_settings \<Rightarrow> string \<Rightarrow> string \<Rightarrow> bool \<Rightarrow> notification_request list
     \<Rightarrow> py_error + notification_request list" where
  "coalesce cfg label fp is_reminder fresh =
     (let threshold = max (ns_coalesce_threshold cfg) 2
      in if int (length fresh) < threshold \<or> length fresh < 2 then Inr fresh
         else
           (let reported = map (\<lambda>r. case rq_alert_severity r of
                                      None \<Rightarrow> rq_severity r
                                    | Some s \<Rightarrow> if s = [] then rq_severity r else s) fresh;
                urgency = highest (map rq_severity fresh)
            in case seq_results (map (\<lambda>r. splitlines_0 (rq_body r)) (take MAX_LISTED_TITLES fresh)) of
                 Inl e \<Rightarrow> Inl e
               | Inr heads \<Rightarrow>
                   Inr [\<lparr>rq_summary = show_nat (length fresh) @ '' '' @ label,
                         rq_body = py_join newline
                           ([count_line reported] @ map (\<lambda>h. bullet @ '' '' @ h) heads @ and_more fresh),
                         rq_severity = urgency, rq_alert_severity = Some (highest reported),
                         rq_service_name = None, rq_fingerprint = Some fp,
                         rq_transient = (if is_reminder then False else urgency \<noteq> ''critical''),
                         rq_snooze_key = None, rq_escalation = False, rq_reminder = is_reminder\<rparr>]))"

text \<open>\<open>self._digest_started_at or now\<close>: an instant of exactly zero is falsy.\<close>

definition digest_started :: "policy \<Rightarrow> rat \<Rightarrow> rat" where
  "digest_started p now =
     (case pl_digest_started_at p of None \<Rightarrow> now | Some t \<Rightarrow> if t = 0 then now else t)"

definition flush_digest ::
  "notification_settings \<Rightarrow> rat \<Rightarrow> policy \<Rightarrow> notification_request option \<times> policy" where
  "flush_digest cfg now p =
     (if pl_digest p = [] then (None, p)
      else
        (let started = digest_started p now;
             items = pl_digest p;
             elapsed = max ((now - started) / 60) 1;
             interval = of_int (ns_digest_interval_minutes cfg);
             window = humanise_minutes (min elapsed (if interval = 0 then elapsed else interval));
             titles = map snd items
         in (Some \<lparr>rq_summary = ''SysAdmin digest '' @ em_dash @ '' '' @ show_nat (length items)
                       @ '' alerts in the last '' @ window,
                   rq_body = py_join newline
                     ([count_line (map fst items)]
                      @ map (\<lambda>t. bullet @ '' '' @ t) (take MAX_LISTED_TITLES titles) @ and_more titles),
                   rq_severity = ''info'', rq_alert_severity = Some (highest (map fst items)),
                   rq_service_name = None, rq_fingerprint = Some FP_DIGEST, rq_transient = False,
                   rq_snooze_key = None, rq_escalation = False, rq_reminder = False\<rparr>,
             p\<lparr>pl_digest := [], pl_digest_started_at := None\<rparr>)))"

definition maybe_flush_digest ::
  "notification_settings \<Rightarrow> rat \<Rightarrow> policy \<Rightarrow> notification_request option \<times> policy" where
  "maybe_flush_digest cfg now p =
     (if pl_digest p = [] then (None, p)
      else if now - digest_started p now < of_int (ns_digest_interval_minutes cfg * 60) then (None, p)
      else flush_digest cfg now p)"

text \<open>The fields that end with an episode.\<close>

definition close_episode :: "fingerprint_state \<Rightarrow> fingerprint_state" where
  "close_episode s =
     s\<lparr>fs_episode_open := False, fs_polls_active := 0, fs_notified := False, fs_escalated := False,
       fs_first_notified_at := None, fs_reminders_sent := 0\<rparr>"

text \<open>One turn of the loop in \<open>_close_inactive\<close>: \<^const>\<open>None\<close> deletes the entry.\<close>

definition close_entry ::
  "notification_settings \<Rightarrow> string list \<Rightarrow> rat \<Rightarrow> string \<times> fingerprint_state
     \<Rightarrow> (string \<times> fingerprint_state) option" where
  "close_entry cfg active now e =
     (case e of
        (fp, s) \<Rightarrow>
          if fp \<in> set active \<or> fp = FP_BACKEND_UNREACHABLE then Some (fp, s)
          else
            (case fs_last_notified_at s of
               None \<Rightarrow> None
             | Some t \<Rightarrow> if now - t > cooldown_seconds cfg then None
                         else Some (fp, close_episode s)))"

definition close_inactive :: "notification_settings \<Rightarrow> string list \<Rightarrow> rat \<Rightarrow> policy \<Rightarrow> policy" where
  "close_inactive cfg active now p =
     p\<lparr>pl_states := List.map_filter (close_entry cfg active now) (pl_states p)\<rparr>"

text \<open>
  The loop of \<open>evaluate\<close>. Its result collects \<open>fresh\<close>, \<open>reminders\<close> and the escalations in the
  order they were appended, and the set \<open>active\<close>.
\<close>

record verdicts =
  vd_fresh :: "notification_request list"
  vd_reminders :: "notification_request list"
  vd_requests :: "notification_request list"
  vd_active :: "string list"

definition file_request :: "notification_request option \<Rightarrow> verdicts \<Rightarrow> verdicts" where
  "file_request r v =
     (case r of
        None \<Rightarrow> v
      | Some q \<Rightarrow>
          if rq_escalation q then v\<lparr>vd_requests := vd_requests v @ [q]\<rparr>
          else if rq_reminder q then v\<lparr>vd_reminders := vd_reminders v @ [q]\<rparr>
          else v\<lparr>vd_fresh := vd_fresh v @ [q]\<rparr>)"

definition touch_state :: "alert_info \<Rightarrow> policy \<Rightarrow> fingerprint_state" where
  "touch_state a p =
     (case dict_get (pl_states p) (fingerprint a) of
        None \<Rightarrow> new_state (fingerprint a) (ai_severity a)
      | Some s \<Rightarrow> s)"

definition alert_turn ::
  "notification_settings \<Rightarrow> poll \<Rightarrow> alert_info \<Rightarrow> verdicts \<times> policy \<Rightarrow> verdicts \<times> policy" where
  "alert_turn cfg po a vp =
     (case vp of
        (v, p) \<Rightarrow>
          if ai_acknowledged a then (v, p)
          else if fingerprint a \<in> set (vd_active v) then (v, p)
          else
            (let s = touch_state a p;
                 first_poll = (\<not> fs_episode_open s);
                 s1 = s\<lparr>fs_episode_open := True, fs_polls_active := Suc (fs_polls_active s)\<rparr>
             in case consider_alert cfg po a first_poll s1 p of
                  (r, s2, p1) \<Rightarrow>
                    (file_request r (v\<lparr>vd_active := vd_active v @ [fingerprint a]\<rparr>),
                     p1\<lparr>pl_states := dict_set (fingerprint a) s2 (pl_states p1)\<rparr>)))"

definition no_verdicts :: verdicts where
  "no_verdicts = \<lparr>vd_fresh = [], vd_reminders = [], vd_requests = [], vd_active = []\<rparr>"

definition alert_loop ::
  "notification_settings \<Rightarrow> poll \<Rightarrow> alert_info list \<Rightarrow> policy \<Rightarrow> verdicts \<times> policy" where
  "alert_loop cfg po alerts p = fold (alert_turn cfg po) alerts (no_verdicts, p)"

definition evaluate ::
  "notification_settings \<Rightarrow> poll \<Rightarrow> alert_info list \<Rightarrow> policy
     \<Rightarrow> (py_error + notification_request list) \<times> policy" where
  "evaluate cfg po alerts p =
     (if \<not> ns_enabled cfg then (Inr [], p)
      else
        (case alert_loop cfg po alerts p of
           (v, p1) \<Rightarrow>
             (case coalesce cfg ''new alerts'' FP_COALESCED False (vd_fresh v) of
                Inl e \<Rightarrow> (Inl e, p1)
              | Inr new \<Rightarrow>
                  (case coalesce cfg ''alerts still open'' FP_REMINDER True (vd_reminders v) of
                     Inl e \<Rightarrow> (Inl e, p1)
                   | Inr still \<Rightarrow>
                       (case maybe_flush_digest cfg (po_now po) p1 of
                          (digest, p2) \<Rightarrow>
                            (Inr (new @ still @ vd_requests v
                                  @ (case digest of None \<Rightarrow> [] | Some d \<Rightarrow> [d])),
                             close_inactive cfg (vd_active v) (po_now po) p2))))))"

section \<open>The unreachable backend, snoozes and reset\<close>

definition backend_unreachable_request :: "fingerprint_state \<Rightarrow> rat \<Rightarrow> bool \<Rightarrow> notification_request" where
  "backend_unreachable_request s unreachable_for is_reminder =
     \<lparr>rq_summary = py_upper BACKEND_UNREACHABLE_SEVERITY @ '': sysadmin'',
      rq_body = BACKEND_UNREACHABLE_TITLE @ newline
        @ py_join newline
            [''No answer from the monitoring service for '' @ humanise_hours (unreachable_for / 3600) @ ''.'',
             ''Alerts, service checks and log capture are all stopped.'',
             ''systemctl status sysadmin '' @ em_dash @ '' journalctl -u sysadmin -n 50''],
      rq_severity = BACKEND_UNREACHABLE_SEVERITY,
      rq_alert_severity = Some BACKEND_UNREACHABLE_SEVERITY,
      rq_service_name = None, rq_fingerprint = Some (fs_fingerprint s), rq_transient = False,
      rq_snooze_key = Some (''fp:'' @ fs_fingerprint s), rq_escalation = False,
      rq_reminder = is_reminder\<rparr>"

text \<open>The part after the suppression rules: what is said, and the state after it.\<close>

definition speak_unreachable ::
  "notification_settings \<Rightarrow> rat \<Rightarrow> rat \<Rightarrow> fingerprint_state
     \<Rightarrow> notification_request option \<times> fingerprint_state" where
  "speak_unreachable cfg unreachable_for now s =
     (if fs_notified s then
        if \<not> reminder_due cfg s now then (None, s)
        else
          (let s' = s\<lparr>fs_last_notified_at := Some now,
                      fs_reminders_sent := Suc (fs_reminders_sent s)\<rparr>
           in (Some (backend_unreachable_request s' unreachable_for True), s'))
      else if 0 < cooldown_seconds cfg
          \<and> (case fs_last_notified_at s of
               None \<Rightarrow> False | Some t \<Rightarrow> now - t < cooldown_seconds cfg) then
        (None, s\<lparr>fs_suppressed_episodes := Suc (fs_suppressed_episodes s)\<rparr>)
      else
        (let s' = s\<lparr>fs_suppressed_episodes := 0, fs_notified := True,
                    fs_last_notified_at := Some now, fs_first_notified_at := Some now,
                    fs_reminders_sent := 0\<rparr>
         in (Some (backend_unreachable_request s' unreachable_for False), s')))"

definition evaluate_backend_unreachable ::
  "notification_settings \<Rightarrow> poll \<Rightarrow> rat \<Rightarrow> policy \<Rightarrow> notification_request option \<times> policy" where
  "evaluate_backend_unreachable cfg po unreachable_for p =
     (let grace = ns_backend_unreachable_grace_seconds cfg; now = po_now po
      in if \<not> ns_enabled cfg \<or> grace \<le> 0 then (None, p)
         else if unreachable_for < grace then (None, p)
         else if severity_level BACKEND_UNREACHABLE_SEVERITY < min_severity_level cfg then (None, p)
         else
           (let s0 = (case dict_get (pl_states p) FP_BACKEND_UNREACHABLE of
                        None \<Rightarrow> new_state FP_BACKEND_UNREACHABLE BACKEND_UNREACHABLE_SEVERITY
                      | Some s \<Rightarrow> s);
                s = s0\<lparr>fs_episode_open := True, fs_polls_active := Suc (fs_polls_active s0)\<rparr>;
                store = (\<lambda>s p. p\<lparr>pl_states := dict_set FP_BACKEND_UNREACHABLE s (pl_states p)\<rparr>)
            in case is_snoozed_for now FP_BACKEND_UNREACHABLE None (store s p) of
                 (True, p1) \<Rightarrow> (None, p1)
               | (False, p1) \<Rightarrow>
                   if suppressed_by_dnd cfg po BACKEND_UNREACHABLE_SEVERITY then (None, p1)
                   else (case speak_unreachable cfg unreachable_for now s of
                           (r, s') \<Rightarrow> (r, store s' p1))))"

definition backend_reachable :: "policy \<Rightarrow> policy" where
  "backend_reachable p =
     (case dict_get (pl_states p) FP_BACKEND_UNREACHABLE of
        None \<Rightarrow> p
      | Some s \<Rightarrow>
          p\<lparr>pl_states :=
             (if fs_last_notified_at s = None then dict_del FP_BACKEND_UNREACHABLE (pl_states p)
              else dict_set FP_BACKEND_UNREACHABLE (close_episode s) (pl_states p))\<rparr>)"

definition snooze :: "notification_settings \<Rightarrow> rat \<Rightarrow> string \<Rightarrow> int option \<Rightarrow> policy \<Rightarrow> policy" where
  "snooze cfg now key minutes p =
     (let window = (case minutes of None \<Rightarrow> ns_snooze_minutes cfg | Some m \<Rightarrow> m)
      in p\<lparr>pl_snoozes := dict_set key (now + of_int (window * 60)) (pl_snoozes p)\<rparr>)"

definition pending_digest_count :: "policy \<Rightarrow> nat" where
  "pending_digest_count p = length (pl_digest p)"

definition reset :: "policy \<Rightarrow> policy" where
  "reset p = p\<lparr>pl_states := [], pl_snoozes := [], pl_digest := [], pl_digest_started_at := None\<rparr>"

section \<open>What is audible\<close>

text \<open>
  The decision on one alert depends on the policy only through the snoozes that are running.
  \<open>decide\<close> is \<^const>\<open>consider_alert\<close> without the book-keeping of snoozes and digest.
\<close>

definition snoozed_at :: "rat \<Rightarrow> policy \<Rightarrow> string \<Rightarrow> bool" where
  "snoozed_at now p key = (case dict_get (pl_snoozes p) key of None \<Rightarrow> False | Some e \<Rightarrow> now < e)"

definition snoozed_for :: "rat \<Rightarrow> string \<Rightarrow> string option \<Rightarrow> policy \<Rightarrow> bool" where
  "snoozed_for now fp service p =
     (snoozed_at now p (''fp:'' @ fp)
      \<or> (case service of None \<Rightarrow> False | Some s \<Rightarrow> s \<noteq> [] \<and> snoozed_at now p (''service:'' @ py_lower s)))"

definition audible :: "notification_settings \<Rightarrow> poll \<Rightarrow> policy \<Rightarrow> alert_info \<Rightarrow> bool" where
  "audible cfg po p a =
     (min_severity_level cfg \<le> severity_level (ai_severity a) \<and> \<not> is_muted cfg a
      \<and> \<not> snoozed_for (po_now po) (fingerprint a) (ai_service_name a) p
      \<and> \<not> suppressed_by_dnd cfg po (ai_severity a))"

definition cooling :: "notification_settings \<Rightarrow> rat \<Rightarrow> fingerprint_state \<Rightarrow> bool" where
  "cooling cfg now s =
     (0 < cooldown_seconds cfg
      \<and> (case fs_last_notified_at s of None \<Rightarrow> False | Some t \<Rightarrow> now - t < cooldown_seconds cfg))"

definition decide ::
  "notification_settings \<Rightarrow> rat \<Rightarrow> alert_info \<Rightarrow> bool \<Rightarrow> bool \<Rightarrow> fingerprint_state
     \<Rightarrow> notification_request option \<times> fingerprint_state" where
  "decide cfg now a heard first_poll s =
     (if \<not> heard \<or> ns_digest_mode cfg \<and> ai_severity a \<noteq> ''critical'' then (None, s)
      else if fs_notified s then
        (case maybe_escalate cfg a now s of
           (Some r, s1) \<Rightarrow> (Some r, s1) | (None, s1) \<Rightarrow> reminder cfg a now s1)
      else if cooling cfg now s then
        (None, if first_poll then s\<lparr>fs_suppressed_episodes := Suc (fs_suppressed_episodes s)\<rparr> else s)
      else map_prod Some id (first_notification cfg a now s))"

lemma is_snoozed_eq:
  "\<exists>p'. is_snoozed now key p = (snoozed_at now p key, p') \<and> pl_states p' = pl_states p
      \<and> pl_digest p' = pl_digest p \<and> pl_digest_started_at p' = pl_digest_started_at p
      \<and> snoozed_at now p' = snoozed_at now p"
  by (auto simp: is_snoozed_def snoozed_at_def fun_eq_iff split: option.splits)

lemma is_snoozed_for_eq:
  "\<exists>p'. is_snoozed_for now fp service p = (snoozed_for now fp service p, p')
      \<and> pl_states p' = pl_states p
      \<and> pl_digest p' = pl_digest p \<and> pl_digest_started_at p' = pl_digest_started_at p
      \<and> snoozed_at now p' = snoozed_at now p"
proof -
  obtain p1 where 1: "is_snoozed now (''fp:'' @ fp) p = (snoozed_at now p (''fp:'' @ fp), p1)"
    "pl_states p1 = pl_states p" "pl_digest p1 = pl_digest p"
    "pl_digest_started_at p1 = pl_digest_started_at p" "snoozed_at now p1 = snoozed_at now p"
    using is_snoozed_eq by blast
  obtain p2 where 2: "is_snoozed now (''service:'' @ py_lower (the service)) p1
      = (snoozed_at now p1 (''service:'' @ py_lower (the service)), p2)"
    "pl_states p2 = pl_states p1" "pl_digest p2 = pl_digest p1"
    "pl_digest_started_at p2 = pl_digest_started_at p1" "snoozed_at now p2 = snoozed_at now p1"
    using is_snoozed_eq by blast
  show ?thesis
    using 1 2 by (cases "snoozed_at now p (''fp:'' @ fp)"; cases service)
      (auto simp: is_snoozed_for_def snoozed_for_def simp del: append.simps)
qed

definition heard_in :: "notification_settings \<Rightarrow> poll \<Rightarrow> policy \<Rightarrow> alert_info \<Rightarrow> fingerprint_state \<Rightarrow> bool" where
  "heard_in cfg po p a s =
     (min_severity_level cfg \<le> severity_level (ai_severity a) \<and> \<not> is_muted cfg a
      \<and> \<not> snoozed_for (po_now po) (fs_fingerprint s) (ai_service_name a) p
      \<and> \<not> suppressed_by_dnd cfg po (ai_severity a))"

lemma consider_alert_decide:
  "\<exists>p'. consider_alert cfg po a first_poll s p =
          (fst (decide cfg (po_now po) a (heard_in cfg po p a s) first_poll s),
           snd (decide cfg (po_now po) a (heard_in cfg po p a s) first_poll s), p')
      \<and> pl_states p' = pl_states p \<and> snoozed_at (po_now po) p' = snoozed_at (po_now po) p
      \<and> pl_digest p' = pl_digest p
          @ (if ns_digest_mode cfg \<and> ai_severity a \<noteq> ''critical'' \<and> heard_in cfg po p a s \<and> first_poll
             then [(ai_severity a, ai_title a)] else [])"
proof -
  obtain p1 where 1: "is_snoozed_for (po_now po) (fs_fingerprint s) (ai_service_name a) p
      = (snoozed_for (po_now po) (fs_fingerprint s) (ai_service_name a) p, p1)"
    "pl_states p1 = pl_states p" "pl_digest p1 = pl_digest p"
    "snoozed_at (po_now po) p1 = snoozed_at (po_now po) p"
    using is_snoozed_for_eq by blast
  have frame: "snoozed_at (po_now po) (p1\<lparr>pl_digest := x, pl_digest_started_at := y\<rparr>)
      = snoozed_at (po_now po) p" for x y
    using 1(4) by (auto simp: snoozed_at_def fun_eq_iff)
  show ?thesis
    using 1 frame
    by (cases "snoozed_for (po_now po) (fs_fingerprint s) (ai_service_name a) p";
        cases "suppressed_by_dnd cfg po (ai_severity a)")
      (auto simp: consider_alert_def Let_def decide_def heard_in_def cooling_def map_prod_def
        split: prod.splits option.splits)
qed

section \<open>What a decision says\<close>

lemma decide_quiet:
  assumes "decide cfg now a heard fp s = (None, s')"
  shows "fs_last_notified_at s' = fs_last_notified_at s \<and> fs_notified s' = fs_notified s
    \<and> fs_fingerprint s' = fs_fingerprint s \<and> fs_escalated s' = fs_escalated s
    \<and> fs_polls_active s' = fs_polls_active s \<and> fs_episode_open s' = fs_episode_open s"
  using assms
  by (auto simp: decide_def maybe_escalate_def reminder_def first_notification_def Let_def
      split: if_splits option.splits)

lemma decide_spoken:
  assumes "decide cfg now a heard fp s = (Some r, s')"
  shows "heard \<and> rq_fingerprint r = Some (fs_fingerprint s) \<and> fs_last_notified_at s' = Some now
    \<and> fs_notified s' \<and> fs_fingerprint s' = fs_fingerprint s
    \<and> fs_polls_active s' = fs_polls_active s \<and> fs_episode_open s' = fs_episode_open s"
  using assms
  by (auto simp: decide_def maybe_escalate_def reminder_def first_notification_def Let_def
      split: if_splits option.splits)

text \<open>The three kinds of request, and what each presupposes.\<close>

lemma decide_fresh:
  assumes "decide cfg now a heard fp s = (Some r, s')" "\<not> rq_escalation r" "\<not> rq_reminder r"
  shows "\<not> fs_notified s \<and> \<not> cooling cfg now s \<and> \<not> fs_escalated s'
    \<and> r = fst (first_notification cfg a now s)"
  using assms
  by (auto simp: decide_def maybe_escalate_def reminder_def Let_def first_notification_def
      split: if_splits option.splits)

lemma decide_reminder:
  assumes "decide cfg now a heard fp s = (Some r, s')" "rq_reminder r"
  shows "fs_notified s \<and> reminder_due cfg s now \<and> \<not> rq_escalation r \<and> \<not> rq_transient r"
  using assms
  by (auto simp: decide_def maybe_escalate_def reminder_def first_notification_def Let_def
      split: if_splits option.splits)

lemma decide_escalation:
  assumes "decide cfg now a heard fp s = (Some r, s')" "rq_escalation r"
  shows "fs_notified s \<and> \<not> fs_escalated s \<and> fs_escalated s' \<and> ai_severity a = ''critical''
    \<and> rq_severity r = ''critical'' \<and> ns_escalation_polls cfg \<le> int (fs_polls_active s)"
  using assms
  by (auto simp: decide_def maybe_escalate_def reminder_def first_notification_def Let_def
      split: if_splits option.splits)

lemma decide_keeps_fingerprint [simp]:
  "fs_fingerprint (snd (decide cfg now a heard fp s)) = fs_fingerprint s"
  by (cases "decide cfg now a heard fp s"; cases "fst (decide cfg now a heard fp s)")
    (auto dest: decide_quiet decide_spoken)

section \<open>The loop, one fingerprint at a time\<close>

definition policy_wf :: "policy \<Rightarrow> bool" where
  "policy_wf p =
     (dict_wf (pl_states p)
      \<and> (\<forall>(fp, s) \<in> set (pl_states p).
           fs_fingerprint s = fp \<and> (fs_notified s \<longrightarrow> fs_last_notified_at s \<noteq> None)))"

lemma policy_wfD:
  assumes "policy_wf p" "dict_get (pl_states p) f = Some s"
  shows "fs_fingerprint s = f" "fs_notified s \<Longrightarrow> fs_last_notified_at s \<noteq> None"
  using assms map_of_SomeD [of "pl_states p" f s] by (auto simp: policy_wf_def dict_get_def)

lemma policy_wfI:
  assumes "dict_wf (pl_states p)"
    and "\<And>f s. dict_get (pl_states p) f = Some s \<Longrightarrow>
      fs_fingerprint s = f \<and> (fs_notified s \<longrightarrow> fs_last_notified_at s \<noteq> None)"
  shows "policy_wf p"
  using assms by (auto simp: policy_wf_def dict_get_def dict_wf_def)

lemma policy_wf_set:
  assumes "policy_wf p" "pl_states q = dict_set f s (pl_states p)" "fs_fingerprint s = f"
    "fs_notified s \<longrightarrow> fs_last_notified_at s \<noteq> None"
  shows "policy_wf q"
  using assms policy_wfD [OF assms(1)]
  by (intro policy_wfI) (auto simp: policy_wf_def split: if_splits)

lemma policy_wf_cong: "pl_states q = pl_states p \<Longrightarrow> policy_wf q = policy_wf p"
  by (simp add: policy_wf_def)

definition all_verdicts :: "verdicts \<Rightarrow> notification_request list" where
  "all_verdicts v = vd_fresh v @ vd_reminders v @ vd_requests v"

definition said :: "string \<Rightarrow> verdicts \<Rightarrow> notification_request list" where
  "said f v = filter (\<lambda>r. rq_fingerprint r = Some f) (all_verdicts v)"

text \<open>What the poll does to the state of the alert it considers first.\<close>

definition opened :: "alert_info \<Rightarrow> policy \<Rightarrow> fingerprint_state" where
  "opened a p =
     (touch_state a p)\<lparr>fs_episode_open := True, fs_polls_active := Suc (fs_polls_active (touch_state a p))\<rparr>"

definition outcome ::
  "notification_settings \<Rightarrow> poll \<Rightarrow> policy \<Rightarrow> alert_info \<Rightarrow> notification_request option \<times> fingerprint_state"
where
  "outcome cfg po p a =
     decide cfg (po_now po) a (audible cfg po p a) (\<not> fs_episode_open (touch_state a p)) (opened a p)"

lemma touch_state_fingerprint [simp]:
  "policy_wf p \<Longrightarrow> fs_fingerprint (touch_state a p) = fingerprint a"
  using policy_wfD(1) by (auto simp: touch_state_def new_state_def split: option.splits)

lemma touch_state_notified:
  "policy_wf p \<Longrightarrow> fs_notified (touch_state a p) \<Longrightarrow> fs_last_notified_at (touch_state a p) \<noteq> None"
  using policy_wfD(2) by (auto simp: touch_state_def new_state_def split: option.splits)

lemma opened_simps [simp]:
  "fs_fingerprint (opened a p) = fs_fingerprint (touch_state a p)"
  "fs_notified (opened a p) = fs_notified (touch_state a p)"
  "fs_last_notified_at (opened a p) = fs_last_notified_at (touch_state a p)"
  "fs_escalated (opened a p) = fs_escalated (touch_state a p)"
  "fs_polls_active (opened a p) = Suc (fs_polls_active (touch_state a p))"
  "fs_episode_open (opened a p)"
  by (simp_all add: opened_def)

lemma outcome_fingerprint [simp]:
  "policy_wf p \<Longrightarrow> fs_fingerprint (snd (outcome cfg po p a)) = fingerprint a"
  by (simp add: outcome_def)

lemma outcome_request:
  "policy_wf p \<Longrightarrow> fst (outcome cfg po p a) = Some r \<Longrightarrow> rq_fingerprint r = Some (fingerprint a)"
  using decide_spoken
  by (cases "outcome cfg po p a") (fastforce simp: outcome_def)

lemma outcome_notified:
  assumes "policy_wf p"
  shows "fs_notified (snd (outcome cfg po p a)) \<longrightarrow>
    fs_last_notified_at (snd (outcome cfg po p a)) \<noteq> None"
proof (cases "outcome cfg po p a")
  case (Pair r s')
  then show ?thesis
    using decide_quiet [of cfg "po_now po" a _ _ "opened a p" s']
      decide_spoken [of cfg "po_now po" a _ _ "opened a p" _ s'] touch_state_notified [OF assms, of a]
    by (cases r) (auto simp: outcome_def)
qed

lemma alert_turn_skips:
  "ai_acknowledged a \<or> fingerprint a \<in> set (vd_active v) \<Longrightarrow> alert_turn cfg po a (v, p) = (v, p)"
  by (auto simp: alert_turn_def)

lemma alert_turn_eq:
  assumes "policy_wf p" "\<not> ai_acknowledged a" "fingerprint a \<notin> set (vd_active v)"
  shows "\<exists>p'. alert_turn cfg po a (v, p) =
      (file_request (fst (outcome cfg po p a)) (v\<lparr>vd_active := vd_active v @ [fingerprint a]\<rparr>), p')
    \<and> pl_states p' = dict_set (fingerprint a) (snd (outcome cfg po p a)) (pl_states p)
    \<and> snoozed_at (po_now po) p' = snoozed_at (po_now po) p
    \<and> pl_digest p' = pl_digest p
          @ (if ns_digest_mode cfg \<and> ai_severity a \<noteq> ''critical'' \<and> audible cfg po p a
                \<and> \<not> fs_episode_open (touch_state a p)
             then [(ai_severity a, ai_title a)] else [])"
proof -
  have h: "heard_in cfg po p a (opened a p) = audible cfg po p a"
    using assms(1) by (simp add: heard_in_def audible_def)
  obtain p1 where 1: "consider_alert cfg po a (\<not> fs_episode_open (touch_state a p)) (opened a p) p =
      (fst (outcome cfg po p a), snd (outcome cfg po p a), p1)"
    "pl_states p1 = pl_states p" "snoozed_at (po_now po) p1 = snoozed_at (po_now po) p"
    "pl_digest p1 = pl_digest p
          @ (if ns_digest_mode cfg \<and> ai_severity a \<noteq> ''critical'' \<and> audible cfg po p a
                \<and> \<not> fs_episode_open (touch_state a p)
             then [(ai_severity a, ai_title a)] else [])"
    using consider_alert_decide [of cfg po a "\<not> fs_episode_open (touch_state a p)" "opened a p" p]
    unfolding h outcome_def by blast
  have frame: "snoozed_at (po_now po) (p1\<lparr>pl_states := x\<rparr>) = snoozed_at (po_now po) p" for x
    using 1(3) by (auto simp: snoozed_at_def fun_eq_iff)
  show ?thesis
    using assms(2,3) 1 frame
    by (simp add: alert_turn_def Let_def opened_def [symmetric])
qed

lemma audible_cong:
  "snoozed_at (po_now po) q = snoozed_at (po_now po) p \<Longrightarrow> audible cfg po q a = audible cfg po p a"
  by (simp add: audible_def snoozed_for_def split: option.split)

lemma outcome_cong:
  assumes "snoozed_at (po_now po) q = snoozed_at (po_now po) p"
    "dict_get (pl_states q) (fingerprint a) = dict_get (pl_states p) (fingerprint a)"
  shows "outcome cfg po q a = outcome cfg po p a"
  using assms audible_cong [OF assms(1), of cfg a]
  by (simp add: outcome_def opened_def touch_state_def)

lemma said_file_request:
  "said f (file_request r (v\<lparr>vd_active := x\<rparr>)) =
     (case r of
        None \<Rightarrow> said f v
      | Some q \<Rightarrow> if rq_fingerprint q = Some f then said f (file_request r v) else said f v)"
  "said f v = [] \<Longrightarrow> rq_fingerprint q = Some f \<Longrightarrow> said f (file_request (Some q) v) = [q]"
  by (auto simp: said_def all_verdicts_def file_request_def split: option.splits)

lemma file_request_active [simp]: "vd_active (file_request r v) = vd_active v"
  by (auto simp: file_request_def split: option.splits)

lemma alert_turn_wf:
  assumes "policy_wf p" "alert_turn cfg po a (v, p) = (v', p')"
  shows "policy_wf p' \<and> snoozed_at (po_now po) p' = snoozed_at (po_now po) p"
proof (cases "ai_acknowledged a \<or> fingerprint a \<in> set (vd_active v)")
  case True
  then show ?thesis using assms by (simp add: alert_turn_skips)
next
  case False
  then show ?thesis
    using assms alert_turn_eq [OF assms(1), of a v cfg po] outcome_notified [OF assms(1), of cfg po a]
      policy_wf_set [OF assms(1), of p' "fingerprint a" "snd (outcome cfg po p a)"]
    by auto
qed

text \<open>A turn of another alert, or of a fingerprint already met, leaves the fingerprint alone.\<close>

lemma alert_turn_frame:
  assumes "policy_wf p" "alert_turn cfg po a (v, p) = (v', p')"
    "ai_acknowledged a \<or> fingerprint a \<noteq> f \<or> f \<in> set (vd_active v)"
  shows "dict_get (pl_states p') f = dict_get (pl_states p) f \<and> said f v' = said f v"
proof (cases "ai_acknowledged a \<or> fingerprint a \<in> set (vd_active v)")
  case True
  then show ?thesis using assms by (simp add: alert_turn_skips)
next
  case False
  then show ?thesis
    using assms alert_turn_eq [OF assms(1), of a v cfg po] outcome_request [OF assms(1), of cfg po a]
    by (auto simp: said_file_request(1) split: option.splits)
qed

lemma alert_turn_active:
  assumes "policy_wf p" "alert_turn cfg po a (v, p) = (v', p')"
  shows "set (vd_active v') = set (vd_active v) \<union> (if ai_acknowledged a then {} else {fingerprint a})"
  using assms alert_turn_eq [OF assms(1), of a v cfg po]
  by (cases "ai_acknowledged a \<or> fingerprint a \<in> set (vd_active v)") (auto simp: alert_turn_skips)

lemma loop_wf:
  assumes "policy_wf p" "fold (alert_turn cfg po) alerts (v, p) = (v', p')"
  shows "policy_wf p' \<and> snoozed_at (po_now po) p' = snoozed_at (po_now po) p
    \<and> set (vd_active v') = set (vd_active v) \<union> fingerprint ` {a \<in> set alerts. \<not> ai_acknowledged a}"
  using assms
proof (induction alerts arbitrary: v p)
  case (Cons a as)
  obtain v1 p1 where t: "alert_turn cfg po a (v, p) = (v1, p1)" by fastforce
  show ?case
    using Cons.IH [of p1 v1] Cons.prems t alert_turn_wf [OF Cons.prems(1) t]
      alert_turn_active [OF Cons.prems(1) t]
    by auto
qed simp

lemma loop_frame:
  assumes "policy_wf p" "fold (alert_turn cfg po) alerts (v, p) = (v', p')"
    "f \<in> set (vd_active v) \<or> (\<forall>a \<in> set alerts. ai_acknowledged a \<or> fingerprint a \<noteq> f)"
  shows "dict_get (pl_states p') f = dict_get (pl_states p) f \<and> said f v' = said f v"
  using assms
proof (induction alerts arbitrary: v p)
  case (Cons a as)
  obtain v1 p1 where t: "alert_turn cfg po a (v, p) = (v1, p1)" by fastforce
  have 1: "dict_get (pl_states p1) f = dict_get (pl_states p) f \<and> said f v1 = said f v"
    using alert_turn_frame [OF Cons.prems(1) t] Cons.prems(3) by auto
  have "f \<in> set (vd_active v1) \<or> (\<forall>a \<in> set as. ai_acknowledged a \<or> fingerprint a \<noteq> f)"
    using alert_turn_active [OF Cons.prems(1) t] Cons.prems(3) by auto
  from Cons.IH [OF _ _ this] show ?case
    using Cons.prems t alert_turn_wf [OF Cons.prems(1) t] 1 by auto
qed simp

definition speaks_for :: "string \<Rightarrow> alert_info list \<Rightarrow> alert_info option" where
  "speaks_for f alerts = find (\<lambda>a. \<not> ai_acknowledged a \<and> fingerprint a = f) alerts"

lemma speaks_for_None: "speaks_for f alerts = None \<longleftrightarrow> (\<forall>a \<in> set alerts. ai_acknowledged a \<or> fingerprint a \<noteq> f)"
  by (auto simp: speaks_for_def find_None_iff)

lemma speaks_for_Some: "speaks_for f alerts = Some a \<Longrightarrow> a \<in> set alerts \<and> \<not> ai_acknowledged a \<and> fingerprint a = f"
  unfolding speaks_for_def by (auto simp: find_Some_iff)

lemma loop_at:
  assumes "policy_wf p" "fold (alert_turn cfg po) alerts (v, p) = (v', p')"
    "f \<notin> set (vd_active v)" "said f v = []" "speaks_for f alerts = Some b"
  shows "dict_get (pl_states p') f = Some (snd (outcome cfg po p b))
    \<and> said f v' = (case fst (outcome cfg po p b) of None \<Rightarrow> [] | Some r \<Rightarrow> [r])"
  using assms
proof (induction alerts arbitrary: v p)
  case (Cons a as)
  obtain v1 p1 where t: "alert_turn cfg po a (v, p) = (v1, p1)" by fastforce
  have wf1: "policy_wf p1" "snoozed_at (po_now po) p1 = snoozed_at (po_now po) p"
    using alert_turn_wf [OF Cons.prems(1) t] by auto
  have rest: "fold (alert_turn cfg po) as (v1, p1) = (v', p')"
    using Cons.prems(2) t by simp
  show ?case
  proof (cases "\<not> ai_acknowledged a \<and> fingerprint a = f")
    case True
    then have b: "b = a" using Cons.prems(5) by (simp add: speaks_for_def)
    have here: "dict_get (pl_states p1) f = Some (snd (outcome cfg po p b)) \<and> f \<in> set (vd_active v1)
        \<and> said f v1 = (case fst (outcome cfg po p b) of None \<Rightarrow> [] | Some r \<Rightarrow> [r])"
      using True Cons.prems(3,4) t alert_turn_eq [OF Cons.prems(1), of a v cfg po]
        outcome_request [OF Cons.prems(1), of cfg po a]
      by (auto simp: b said_file_request split: option.splits)
    then show ?thesis using loop_frame [OF wf1(1) rest] by auto
  next
    case False
    have fr: "dict_get (pl_states p1) f = dict_get (pl_states p) f" "said f v1 = said f v"
      using alert_turn_frame [OF Cons.prems(1) t, of f] False by auto
    have "speaks_for f as = Some b" using Cons.prems(5) False by (auto simp: speaks_for_def)
    moreover have "f \<notin> set (vd_active v1)"
      using alert_turn_active [OF Cons.prems(1) t] Cons.prems(3) False by auto
    ultimately show ?thesis
      using Cons.IH [OF wf1(1) rest] Cons.prems(4) fr
        outcome_cong [OF wf1(2), of b cfg] speaks_for_Some [of f as b]
      by simp
  qed
qed (simp add: speaks_for_def)

section \<open>The whole poll and the other calls\<close>

lemma close_entry_key: "close_entry cfg active now (k, s) = Some kv \<Longrightarrow> fst kv = k"
  by (auto simp: close_entry_def split: if_splits option.splits)

lemma close_inactive_at:
  assumes "dict_wf (pl_states p)"
  shows "dict_get (pl_states (close_inactive cfg active now p)) f =
    (case dict_get (pl_states p) f of
       None \<Rightarrow> None
     | Some s \<Rightarrow>
         if f \<in> set active \<or> f = FP_BACKEND_UNREACHABLE then Some s
         else (case fs_last_notified_at s of
                 None \<Rightarrow> None
               | Some t \<Rightarrow> if now - t > cooldown_seconds cfg then None else Some (close_episode s)))"
  by (simp add: close_inactive_def map_of_map_filter [OF close_entry_key assms])
    (auto simp: close_entry_def split: option.splits)

lemma close_inactive_wf:
  assumes "policy_wf p"
  shows "policy_wf (close_inactive cfg active now p)"
proof (rule policy_wfI)
  show "dict_wf (pl_states (close_inactive cfg active now p))"
    using assms dict_wf_map_filter [where h = "close_entry cfg active now" and d = "pl_states p",
      OF close_entry_key]
    by (simp add: close_inactive_def policy_wf_def)
next
  fix f s assume "dict_get (pl_states (close_inactive cfg active now p)) f = Some s"
  then show "fs_fingerprint s = f \<and> (fs_notified s \<longrightarrow> fs_last_notified_at s \<noteq> None)"
    using assms policy_wfD [OF assms, of f]
    by (auto simp: close_inactive_at policy_wf_def close_episode_def split: option.splits if_splits)
qed

lemma digest_states [simp]:
  "pl_states (snd (maybe_flush_digest cfg now p)) = pl_states p"
  "pl_states (snd (flush_digest cfg now p)) = pl_states p"
  by (simp_all add: maybe_flush_digest_def flush_digest_def Let_def)

text \<open>A poll keeps the states of the loop, or closes what it did not meet on top of them.\<close>

lemma evaluate_cases:
  assumes "ns_enabled cfg" "alert_loop cfg po alerts p = (v, p1)" "evaluate cfg po alerts p = (res, p')"
  obtains (raised) e where "res = Inl e" "p' = p1"
  | (closed) p2 new still digest where "pl_states p2 = pl_states p1"
      "p' = close_inactive cfg (vd_active v) (po_now po) p2"
      "coalesce cfg ''new alerts'' FP_COALESCED False (vd_fresh v) = Inr new"
      "coalesce cfg ''alerts still open'' FP_REMINDER True (vd_reminders v) = Inr still"
      "maybe_flush_digest cfg (po_now po) p1 = (digest, p2)"
      "res = Inr (new @ still @ vd_requests v @ (case digest of None \<Rightarrow> [] | Some d \<Rightarrow> [d]))"
proof (cases "coalesce cfg ''new alerts'' FP_COALESCED False (vd_fresh v)")
  case (Inl e)
  then show ?thesis using raised [of e] assms by (simp add: evaluate_def)
next
  case new: (Inr new)
  show ?thesis
  proof (cases "coalesce cfg ''alerts still open'' FP_REMINDER True (vd_reminders v)")
    case (Inl e)
    then show ?thesis using new raised [of e] assms by (simp add: evaluate_def)
  next
    case still: (Inr still)
    obtain digest p2 where d: "maybe_flush_digest cfg (po_now po) p1 = (digest, p2)" by fastforce
    have "pl_states p2 = pl_states p1" using digest_states(1) [of cfg "po_now po" p1] d by simp
    then show ?thesis
      using closed [of p2 new still digest] new still d assms by (simp add: evaluate_def)
  qed
qed

lemma loop_start: "said f no_verdicts = []" "vd_active no_verdicts = []"
  by (simp_all add: said_def all_verdicts_def no_verdicts_def)

lemma evaluate_wf:
  assumes "policy_wf p" "evaluate cfg po alerts p = (res, p')"
  shows "policy_wf p'"
proof (cases "ns_enabled cfg")
  case True
  obtain v p1 where l: "alert_loop cfg po alerts p = (v, p1)" by fastforce
  have wf1: "policy_wf p1" using loop_wf [OF assms(1)] l by (simp add: alert_loop_def)
  show ?thesis
    using True l assms(2)
  proof (cases rule: evaluate_cases)
    case (closed p2)
    then show ?thesis using wf1 close_inactive_wf policy_wf_cong by blast
  qed (use wf1 in simp)
qed (use assms in \<open>simp add: evaluate_def\<close>)

section \<open>Sequences of calls\<close>

text \<open>
  The calls the tray makes, with the clock at each. What a call decides to say about faults is
  its verdicts before the roll-up (a digest is no verdict on a fault); \<open>run_calls\<close> collects them
  in order.
\<close>

datatype call =
    Poll poll "alert_info list"
  | Unreachable poll rat
  | Reachable rat
  | Snooze rat string "int option"
  | Flush_digest rat

fun call_time :: "call \<Rightarrow> rat" where
  "call_time (Poll po _) = po_now po"
| "call_time (Unreachable po _) = po_now po"
| "call_time (Reachable t) = t"
| "call_time (Snooze t _ _) = t"
| "call_time (Flush_digest t) = t"

fun make_call :: "notification_settings \<Rightarrow> call \<Rightarrow> policy \<Rightarrow> notification_request list \<times> policy" where
  "make_call cfg (Poll po alerts) p =
     (if ns_enabled cfg then all_verdicts (fst (alert_loop cfg po alerts p)) else [],
      snd (evaluate cfg po alerts p))"
| "make_call cfg (Unreachable po t) p =
     (case evaluate_backend_unreachable cfg po t p of
        (r, p') \<Rightarrow> (case r of None \<Rightarrow> [] | Some q \<Rightarrow> [q], p'))"
| "make_call cfg (Reachable t) p = ([], backend_reachable p)"
| "make_call cfg (Snooze t key minutes) p = ([], snooze cfg t key minutes p)"
| "make_call cfg (Flush_digest t) p =
     ([], snd (flush_digest cfg t p))"

fun run_calls :: "notification_settings \<Rightarrow> call list \<Rightarrow> policy \<Rightarrow> notification_request list list" where
  "run_calls cfg [] p = []"
| "run_calls cfg (c # cs) p =
     (case make_call cfg c p of (rs, p') \<Rightarrow> rs # run_calls cfg cs p')"

definition about :: "string \<Rightarrow> notification_request \<Rightarrow> bool" where
  "about f r = (rq_fingerprint r = Some f)"

text \<open>
  After something was said about \<open>f\<close> at \<open>t\<close>: the state remembers an instant no earlier than \<open>t\<close>,
  or the cool-down since \<open>t\<close> is over.
\<close>

definition remembers :: "notification_settings \<Rightarrow> rat \<Rightarrow> rat \<Rightarrow> fingerprint_state option \<Rightarrow> bool" where
  "remembers cfg t now so =
     (case so of
        None \<Rightarrow> cooldown_seconds cfg < now - t
      | Some s \<Rightarrow>
          (case fs_last_notified_at s of
             None \<Rightarrow> cooldown_seconds cfg < now - t \<and> \<not> fs_notified s
           | Some l \<Rightarrow> t \<le> l))"

lemma remembers_later: "remembers cfg t now so \<Longrightarrow> now \<le> now' \<Longrightarrow> remembers cfg t now' so"
  by (auto simp: remembers_def split: option.splits)

lemma remembers_touch:
  "remembers cfg t now (dict_get (pl_states p) (fingerprint a)) \<Longrightarrow> remembers cfg t now (Some (opened a p))"
  by (auto simp: remembers_def opened_def touch_state_def new_state_def split: option.splits)

lemma remembers_closed:
  "remembers cfg t now (Some s) \<Longrightarrow> fs_last_notified_at s = Some l \<Longrightarrow>
    remembers cfg t now (if cooldown_seconds cfg < now - l then None else Some (close_episode s))"
  by (auto simp: remembers_def close_episode_def)

text \<open>
  Both families of faults, the alerts and the unreachable backend, keep one contract on how a
  decision changes a fingerprint's state; what follows from it is proved once.
\<close>

definition says ::
  "notification_settings \<Rightarrow> rat \<Rightarrow> fingerprint_state \<Rightarrow> notification_request option \<Rightarrow> fingerprint_state \<Rightarrow> bool"
where
  "says cfg now s r s' =
     (fs_fingerprint s' = fs_fingerprint s
      \<and> (case r of
           None \<Rightarrow> fs_last_notified_at s' = fs_last_notified_at s \<and> fs_notified s' = fs_notified s
         | Some q \<Rightarrow>
             rq_fingerprint q = Some (fs_fingerprint s) \<and> fs_last_notified_at s' = Some now
             \<and> fs_notified s'
             \<and> (rq_reminder q \<longrightarrow> fs_notified s \<and> reminder_due cfg s now)
             \<and> (\<not> rq_reminder q \<and> \<not> rq_escalation q \<longrightarrow> \<not> fs_notified s \<and> \<not> cooling cfg now s)))"

text \<open>A request at \<open>now\<close> keeps its distance from what was said at \<open>t\<close>.\<close>

definition spaced :: "notification_settings \<Rightarrow> rat \<Rightarrow> rat \<Rightarrow> notification_request \<Rightarrow> bool" where
  "spaced cfg t now r =
     ((rq_reminder r \<longrightarrow> 0 < ns_reminder_hours cfg \<and> ns_reminder_hours cfg * 3600 \<le> now - t)
      \<and> (\<not> rq_reminder r \<and> \<not> rq_escalation r \<longrightarrow>
           0 < cooldown_seconds cfg \<longrightarrow> cooldown_seconds cfg \<le> now - t))"

locale announcer =
  fixes cfg :: notification_settings
    and speak :: "rat \<Rightarrow> fingerprint_state \<Rightarrow> notification_request option \<times> fingerprint_state"
  assumes speak_says: "says cfg now s (fst (speak now s)) (snd (speak now s))"
begin

lemma keeps_remembering:
  assumes "remembers cfg t now (Some s)" "t \<le> now"
  shows "remembers cfg t now (Some (snd (speak now s)))"
  using assms speak_says [of now s]
  by (auto simp: says_def remembers_def split: option.splits)

lemma spoken_remembered:
  assumes "fst (speak now s) = Some q"
  shows "remembers cfg now now (Some (snd (speak now s)))"
  using assms speak_says [of now s] by (simp add: says_def remembers_def)

lemma spoken_spacing:
  assumes "fst (speak now s) = Some q" "remembers cfg t now (Some s)"
  shows "spaced cfg t now q"
  using assms speak_says [of now s]
  by (auto simp: spaced_def says_def remembers_def reminder_due_def cooling_def Let_def split: option.splits)

lemma keeps_wf:
  assumes "fs_notified s \<longrightarrow> fs_last_notified_at s \<noteq> None"
  shows "fs_notified (snd (speak now s)) \<longrightarrow> fs_last_notified_at (snd (speak now s)) \<noteq> None"
  using assms speak_says [of now s] by (auto simp: says_def split: option.splits)

end

interpretation alert_voice: announcer cfg "\<lambda>now. decide cfg now a heard first_poll"
  for cfg a heard first_poll
proof
  fix now s
  show "says cfg now s (fst (decide cfg now a heard first_poll s)) (snd (decide cfg now a heard first_poll s))"
  proof (cases "decide cfg now a heard first_poll s")
    case (Pair r s')
    then show ?thesis
      using decide_quiet [of cfg now a heard first_poll s s'] decide_spoken [of cfg now a heard first_poll s _ s']
        decide_fresh [of cfg now a heard first_poll s _ s'] decide_reminder [of cfg now a heard first_poll s _ s']
      by (cases r) (auto simp: says_def)
  qed
qed

interpretation backend_voice: announcer cfg "speak_unreachable cfg unreachable_for"
  for cfg unreachable_for
  by unfold_locales
    (auto simp: says_def speak_unreachable_def backend_unreachable_request_def cooling_def Let_def)

section \<open>One call, seen from one fingerprint\<close>

lemma said_iff: "r \<in> set (all_verdicts v) \<and> about f r \<longleftrightarrow> r \<in> set (said f v)"
  by (auto simp: said_def about_def)

lemma said_all:
  "(\<forall>r \<in> set (all_verdicts v). about f r \<longrightarrow> Q r) \<longleftrightarrow> (\<forall>r \<in> set (said f v). Q r)"
  by (auto simp: said_def about_def)

text \<open>Polling: the fingerprint is decided on, left alone, or its episode ends.\<close>

lemma poll_cases:
  assumes "policy_wf p" "ns_enabled cfg" "evaluate cfg po alerts p = (res, p')"
    "alert_loop cfg po alerts p = (v, p1)"
  obtains (decided) a where "speaks_for f alerts = Some a"
      "dict_get (pl_states p') f = Some (snd (outcome cfg po p a))"
      "said f v = (case fst (outcome cfg po p a) of None \<Rightarrow> [] | Some r \<Rightarrow> [r])"
  | (left) "speaks_for f alerts = None" "said f v = []"
      "dict_get (pl_states p') f = dict_get (pl_states p) f"
  | (ended) s where "speaks_for f alerts = None" "said f v = []" "dict_get (pl_states p) f = Some s"
      "dict_get (pl_states p') f =
        (case fs_last_notified_at s of
           None \<Rightarrow> None
         | Some l \<Rightarrow> if cooldown_seconds cfg < po_now po - l then None else Some (close_episode s))"
      "f \<noteq> FP_BACKEND_UNREACHABLE"
proof -
  have l: "fold (alert_turn cfg po) alerts (no_verdicts, p) = (v, p1)"
    using assms(4) by (simp add: alert_loop_def)
  have wf1: "policy_wf p1" and act: "set (vd_active v) = fingerprint ` {a \<in> set alerts. \<not> ai_acknowledged a}"
    using loop_wf [OF assms(1) l] by (auto simp: loop_start)
  have keep: "dict_get (pl_states p') f = dict_get (pl_states p1) f \<or>
      f \<notin> set (vd_active v) \<and> f \<noteq> FP_BACKEND_UNREACHABLE
      \<and> (\<exists>s. dict_get (pl_states p1) f = Some s \<and>
          dict_get (pl_states p') f =
            (case fs_last_notified_at s of
               None \<Rightarrow> None
             | Some l \<Rightarrow> if cooldown_seconds cfg < po_now po - l then None else Some (close_episode s)))"
    using assms(2,4,3)
  proof (cases rule: evaluate_cases)
    case (closed p2)
    then show ?thesis
      using wf1 close_inactive_at [of p2 cfg "vd_active v" "po_now po" f]
      by (auto simp: policy_wf_def split: option.splits)
  qed simp
  show ?thesis
  proof (cases "speaks_for f alerts")
    case None
    then have "f \<notin> set (vd_active v)" using act by (auto simp: speaks_for_None)
    moreover have "dict_get (pl_states p1) f = dict_get (pl_states p) f" "said f v = []"
      using loop_frame [OF assms(1) l, of f] None by (auto simp: speaks_for_None loop_start)
    ultimately show ?thesis using None keep left ended by metis
  next
    case (Some a)
    have "f \<in> set (vd_active v)" using act speaks_for_Some [OF Some] by auto
    then show ?thesis
      using Some keep decided [of a] loop_at [OF assms(1) l, of f a] by (simp add: loop_start)
  qed
qed

text \<open>The backend family touches its own fingerprint only.\<close>

definition backend_touched :: "policy \<Rightarrow> fingerprint_state" where
  "backend_touched p =
     (let s = (case dict_get (pl_states p) FP_BACKEND_UNREACHABLE of
                 None \<Rightarrow> new_state FP_BACKEND_UNREACHABLE BACKEND_UNREACHABLE_SEVERITY
               | Some s \<Rightarrow> s)
      in s\<lparr>fs_episode_open := True, fs_polls_active := Suc (fs_polls_active s)\<rparr>)"

lemma backend_touched_simps:
  "policy_wf p \<Longrightarrow> fs_fingerprint (backend_touched p) = FP_BACKEND_UNREACHABLE"
  "policy_wf p \<Longrightarrow> fs_notified (backend_touched p) \<longrightarrow> fs_last_notified_at (backend_touched p) \<noteq> None"
  "remembers cfg t now (dict_get (pl_states p) FP_BACKEND_UNREACHABLE) \<Longrightarrow>
     remembers cfg t now (Some (backend_touched p))"
  using policy_wfD
  by (auto simp: backend_touched_def new_state_def remembers_def split: option.splits)

lemma unreachable_cases:
  assumes "evaluate_backend_unreachable cfg po d p = (r, p')"
  obtains (still) "r = None" "p' = p"
  | (quiet) "r = None"
      "pl_states p' = dict_set FP_BACKEND_UNREACHABLE (backend_touched p) (pl_states p)"
  | (spoke) s' q where "speak_unreachable cfg d (po_now po) (backend_touched p) = (r, s')"
      "pl_states q = dict_set FP_BACKEND_UNREACHABLE (backend_touched p) (pl_states p)"
      "p' = q\<lparr>pl_states := dict_set FP_BACKEND_UNREACHABLE s' (pl_states q)\<rparr>"
      "0 < ns_backend_unreachable_grace_seconds cfg" "ns_backend_unreachable_grace_seconds cfg \<le> d"
      "ns_enabled cfg" "\<not> suppressed_by_dnd cfg po BACKEND_UNREACHABLE_SEVERITY"
proof -
  let ?p = "p\<lparr>pl_states := dict_set FP_BACKEND_UNREACHABLE (backend_touched p) (pl_states p)\<rparr>"
  obtain q where q: "is_snoozed_for (po_now po) FP_BACKEND_UNREACHABLE None ?p
      = (snoozed_for (po_now po) FP_BACKEND_UNREACHABLE None ?p, q)" "pl_states q = pl_states ?p"
    using is_snoozed_for_eq by blast
  obtain r' s' where s': "speak_unreachable cfg d (po_now po) (backend_touched p) = (r', s')" by fastforce
  have "evaluate_backend_unreachable cfg po d p =
      (if \<not> ns_enabled cfg \<or> ns_backend_unreachable_grace_seconds cfg \<le> 0
          \<or> d < ns_backend_unreachable_grace_seconds cfg
          \<or> severity_level BACKEND_UNREACHABLE_SEVERITY < min_severity_level cfg then (None, p)
       else if snoozed_for (po_now po) FP_BACKEND_UNREACHABLE None ?p
          \<or> suppressed_by_dnd cfg po BACKEND_UNREACHABLE_SEVERITY then (None, q)
       else (r', q\<lparr>pl_states := dict_set FP_BACKEND_UNREACHABLE s' (pl_states q)\<rparr>))"
    using q s'
    by (auto simp: evaluate_backend_unreachable_def Let_def backend_touched_def [unfolded Let_def, symmetric]
        split: bool.split)
  then show ?thesis
    using assms q(2) s' still quiet spoke [of s' q] by (auto split: if_splits)
qed

lemma backend_reachable_at:
  assumes "policy_wf p"
  shows "dict_get (pl_states (backend_reachable p)) f =
    (if f = FP_BACKEND_UNREACHABLE
     then (case dict_get (pl_states p) f of
             None \<Rightarrow> None
           | Some s \<Rightarrow> if fs_last_notified_at s = None then None else Some (close_episode s))
     else dict_get (pl_states p) f)"
  by (auto simp: backend_reachable_def split: option.splits)

lemma close_episode_simps [simp]:
  "fs_last_notified_at (close_episode s) = fs_last_notified_at s"
  "\<not> fs_notified (close_episode s)" "fs_fingerprint (close_episode s) = fs_fingerprint s"
  by (simp_all add: close_episode_def)

text \<open>
  The step of the spacing argument: with \<open>f\<close> remembered since \<open>t\<close>, the next call remembers it
  still, and whatever it says about \<open>f\<close> keeps its distance from \<open>t\<close>.
\<close>

lemma poll_step:
  assumes "policy_wf p" "make_call cfg (Poll po alerts) p = (rs, p')"
    "remembers cfg t now (dict_get (pl_states p) f)" "t \<le> now" "now \<le> po_now po"
  shows "remembers cfg t (po_now po) (dict_get (pl_states p') f)
    \<and> (\<forall>r \<in> set rs. about f r \<longrightarrow> spaced cfg t (po_now po) r)"
proof (cases "ns_enabled cfg")
  case False
  then show ?thesis using assms remembers_later by (simp add: evaluate_def)
next
  case True
  obtain v p1 where v: "alert_loop cfg po alerts p = (v, p1)" by fastforce
  obtain res where e: "evaluate cfg po alerts p = (res, p')" and rs: "rs = all_verdicts v"
    using assms(2) True v by (cases "evaluate cfg po alerts p") simp
  have now: "remembers cfg t (po_now po) (dict_get (pl_states p) f)" "t \<le> po_now po"
    using remembers_later [OF assms(3,5)] assms(4,5) by auto
  show ?thesis
    using assms(1) True e v
  proof (cases rule: poll_cases [where f = f])
    case (decided a)
    have f: "f = fingerprint a" using speaks_for_Some [OF decided(1)] by simp
    note touched = remembers_touch [OF now(1) [unfolded f]]
    show ?thesis
      using decided alert_voice.keeps_remembering [OF touched now(2)]
        alert_voice.spoken_spacing [OF _ touched]
      by (auto simp: rs said_all outcome_def split: option.splits)
  next
    case left
    then show ?thesis using now by (simp add: rs said_all)
  next
    case (ended s)
    then show ?thesis
      using now remembers_closed [of cfg t "po_now po" s]
      by (auto simp: rs said_all split: option.splits) (auto simp: remembers_def)
  qed
qed

lemma unreachable_step:
  assumes "policy_wf p" "make_call cfg (Unreachable po d) p = (rs, p')"
    "remembers cfg t now (dict_get (pl_states p) f)" "t \<le> now" "now \<le> po_now po"
  shows "remembers cfg t (po_now po) (dict_get (pl_states p') f)
    \<and> (\<forall>r \<in> set rs. about f r \<longrightarrow> spaced cfg t (po_now po) r)"
proof -
  obtain r where e: "evaluate_backend_unreachable cfg po d p = (r, p')"
    and rs: "rs = (case r of None \<Rightarrow> [] | Some q \<Rightarrow> [q])"
    using assms(2) by (auto split: prod.splits)
  have now: "remembers cfg t (po_now po) (dict_get (pl_states p) f)" "t \<le> po_now po"
    using remembers_later [OF assms(3,5)] assms(4,5) by auto
  have touched: "remembers cfg t (po_now po) (Some (backend_touched p))" if "f = FP_BACKEND_UNREACHABLE"
    using backend_touched_simps(3) now(1) that by simp
  from e show ?thesis
  proof (cases rule: unreachable_cases)
    case quiet
    then show ?thesis using now touched by (auto simp: rs)
  next
    case (spoke s' q)
    have says: "says cfg (po_now po) (backend_touched p) r s'"
      using backend_voice.speak_says [of cfg "po_now po" "backend_touched p" d] spoke(1) by simp
    show ?thesis
    proof (cases "f = FP_BACKEND_UNREACHABLE")
      case True
      then show ?thesis
        using spoke backend_voice.keeps_remembering [OF touched now(2), of d]
          backend_voice.spoken_spacing [OF _ touched, of d]
        by (auto simp: rs split: option.splits)
    next
      case False
      then show ?thesis
        using spoke now says backend_touched_simps(1) [OF assms(1)]
        by (auto simp: rs about_def says_def split: option.splits)
    qed
  qed (use now rs in simp)
qed

lemma call_step:
  assumes "policy_wf p" "make_call cfg c p = (rs, p')"
    "remembers cfg t now (dict_get (pl_states p) f)" "t \<le> now" "now \<le> call_time c"
  shows "remembers cfg t (call_time c) (dict_get (pl_states p') f)
    \<and> (\<forall>r \<in> set rs. about f r \<longrightarrow> spaced cfg t (call_time c) r)"
proof (cases c)
  case (Reachable x)
  have "remembers cfg t x (dict_get (pl_states p) f)"
    using remembers_later [OF assms(3)] assms(5) Reachable by simp
  then show ?thesis
    using assms(2) Reachable backend_reachable_at [OF assms(1), of f]
    by (auto simp: remembers_def split: option.splits)
next
  case (Poll po alerts)
  show ?thesis
    using poll_step [OF assms(1) assms(2) [unfolded Poll] assms(3,4)] assms(5) by (simp add: Poll)
next
  case (Unreachable po d)
  show ?thesis
    using unreachable_step [OF assms(1) assms(2) [unfolded Unreachable] assms(3,4)] assms(5)
    by (simp add: Unreachable)
qed (use assms remembers_later in \<open>auto simp: snooze_def Let_def\<close>)

text \<open>Whatever a call says about \<open>f\<close> is remembered from that moment on.\<close>

lemma call_remembers:
  assumes "policy_wf p" "make_call cfg c p = (rs, p')" "r \<in> set rs" "about f r"
  shows "remembers cfg (call_time c) (call_time c) (dict_get (pl_states p') f)"
proof (cases c)
  case (Poll po alerts)
  have en: "ns_enabled cfg" using assms(2,3) Poll by (cases "ns_enabled cfg") auto
  obtain v p1 where v: "alert_loop cfg po alerts p = (v, p1)" by fastforce
  obtain res where e: "evaluate cfg po alerts p = (res, p')" and rs: "rs = all_verdicts v"
    using assms(2) Poll en v by (cases "evaluate cfg po alerts p") simp
  have r: "r \<in> set (said f v)" using assms(3,4) rs said_iff by blast
  show ?thesis
    using assms(1) en e v
  proof (cases rule: poll_cases [where f = f])
    case (decided a)
    then show ?thesis
      using r alert_voice.spoken_remembered by (auto simp: Poll outcome_def split: option.splits)
  qed (use r in auto)
next
  case (Unreachable po d)
  obtain r0 where e: "evaluate_backend_unreachable cfg po d p = (r0, p')"
    and rs: "rs = (case r0 of None \<Rightarrow> [] | Some q \<Rightarrow> [q])"
    using assms(2) Unreachable by (auto split: prod.splits)
  from e show ?thesis
  proof (cases rule: unreachable_cases)
    case (spoke s' q)
    have "f = FP_BACKEND_UNREACHABLE"
      using assms(3,4) rs spoke(1) backend_touched_simps(1) [OF assms(1)]
        backend_voice.speak_says [of cfg "po_now po" "backend_touched p" d]
      by (auto simp: says_def about_def split: option.splits)
    then show ?thesis
      using spoke assms(3) rs backend_voice.spoken_remembered [of cfg d "po_now po" "backend_touched p"]
      by (auto simp: Unreachable split: option.splits)
  qed (use assms(3) rs in auto)
qed (use assms in auto)

lemma policy_wf_update:
  assumes "policy_wf p" "pl_states q = dict_set f s (pl_states p)"
    and "fs_fingerprint s = f" "fs_notified s \<longrightarrow> fs_last_notified_at s \<noteq> None"
  shows "policy_wf (q\<lparr>pl_states := dict_set f s' (pl_states q)\<rparr>)
    \<longleftrightarrow> fs_fingerprint s' = f \<and> (fs_notified s' \<longrightarrow> fs_last_notified_at s' \<noteq> None)"
proof -
  have q: "policy_wf q" using policy_wf_set [OF assms(1,2,3,4)] .
  show ?thesis
    using policy_wfD [of "q\<lparr>pl_states := dict_set f s' (pl_states q)\<rparr>" f s'] policy_wf_set [OF q]
    by auto
qed

lemma call_wf:
  assumes "policy_wf p"
  shows "policy_wf (snd (make_call cfg c p))"
proof (cases c)
  case (Poll po alerts)
  then show ?thesis
    using evaluate_wf [OF assms] by (cases "evaluate cfg po alerts p") simp
next
  case (Unreachable po d)
  obtain r p' where e: "evaluate_backend_unreachable cfg po d p = (r, p')" by fastforce
  note touched = backend_touched_simps(1,2) [OF assms]
  from e have "policy_wf p'"
  proof (cases rule: unreachable_cases)
    case quiet
    then show ?thesis using policy_wf_set [OF assms _ touched] by blast
  next
    case (spoke s' q)
    have "says cfg (po_now po) (backend_touched p) r s'"
      using backend_voice.speak_says [of cfg "po_now po" "backend_touched p" d] spoke(1) by simp
    then show ?thesis
      using spoke(3) policy_wf_update [OF assms spoke(2) touched, of s'] touched
      by (auto simp: says_def split: option.splits)
  qed (use assms in simp)
  then show ?thesis using e Unreachable by simp
next
  case (Reachable t)
  have "dict_wf (pl_states p)" using assms by (simp add: policy_wf_def)
  then show ?thesis
    using backend_reachable_at [OF assms] policy_wfD [OF assms]
    by (auto simp: Reachable intro!: policy_wfI split: option.splits if_splits)
      (auto simp: backend_reachable_def split: option.splits)
qed (use assms in \<open>simp_all add: snooze_def Let_def policy_wf_def\<close>)

lemma spaced_from:
  assumes "policy_wf p" "remembers cfg t now (dict_get (pl_states p) f)" "t \<le> now"
    "sorted (now # map call_time cs)" "j < length cs" "r \<in> set (run_calls cfg cs p ! j)" "about f r"
  shows "spaced cfg t (call_time (cs ! j)) r"
  using assms
proof (induction cs arbitrary: p now j)
  case (Cons c cs)
  obtain rs p' where m: "make_call cfg c p = (rs, p')" by fastforce
  note step = call_step [OF Cons.prems(1) m Cons.prems(2,3)]
  have le: "now \<le> call_time c" using Cons.prems(4) by simp
  show ?case
  proof (cases j)
    case 0
    then show ?thesis using step [OF le] Cons.prems(6,7) m by simp
  next
    case (Suc i)
    then show ?thesis
      using Cons.IH [of p' "call_time c" i] call_wf [OF Cons.prems(1), of cfg c] step [OF le] m le
        Cons.prems
      by simp
  qed
qed simp

lemma policy_wf_empty [simp]: "policy_wf empty_policy"
  by (simp add: policy_wf_def empty_policy_def)

section \<open>A standing critical\<close>

lemma no_snoozes_turn:
  assumes "pl_snoozes p = []"
  shows "pl_snoozes (snd (alert_turn cfg po a (v, p))) = []"
proof -
  have "is_snoozed_for now fp service p = (False, p)" for now fp service
    using assms by (simp add: is_snoozed_for_def is_snoozed_def split: option.split)
  then show ?thesis
    using assms by (simp add: alert_turn_def consider_alert_def Let_def split: prod.split option.split)
qed

lemma no_snoozes_loop:
  "pl_snoozes p = [] \<Longrightarrow> pl_snoozes (snd (fold (alert_turn cfg po) alerts (v, p))) = []"
proof (induction alerts arbitrary: v p)
  case (Cons a as)
  then show ?case
    using no_snoozes_turn [OF Cons.prems, of cfg po a v] by (cases "alert_turn cfg po a (v, p)") simp
qed simp

lemma no_snoozes_evaluate:
  assumes "pl_snoozes p = []"
  shows "pl_snoozes (snd (evaluate cfg po alerts p)) = []"
proof -
  obtain v p1 where l: "alert_loop cfg po alerts p = (v, p1)" by fastforce
  then have "pl_snoozes p1 = []"
    using no_snoozes_loop [OF assms, of cfg po alerts no_verdicts] by (simp add: alert_loop_def)
  moreover have "pl_snoozes (snd (maybe_flush_digest cfg now q)) = pl_snoozes q" for now q
    by (simp add: maybe_flush_digest_def flush_digest_def Let_def)
  ultimately show ?thesis
    using assms l
    by (auto simp: evaluate_def close_inactive_def split: sum.splits prod.splits) (metis snd_conv)
qed

text \<open>A poll in which \<open>f\<close> is a critical that no rule suppresses.\<close>

definition clear_critical :: "notification_settings \<Rightarrow> string \<Rightarrow> poll \<times> alert_info list \<Rightarrow> bool" where
  "clear_critical cfg f x =
     (case speaks_for f (snd x) of
        None \<Rightarrow> False
      | Some a \<Rightarrow> ai_severity a = ''critical'' \<and> \<not> is_muted cfg a
                   \<and> \<not> suppressed_by_dnd cfg (fst x) ''critical'')"

lemma critical_loudest: "min_severity_level cfg \<le> severity_level ''critical''"
  by (auto simp: min_severity_level_def severity_level_def SEVERITY_LEVELS_def dict_get_or_def)

lemma clear_critical_poll:
  assumes "clear_critical cfg f (po, alerts)" "ns_enabled cfg" "policy_wf p" "pl_snoozes p = []"
    "make_call cfg (Poll po alerts) p = (rs, p')"
  obtains a r s' where "fingerprint a = f" "ai_severity a = ''critical''"
    "decide cfg (po_now po) a True (\<not> fs_episode_open (touch_state a p)) (opened a p) = (r, s')"
    "dict_get (pl_states p') f = Some s'" "filter (about f) rs = (case r of None \<Rightarrow> [] | Some q \<Rightarrow> [q])"
    "policy_wf p'" "pl_snoozes p' = []"
proof -
  obtain a where a: "speaks_for f alerts = Some a" "ai_severity a = ''critical''" "\<not> is_muted cfg a"
    "\<not> suppressed_by_dnd cfg po ''critical''"
    using assms(1) by (auto simp: clear_critical_def split: option.splits)
  obtain v p1 where v: "alert_loop cfg po alerts p = (v, p1)" by fastforce
  have e: "evaluate cfg po alerts p = (fst (evaluate cfg po alerts p), p')" and rs: "rs = all_verdicts v"
    using assms(2,5) v by auto
  have "audible cfg po p a"
    using a assms(4) critical_loudest
    by (simp add: audible_def snoozed_for_def snoozed_at_def split: option.split)
  then have o: "outcome cfg po p a =
      decide cfg (po_now po) a True (\<not> fs_episode_open (touch_state a p)) (opened a p)"
    by (simp add: outcome_def)
  show ?thesis
    using assms(3,2) e v
  proof (cases rule: poll_cases [where f = f])
    case (decided b)
    have b: "b = a" using decided(1) a(1) by simp
    have f: "fingerprint a = f" using speaks_for_Some [OF a(1)] by simp
    have sn: "pl_snoozes p' = []"
      using no_snoozes_evaluate [OF assms(4), of cfg po alerts] e by (metis snd_conv)
    have fl: "filter (about f) rs = (case fst (outcome cfg po p a) of None \<Rightarrow> [] | Some q \<Rightarrow> [q])"
      using decided(3) b by (simp add: rs said_def about_def [abs_def])
    show ?thesis
      by (rule that [OF f a(2) _ _ fl evaluate_wf [OF assms(3) e] sn, of "snd (outcome cfg po p a)"])
        (use o decided(2) b in simp_all)
  qed (use a in simp_all)
qed

lemma standing_step:
  assumes "decide cfg now a True fp s = (r, s')" "ai_severity a = ''critical''" "fs_notified s"
    "\<not> fs_escalated s" "1 < ns_escalation_polls cfg"
  shows "if int (fs_polls_active s) < ns_escalation_polls cfg
    then fs_notified s' \<and> \<not> fs_escalated s' \<and> fs_polls_active s' = fs_polls_active s
      \<and> (\<forall>q. r = Some q \<longrightarrow> \<not> rq_escalation q)
    else r \<noteq> None \<and> rq_escalation (the r) \<and> rq_severity (the r) = ''critical''"
proof (cases "int (fs_polls_active s) < ns_escalation_polls cfg")
  case True
  then have "maybe_escalate cfg a now s = (None, s)" by (simp add: maybe_escalate_def)
  then have "reminder cfg a now s = (r, s')" using assms by (simp add: decide_def)
  then show ?thesis
    using True assms(3,4) by (auto simp: reminder_def Let_def split: if_splits option.splits)
next
  case False
  then have m: "fst (maybe_escalate cfg a now s) \<noteq> None
      \<and> rq_escalation (the (fst (maybe_escalate cfg a now s)))
      \<and> rq_severity (the (fst (maybe_escalate cfg a now s))) = ''critical''"
    using assms(2-5) by (simp add: maybe_escalate_def)
  then have "(r, s') = maybe_escalate cfg a now s"
    using assms(1-3) by (auto simp: decide_def split: prod.splits option.splits)
  then show ?thesis using False m by (metis fst_conv)
qed

lemma opening_step:
  assumes "decide cfg now a True fp s = (r, s')" "ai_severity a = ''critical''" "\<not> fs_notified s"
    "fs_last_notified_at s = None" "1 < ns_escalation_polls cfg"
  shows "fs_notified s' \<and> \<not> fs_escalated s' \<and> fs_polls_active s' = fs_polls_active s
    \<and> r \<noteq> None \<and> \<not> rq_escalation (the r) \<and> rq_severity (the r) = ''info''"
proof -
  have "(r, s') = map_prod Some id (first_notification cfg a now s)"
    using assms by (simp add: decide_def cooling_def)
  then show ?thesis using assms(2,5) by (simp add: first_notification_def Let_def)
qed

abbreviation polls_only :: "(poll \<times> alert_info list) list \<Rightarrow> call list" where
  "polls_only xs \<equiv> map (\<lambda>(po, alerts). Poll po alerts) xs"

lemma standing_run:
  assumes "policy_wf p" "pl_snoozes p = []" "ns_enabled cfg" "1 < ns_escalation_polls cfg"
    "dict_get (pl_states p) f = Some s" "fs_notified s" "\<not> fs_escalated s" "polls \<noteq> []"
    "int (fs_polls_active s + length polls) = ns_escalation_polls cfg"
    "list_all (clear_critical cfg f) polls"
  shows "(\<exists>q \<in> set (run_calls cfg (polls_only polls) p ! (length polls - 1)).
      about f q \<and> rq_escalation q \<and> rq_severity q = ''critical'')
    \<and> (\<forall>k < length polls - 1. \<forall>q \<in> set (run_calls cfg (polls_only polls) p ! k). about f q \<longrightarrow> \<not> rq_escalation q)"
  using assms
proof (induction polls arbitrary: p s)
  case (Cons x polls)
  obtain po alerts where x: "x = (po, alerts)" by fastforce
  obtain rs p' where m: "make_call cfg (Poll po alerts) p = (rs, p')" by fastforce
  have cc: "clear_critical cfg f (po, alerts)" using Cons.prems(10) x by simp
  obtain a r s' where d: "fingerprint a = f" "ai_severity a = ''critical''"
    "decide cfg (po_now po) a True (\<not> fs_episode_open (touch_state a p)) (opened a p) = (r, s')"
    "dict_get (pl_states p') f = Some s'" "filter (about f) rs = (case r of None \<Rightarrow> [] | Some q \<Rightarrow> [q])"
    "policy_wf p'" "pl_snoozes p' = []"
    using clear_critical_poll [OF cc Cons.prems(3,1,2) m] .
  have t: "touch_state a p = s" using d(1) Cons.prems(5) by (simp add: touch_state_def)
  note step = standing_step [OF d(3,2), unfolded opened_simps t, OF Cons.prems(6,7,4)]
  show ?case
  proof (cases polls)
    case Nil
    then have "\<not> int (Suc (fs_polls_active s)) < ns_escalation_polls cfg" using Cons.prems(9) by simp
    then obtain q where q: "r = Some q" "rq_escalation q" "rq_severity q = ''critical''"
      using step by (cases r) auto
    have "q \<in> set (filter (about f) rs)" using d(5) q(1) by simp
    then show ?thesis using q Nil x m by auto
  next
    case (Cons y ys)
    then have "int (Suc (fs_polls_active s)) < ns_escalation_polls cfg" using Cons.prems(9) by simp
    then have s': "fs_notified s'" "\<not> fs_escalated s'" "fs_polls_active s' = Suc (fs_polls_active s)"
      and quiet: "\<And>q. r = Some q \<Longrightarrow> \<not> rq_escalation q"
      using step by auto
    have here: "q \<in> set rs \<Longrightarrow> about f q \<Longrightarrow> \<not> rq_escalation q" for q
    proof -
      assume "q \<in> set rs" "about f q"
      then have "q \<in> set (filter (about f) rs)" by simp
      then show ?thesis using d(5) quiet by (auto split: option.splits)
    qed
    have rest: "int (fs_polls_active s' + length polls) = ns_escalation_polls cfg"
      "list_all (clear_critical cfg f) polls" "polls \<noteq> []"
      using Cons.prems(9,10) s'(3) Cons by simp_all
    note ih = Cons.IH [OF d(6,7) Cons.prems(3,4) d(4) s'(1,2) rest(3,1,2)]
    show ?thesis
      using ih here Cons x m by (auto simp: nth_Cons split: nat.splits)
  qed
qed simp

section \<open>What a poll sends\<close>

lemma loop_named:
  assumes "policy_wf p" "fold (alert_turn cfg po) alerts (v, p) = (v', p')"
    "r \<in> set (all_verdicts v')"
  shows "r \<in> set (all_verdicts v) \<or> (\<exists>a. rq_fingerprint r = Some (fingerprint a))"
  using assms
proof (induction alerts arbitrary: v p)
  case (Cons a as)
  obtain v1 p1 where t: "alert_turn cfg po a (v, p) = (v1, p1)" by fastforce
  have "r \<in> set (all_verdicts v1) \<Longrightarrow> ?case"
    using t alert_turn_eq [OF Cons.prems(1), of a v cfg po] outcome_request [OF Cons.prems(1), of cfg po a]
    by (cases "ai_acknowledged a \<or> fingerprint a \<in> set (vd_active v)")
      (auto simp: alert_turn_skips all_verdicts_def file_request_def split: option.splits if_splits)
  then show ?case
    using Cons.IH [of p1 v1] alert_turn_wf [OF Cons.prems(1) t] Cons.prems(2,3) t by auto
qed simp

text \<open>Every verdict is about one audible alert of the poll, and no two about the same one.\<close>

lemma verdict_source:
  assumes "policy_wf p" "alert_loop cfg po alerts p = (v, p1)" "r \<in> set (all_verdicts v)"
  obtains a where "a \<in> set alerts" "\<not> ai_acknowledged a" "audible cfg po p a"
    "rq_fingerprint r = Some (fingerprint a)" "said (fingerprint a) v = [r]"
proof -
  have l: "fold (alert_turn cfg po) alerts (no_verdicts, p) = (v, p1)"
    using assms(2) by (simp add: alert_loop_def)
  obtain f where f: "rq_fingerprint r = Some f"
    using loop_named [OF assms(1) l assms(3)] by (auto simp: all_verdicts_def no_verdicts_def)
  have r: "r \<in> set (said f v)" using f assms(3) by (simp add: said_def)
  then obtain a where a: "speaks_for f alerts = Some a"
    using loop_frame [OF assms(1) l, of f]
    by (cases "speaks_for f alerts") (auto simp: speaks_for_None loop_start)
  have s: "said f v = (case fst (outcome cfg po p a) of None \<Rightarrow> [] | Some r \<Rightarrow> [r])"
    using loop_at [OF assms(1) l, of f a] a by (simp add: loop_start)
  then have o: "fst (outcome cfg po p a) = Some r" "said f v = [r]"
    using r by (auto split: option.splits)
  then have "audible cfg po p a"
    using decide_spoken by (cases "outcome cfg po p a") (fastforce simp: outcome_def)
  then show ?thesis using that [of a] speaks_for_Some [OF a] f o(2) by simp
qed

lemma coalesce_cases:
  assumes "coalesce cfg label fp rem fresh = Inr out"
  shows "out = fresh \<or> 2 \<le> length fresh \<and> out = [hd out] \<and> rq_fingerprint (hd out) = Some fp"
proof (cases "int (length fresh) < max (ns_coalesce_threshold cfg) 2 \<or> length fresh < 2")
  case False
  then show ?thesis
    using assms
    by (cases "seq_results (map (\<lambda>r. splitlines_0 (rq_body r)) (take MAX_LISTED_TITLES fresh))")
      (auto simp: coalesce_def Let_def)
qed (use assms in \<open>simp add: coalesce_def Let_def\<close>)

definition two_audible :: "notification_settings \<Rightarrow> poll \<Rightarrow> policy \<Rightarrow> alert_info list \<Rightarrow> bool" where
  "two_audible cfg po p alerts =
     (\<exists>a \<in> set alerts. \<exists>b \<in> set alerts. fingerprint a \<noteq> fingerprint b \<and> \<not> ai_acknowledged a
        \<and> \<not> ai_acknowledged b \<and> audible cfg po p a \<and> audible cfg po p b)"

lemma two_verdicts:
  assumes "policy_wf p" "alert_loop cfg po alerts p = (v, p1)"
    "2 \<le> length xs" "mset xs \<subseteq># mset (all_verdicts v)"
  shows "two_audible cfg po p alerts"
proof -
  obtain x y zs where xs: "xs = x # y # zs"
    using assms(3) by (cases xs; cases "tl xs") auto
  have in_v: "x \<in> set (all_verdicts v)" "y \<in> set (all_verdicts v)"
    using mset_subset_eqD [OF assms(4)] xs by auto
  obtain a where a: "a \<in> set alerts" "\<not> ai_acknowledged a" "audible cfg po p a"
    "rq_fingerprint x = Some (fingerprint a)" "said (fingerprint a) v = [x]"
    using verdict_source [OF assms(1,2) in_v(1)] .
  obtain b where b: "b \<in> set alerts" "\<not> ai_acknowledged b" "audible cfg po p b"
    "rq_fingerprint y = Some (fingerprint b)" "said (fingerprint b) v = [y]"
    using verdict_source [OF assms(1,2) in_v(2)] .
  have "fingerprint a \<noteq> fingerprint b"
  proof
    assume eq: "fingerprint a = fingerprint b"
    have "filter_mset (\<lambda>r. rq_fingerprint r = Some (fingerprint a)) (mset xs)
        \<subseteq># filter_mset (\<lambda>r. rq_fingerprint r = Some (fingerprint a)) (mset (all_verdicts v))"
      by (rule multiset_filter_mono [OF assms(4)])
    also have "\<dots> = {#x#}" using a(5) by (simp add: said_def flip: mset_filter)
    finally show False using xs a(4) b(4) eq by (simp add: subset_mset.le_iff_add)
  qed
  then show ?thesis using a b by (auto simp: two_audible_def)
qed

section \<open>Properties\<close>

text \<open>
  C15: two announcements of one fault keep their distance, over any sequence of polls, failed
  polls, reconnections, snoozes and digests on a clock that does not run backwards: after
  anything said about a fingerprint, the opening of a new episode comes no sooner than the flap
  cool-down, and a reminder no sooner than the reminder interval.
\<close>

theorem announcements_spaced:
  assumes "policy_wf p" "sorted (map call_time cs)" "i < j" "j < length cs"
    "r \<in> set (run_calls cfg cs p ! i)" "about f r"
    "q \<in> set (run_calls cfg cs p ! j)" "about f q"
  shows "(rq_reminder q \<longrightarrow>
       ns_reminder_hours cfg * 3600 \<le> call_time (cs ! j) - call_time (cs ! i))
    \<and> (\<not> rq_reminder q \<and> \<not> rq_escalation q \<and> 0 < cooldown_seconds cfg \<longrightarrow>
         cooldown_seconds cfg \<le> call_time (cs ! j) - call_time (cs ! i))"
proof -
  have "spaced cfg (call_time (cs ! i)) (call_time (cs ! j)) q"
    using assms
  proof (induction cs arbitrary: p i j)
    case (Cons c cs)
    obtain rs p' where m: "make_call cfg c p = (rs, p')" by fastforce
    have wf: "policy_wf p'" using call_wf [OF Cons.prems(1), of cfg c] m by simp
    obtain k where j: "j = Suc k" using Cons.prems(3) by (cases j) auto
    show ?case
    proof (cases i)
      case 0
      have "remembers cfg (call_time c) (call_time c) (dict_get (pl_states p') f)"
        using call_remembers [OF Cons.prems(1) m] Cons.prems(5,6) 0 m by simp
      from spaced_from [OF wf this] show ?thesis using Cons.prems 0 j m by simp
    next
      case (Suc h)
      then show ?thesis using Cons.IH [OF wf, of h k] Cons.prems j m by simp
    qed
  qed simp
  then show ?thesis by (auto simp: spaced_def)
qed

definition sample_alert :: alert_info where
  "sample_alert =
     \<lparr>ai_id = ''7'', ai_agent = ''sysadmin'', ai_severity = ''critical'', ai_title = ''Service down: web'',
      ai_message = None, ai_details = [(''service_name'', JStr ''web'')], ai_acknowledged = False,
      ai_resolved = False, ai_created_at = None\<rparr>"

definition poll_at :: "rat \<Rightarrow> poll" where
  "poll_at now = \<lparr>po_now = now, po_dnd_active = False, po_dnd_allow_critical = True,
     po_desktop_inhibited = False\<rparr>"

definition sample_calls :: "call list" where
  "sample_calls = [Poll (poll_at 10) [sample_alert], Poll (poll_at 70) [], Poll (poll_at 4000) [sample_alert]]"

theorem announcements_spaced_witness:
  "cooldown_seconds default_settings \<le> 4000 - 10
   \<and> (\<exists>q \<in> set (run_calls default_settings sample_calls empty_policy ! 2).
        about (fingerprint sample_alert) q)"
proof -
  let ?run = "run_calls default_settings sample_calls empty_policy"
  have 0: "?run ! 0 \<noteq> []" "about (fingerprint sample_alert) (hd (?run ! 0))"
    by code_simp+
  have 2: "?run ! 2 \<noteq> []" "about (fingerprint sample_alert) (hd (?run ! 2))"
    "\<not> rq_reminder (hd (?run ! 2))" "\<not> rq_escalation (hd (?run ! 2))"
    "0 < cooldown_seconds default_settings"
    by code_simp+
  have "sorted (map call_time sample_calls)" "length sample_calls = 3"
    "call_time (sample_calls ! 2) = 4000" "call_time (sample_calls ! 0) = 10"
    by code_simp+
  then show ?thesis
    using announcements_spaced [of empty_policy sample_calls 0 2 "hd (?run ! 0)" default_settings
        "fingerprint sample_alert" "hd (?run ! 2)"] 0 2 hd_in_set
    by auto
qed

text \<open>
  C16: a critical alert that stays open is heard: if it is new, not acknowledged, not muted, not
  snoozed and not held back by a Do Not Disturb in any of \<open>n\<close> consecutive polls, \<open>n\<close> being
  \<open>escalation_polls\<close>, the first poll announces it quietly, the \<open>n\<close>th escalates it at critical
  severity, and no poll before the \<open>n\<close>th does.
\<close>

theorem standing_critical_escalates:
  assumes "ns_enabled cfg" "1 < n" "ns_escalation_polls cfg = int n" "length polls = n"
    "policy_wf p" "pl_snoozes p = []" "dict_get (pl_states p) f = None"
    "list_all (clear_critical cfg f) polls"
  shows "(\<exists>r \<in> set (run_calls cfg (polls_only polls) p ! 0).
       about f r \<and> \<not> rq_escalation r \<and> rq_severity r = ''info'')
    \<and> (\<exists>r \<in> set (run_calls cfg (polls_only polls) p ! (n - 1)).
         about f r \<and> rq_escalation r \<and> rq_severity r = ''critical'')
    \<and> (\<forall>k < n - 1. \<forall>r \<in> set (run_calls cfg (polls_only polls) p ! k). about f r \<longrightarrow> \<not> rq_escalation r)"
proof -
  obtain po alerts rest where polls: "polls = (po, alerts) # rest"
    using assms(2,4) by (cases polls) auto
  have rest: "rest \<noteq> []" "list_all (clear_critical cfg f) rest" using assms(2,4,8) polls by auto
  obtain rs p' where m: "make_call cfg (Poll po alerts) p = (rs, p')" by fastforce
  have cc: "clear_critical cfg f (po, alerts)" using assms(8) polls by simp
  obtain a r s' where d: "fingerprint a = f" "ai_severity a = ''critical''"
    "decide cfg (po_now po) a True (\<not> fs_episode_open (touch_state a p)) (opened a p) = (r, s')"
    "dict_get (pl_states p') f = Some s'" "filter (about f) rs = (case r of None \<Rightarrow> [] | Some q \<Rightarrow> [q])"
    "policy_wf p'" "pl_snoozes p' = []"
    using clear_critical_poll [OF cc assms(1,5,6) m] .
  have polls1: "1 < ns_escalation_polls cfg" using assms(2,3) by simp
  have t: "touch_state a p = new_state f ''critical''" using d(1,2) assms(7) by (simp add: touch_state_def)
  have s': "fs_notified s'" "\<not> fs_escalated s'" "fs_polls_active s' = 1" "r \<noteq> None"
    "\<not> rq_escalation (the r)" "rq_severity (the r) = ''info''"
    using opening_step [OF d(3,2) _ _ polls1] t by (simp_all add: new_state_def)
  then obtain q where q: "r = Some q" by auto
  have only: "q \<in> set rs" "about f q" "\<And>x. x \<in> set rs \<Longrightarrow> about f x \<Longrightarrow> x = q"
    using arg_cong [OF d(5), of set] q by auto
  have "int (fs_polls_active s' + length rest) = ns_escalation_polls cfg"
    using assms(3,4) s'(3) polls by simp
  note later = standing_run [OF d(6,7) assms(1) polls1 d(4) s'(1,2) rest(1) this rest(2)]
  have n: "n - 1 = Suc (length rest - 1)" using assms(4) polls rest(1) by (cases rest) auto
  have run: "run_calls cfg (polls_only polls) p = rs # run_calls cfg (polls_only rest) p'"
    using polls m by simp
  have first: "\<not> rq_escalation q" "rq_severity q = ''info''" using s'(5,6) q by simp_all
  show ?thesis
    unfolding run n
  proof (intro conjI)
    show "\<exists>r \<in> set ((rs # run_calls cfg (polls_only rest) p') ! 0).
        about f r \<and> \<not> rq_escalation r \<and> rq_severity r = ''info''"
      using only(1,2) first by auto
    show "\<forall>k < Suc (length rest - 1). \<forall>r \<in> set ((rs # run_calls cfg (polls_only rest) p') ! k).
        about f r \<longrightarrow> \<not> rq_escalation r"
    proof (intro allI impI ballI)
      fix k r
      assume "k < Suc (length rest - 1)" "r \<in> set ((rs # run_calls cfg (polls_only rest) p') ! k)" "about f r"
      then show "\<not> rq_escalation r" using later only(3) [of r] first(1) by (cases k) auto
    qed
  qed (use later in simp)
qed

theorem standing_critical_escalates_witness:
  "\<exists>r \<in> set (run_calls default_settings
       (polls_only [(poll_at 10, [sample_alert]), (poll_at 40, [sample_alert]), (poll_at 70, [sample_alert])])
       empty_policy ! 2). rq_escalation r \<and> rq_severity r = ''critical''"
proof -
  let ?polls = "[(poll_at 10, [sample_alert]), (poll_at 40, [sample_alert]), (poll_at 70, [sample_alert])]"
  have "list_all (clear_critical default_settings (fingerprint sample_alert)) ?polls"
    "ns_enabled default_settings" "ns_escalation_polls default_settings = int 3"
    "pl_snoozes empty_policy = []" "dict_get (pl_states empty_policy) (fingerprint sample_alert) = None"
    by code_simp+
  then show ?thesis
    using standing_critical_escalates [of default_settings 3 ?polls empty_policy "fingerprint sample_alert"]
    by auto
qed



section \<open>Digest mode\<close>

text \<open>A later poll of an episode whose first poll was quiet, in digest mode.\<close>

lemma digest_poll:
  assumes "ns_digest_mode cfg" "ns_enabled cfg" "ai_severity a \<noteq> ''critical''" "\<not> ai_acknowledged a"
    "policy_wf p" "pl_digest p = []"
    "fs_episode_open (touch_state a p) \<or> suppressed_by_dnd cfg po (ai_severity a)"
    "make_call cfg (Poll po [a]) p = (rs, p')"
  shows "rs = [] \<and> policy_wf p' \<and> pl_digest p' = [] \<and> fs_episode_open (touch_state a p')"
proof -
  obtain v p1 where v: "alert_loop cfg po [a] p = (v, p1)" by fastforce
  have q: "outcome cfg po p a = (None, opened a p)"
    using assms(1,3) by (simp add: outcome_def decide_def)
  have dig: "pl_digest p1 = []" and vd: "v = no_verdicts\<lparr>vd_active := [fingerprint a]\<rparr>"
    using alert_turn_eq [OF assms(5,4), of no_verdicts cfg po] v q assms(6,7)
    by (auto simp: alert_loop_def no_verdicts_def file_request_def audible_def)
  have e: "evaluate cfg po [a] p = (fst (evaluate cfg po [a] p), p')" and rs: "rs = all_verdicts v"
    using assms(2,8) v by auto
  have st: "dict_get (pl_states p') (fingerprint a) = Some (opened a p)"
    using assms(5,2) e v
    by (cases rule: poll_cases [where f = "fingerprint a"]) (use assms(4) q in \<open>auto simp: speaks_for_def\<close>)
  have "pl_digest p' = []"
    using assms(2) v e
  proof (cases rule: evaluate_cases)
    case (closed p2 new still digest)
    then show ?thesis using dig by (auto simp: close_inactive_def maybe_flush_digest_def)
  qed (use dig in simp)
  then show ?thesis
    using st evaluate_wf [OF assms(5) e] vd
    by (simp add: rs all_verdicts_def no_verdicts_def touch_state_def opened_def [of a p])
qed

text \<open>
  C18: in digest mode an alert below critical whose first poll falls into Do Not Disturb is lost:
  however many polls follow while it stays open, with Do Not Disturb over, it is neither
  announced nor put into the digest. Only the first poll of an episode feeds the digest, and a
  suppressed first poll opens the episode all the same.
\<close>

theorem digest_loses_quiet_opening:
  assumes "ns_digest_mode cfg" "ns_enabled cfg" "ai_severity a \<noteq> ''critical''" "\<not> ai_acknowledged a"
    "suppressed_by_dnd cfg po (ai_severity a)"
  shows "concat (run_calls cfg (polls_only ((po, [a]) # map (\<lambda>q. (q, [a])) later)) empty_policy) = []
    \<and> pl_digest (fold (\<lambda>q p. snd (evaluate cfg q [a] p)) (po # later) empty_policy) = []"
proof -
  obtain rs p1 where m: "make_call cfg (Poll po [a]) empty_policy = (rs, p1)" by fastforce
  have start: "rs = []" "policy_wf p1" "pl_digest p1 = []" "fs_episode_open (touch_state a p1)"
    using digest_poll [OF assms(1-4) policy_wf_empty _ _ m] assms(5) by (auto simp: empty_policy_def)
  have "concat (run_calls cfg (polls_only (map (\<lambda>q. (q, [a])) qs)) p) = []
      \<and> pl_digest (fold (\<lambda>q p. snd (evaluate cfg q [a] p)) qs p) = []"
    if "policy_wf p" "pl_digest p = []" "fs_episode_open (touch_state a p)" for p qs
    using that
  proof (induction qs arbitrary: p)
    case (Cons q qs)
    obtain rs p' where m: "make_call cfg (Poll q [a]) p = (rs, p')" by fastforce
    have "rs = [] \<and> policy_wf p' \<and> pl_digest p' = [] \<and> fs_episode_open (touch_state a p')"
      using digest_poll [OF assms(1-4) Cons.prems(1,2) _ m] Cons.prems(3) by simp
    then show ?case using Cons.IH [of p'] m by auto
  qed simp
  from this [OF start(2-4), of later] show ?thesis using m start(1) by auto
qed

definition sample_warning :: alert_info where
  "sample_warning = sample_alert\<lparr>ai_severity := ''warning''\<rparr>"

theorem digest_loses_quiet_opening_witness:
  "pl_digest (fold (\<lambda>q p. snd (evaluate (default_settings\<lparr>ns_digest_mode := True, ns_min_severity := ''info''\<rparr>)
       q [sample_warning] p))
     [(poll_at 10)\<lparr>po_dnd_active := True\<rparr>, poll_at 40, poll_at 5000] empty_policy) = []"
  using digest_loses_quiet_opening [of "default_settings\<lparr>ns_digest_mode := True, ns_min_severity := ''info''\<rparr>"
      sample_warning "(poll_at 10)\<lparr>po_dnd_active := True\<rparr>" "[poll_at 40, poll_at 5000]"]
  by (simp add: default_settings_def sample_warning_def sample_alert_def suppressed_by_dnd_def poll_at_def)

section \<open>The unreachable backend\<close>

lemma fingerprint_known:
  assumes "known_severity (ai_severity a)"
  shows "fingerprint a \<noteq> FP_BACKEND_UNREACHABLE"
  using assms by (auto simp: fingerprint_def FP_BACKEND_UNREACHABLE_def known_severity_def SEVERITY_ORDER_def)

text \<open>
  The announcement that monitoring is down comes only once the backend has been unreachable
  for the configured grace, is critical and stays in the history; and no poll of alerts ends
  that episode: the state it leaves for the fingerprint is the one every later poll finds, until
  the connection itself is back.
\<close>

theorem backend_unreachable_episode:
  assumes "policy_wf p" "evaluate_backend_unreachable cfg po d p = (Some r, q)"
    "list_all (list_all (\<lambda>a. known_severity (ai_severity a))) (map snd polls)"
  shows "0 < ns_backend_unreachable_grace_seconds cfg \<and> ns_backend_unreachable_grace_seconds cfg \<le> d
    \<and> rq_severity r = ''critical'' \<and> \<not> rq_transient r \<and> rq_fingerprint r = Some FP_BACKEND_UNREACHABLE
    \<and> (\<exists>s. dict_get (pl_states q) FP_BACKEND_UNREACHABLE = Some s \<and> fs_notified s
        \<and> dict_get (pl_states (fold (\<lambda>(po, alerts) p. snd (evaluate cfg po alerts p)) polls q))
            FP_BACKEND_UNREACHABLE = Some s)"
proof -
  have wq: "policy_wf q" using call_wf [OF assms(1), of cfg "Unreachable po d"] assms(2) by simp
  have keep: "dict_get (pl_states (snd (evaluate cfg po alerts p))) FP_BACKEND_UNREACHABLE
      = dict_get (pl_states p) FP_BACKEND_UNREACHABLE"
    if "policy_wf p" "list_all (\<lambda>a. known_severity (ai_severity a)) alerts" for p po alerts
  proof (cases "ns_enabled cfg")
    case True
    obtain res p' v p1 where e: "evaluate cfg po alerts p = (res, p')" "alert_loop cfg po alerts p = (v, p1)"
      by fastforce
    have none: "speaks_for FP_BACKEND_UNREACHABLE alerts = None"
      using that(2) fingerprint_known by (auto simp: speaks_for_None list_all_iff)
    from that(1) True e show ?thesis
      by (cases rule: poll_cases [where f = FP_BACKEND_UNREACHABLE]) (use none e in simp_all)
  qed (simp add: evaluate_def)
  have later: "dict_get (pl_states (fold (\<lambda>(po, alerts) p. snd (evaluate cfg po alerts p)) polls q))
      FP_BACKEND_UNREACHABLE = dict_get (pl_states q) FP_BACKEND_UNREACHABLE"
    using wq assms(3)
  proof (induction polls arbitrary: q)
    case (Cons x xs)
    obtain po alerts where x: "x = (po, alerts)" by fastforce
    have "policy_wf (snd (evaluate cfg po alerts q))"
      using evaluate_wf [OF Cons.prems(1)] by (metis prod.exhaust_sel)
    then show ?case using Cons.IH keep [OF Cons.prems(1)] Cons.prems(2) x by simp
  qed simp
  from assms(2) show ?thesis
  proof (cases rule: unreachable_cases)
    case (spoke s' p2)
    then show ?thesis
      using later backend_touched_simps(1) [OF assms(1)]
      by (auto simp: speak_unreachable_def backend_unreachable_request_def BACKEND_UNREACHABLE_SEVERITY_def
          Let_def split: if_splits)
  qed simp_all
qed

theorem backend_unreachable_episode_witness:
  "\<exists>s. dict_get (pl_states (fold (\<lambda>(po, alerts) p. snd (evaluate default_settings po alerts p))
       [(poll_at 600, [sample_alert])]
       (snd (evaluate_backend_unreachable default_settings (poll_at 500) 400 empty_policy))))
     FP_BACKEND_UNREACHABLE = Some s \<and> fs_notified s"
proof -
  let ?e = "evaluate_backend_unreachable default_settings (poll_at 500) 400 empty_policy"
  have "fst ?e \<noteq> None"
    by (simp add: evaluate_backend_unreachable_def default_settings_def poll_at_def empty_policy_def
        severity_level_def min_severity_level_def SEVERITY_LEVELS_def dict_get_or_def
        BACKEND_UNREACHABLE_SEVERITY_def is_snoozed_for_def is_snoozed_def suppressed_by_dnd_def
        speak_unreachable_def new_state_def cooldown_seconds_def Let_def)
  then obtain r where e: "?e = (Some r, snd ?e)" by (cases ?e) auto
  have sev: "list_all (list_all (\<lambda>a. known_severity (ai_severity a))) (map snd [(poll_at 600, [sample_alert])])"
    by (simp add: sample_alert_def known_severity_def SEVERITY_ORDER_def)
  show ?thesis
    using backend_unreachable_episode [OF policy_wf_empty e sev] by blast
qed

end
