(* ===== verification/Tray.thy ===== *)
theory Tray
  imports Notification_Policy Services
begin

text \<open>
  The tray around the policy: the D-Bus transport (\<open>DbusNotifier\<close> of
  \<open>src/sysadmin_tray/notifications.py\<close>), the icon's colour (\<open>src/sysadmin_tray/models.py\<close>) and the
  methods of \<open>TrayIcon\<close> (\<open>src/sysadmin_tray/tray_icon.py\<close>) that feed the policy and dispatch what
  it decides.

  \<^item> The session bus is a parameter: the answer to a \<open>Notify\<close> call is the id it gave the popup, or
    \<^const>\<open>None\<close> for an invalid reply. The marshalling of Qt types is not modelled.
  \<^item> What reaches the screen is a \<open>delivery\<close>; what a click emits is a \<open>tray_signal\<close>.
  \<^item> Menu, painting and tool tip text have no part in the decisions and are left out.
\<close>

section \<open>The icon\<close>

datatype icon_state = HEALTHY | WARNING | CRITICAL | DISCONNECTED

text \<open>Of a \<open>StatusResponse\<close> the icon reads the status of each service only.\<close>

definition compute_icon_state :: "string list option \<Rightarrow> alert_info list option \<Rightarrow> bool \<Rightarrow> icon_state" where
  "compute_icon_state statuses alerts reachable =
     (if \<not> reachable then DISCONNECTED
      else if (case statuses of None \<Rightarrow> False | Some ss \<Rightarrow> list_ex (\<lambda>s. s \<in> set [''unreachable'', ''error'']) ss)
        then CRITICAL
      else if (case statuses of None \<Rightarrow> False | Some ss \<Rightarrow> list_ex (\<lambda>s. s = ''degraded'') ss) then WARNING
      else
        (case alerts of
           None \<Rightarrow> HEALTHY
         | Some as \<Rightarrow>
             if 0 < length (filter (\<lambda>a. ai_severity a = ''critical'' \<and> \<not> ai_acknowledged a) as) then CRITICAL
             else if 0 < length (filter (\<lambda>a. ai_severity a = ''warning'' \<and> \<not> ai_acknowledged a) as) then WARNING
             else HEALTHY))"

section \<open>The transport\<close>

record notify_payload =
  np_summary :: string
  np_body :: string
  np_replaces_id :: nat
  np_actions :: "string list"
  np_urgency :: int
  np_transient :: bool
  np_timeout :: int

definition URGENCY_MAP :: "(string, int) dict" where
  "URGENCY_MAP = [(''info'', 0), (''warning'', 1), (''critical'', 2)]"

definition TIMEOUT_MAP :: "(string, int) dict" where
  "TIMEOUT_MAP = [(''info'', 5000), (''warning'', 10000), (''critical'', 0)]"

definition INHIBIT_CACHE_SECONDS :: rat where
  "INHIBIT_CACHE_SECONDS = 5"

text \<open>A popup on the bus, or a message of the fallback tray icon.\<close>

datatype delivery =
    Popup nat notify_payload
  | Balloon string string string int

record notifier =
  nf_fallback :: bool
  nf_pending_actions :: "(nat, string) dict"
  nf_pending_snoozes :: "(nat, string) dict"
  nf_fp_ids :: "(string, nat) dict"
  nf_snooze_minutes :: int
  nf_available :: bool
  nf_inhibit_supported :: bool
  nf_inhibit_cached :: bool
  nf_inhibit_checked_at :: "rat option"

definition snooze_label :: "notifier \<Rightarrow> string" where
  "snooze_label n =
     (let minutes = nf_snooze_minutes n
      in if minutes \<ge> 60 \<and> minutes mod 60 = 0 then ''Snooze '' @ show_int (minutes div 60) @ ''h''
         else ''Snooze '' @ show_int minutes @ ''m'')"

definition build_payload ::
  "string \<Rightarrow> string \<Rightarrow> string \<Rightarrow> string option \<Rightarrow> string option \<Rightarrow> bool \<Rightarrow> string option \<Rightarrow> notifier \<Rightarrow> notify_payload"
where
  "build_payload summary body severity service fp transient snooze_key n =
     \<lparr>np_summary = summary, np_body = body,
      np_replaces_id = (case fp of None \<Rightarrow> 0 | Some f \<Rightarrow> if f = [] then 0 else dict_get_or (nf_fp_ids n) f 0),
      np_actions = (if given service then [''restart'', ''Restart''] else [])
        @ (if given snooze_key then [''snooze'', snooze_label n] else []),
      np_urgency = dict_get_or URGENCY_MAP severity 1, np_transient = transient,
      np_timeout = dict_get_or TIMEOUT_MAP severity 5000\<rparr>"

definition fallback_notify :: "string \<Rightarrow> string \<Rightarrow> string \<Rightarrow> notifier \<Rightarrow> delivery list" where
  "fallback_notify summary body severity n =
     (if nf_fallback n then [Balloon summary body severity (dict_get_or TIMEOUT_MAP severity 5000)] else [])"

definition set_if :: "string option \<Rightarrow> (string \<Rightarrow> 'a \<Rightarrow> 'a) \<Rightarrow> 'a \<Rightarrow> 'a" where
  "set_if x f d = (case x of None \<Rightarrow> d | Some s \<Rightarrow> if s = [] then d else f s d)"

text \<open>\<open>notify\<close>; \<open>bus\<close> answers the call.\<close>

definition notify ::
  "(notify_payload \<Rightarrow> nat option) \<Rightarrow> string \<Rightarrow> string \<Rightarrow> string \<Rightarrow> string option \<Rightarrow> string option \<Rightarrow> bool
     \<Rightarrow> string option \<Rightarrow> notifier \<Rightarrow> bool \<times> delivery list \<times> notifier" where
  "notify bus summary body severity service fp transient snooze_key n =
     (let payload = build_payload summary body severity service fp transient snooze_key n
      in if \<not> nf_available n then (False, fallback_notify summary body severity n, n)
         else
           (case bus payload of
              None \<Rightarrow> (False, fallback_notify summary body severity n, n)
            | Some i \<Rightarrow>
                (True, [Popup i payload],
                 if i = 0 then n
                 else n\<lparr>nf_fp_ids := set_if fp (\<lambda>f. dict_set f i) (nf_fp_ids n),
                        nf_pending_actions := set_if service (dict_set i) (nf_pending_actions n),
                        nf_pending_snoozes := set_if snooze_key (dict_set i) (nf_pending_snoozes n)\<rparr>)))"

datatype tray_signal = Restart_requested string | Snooze_requested string

definition on_action_invoked :: "nat \<Rightarrow> string \<Rightarrow> notifier \<Rightarrow> tray_signal list \<times> notifier" where
  "on_action_invoked i action_key n =
     (let service = dict_get (nf_pending_actions n) i;
          key = dict_get (nf_pending_snoozes n) i;
          n' = n\<lparr>nf_pending_actions := dict_del i (nf_pending_actions n),
                 nf_pending_snoozes := dict_del i (nf_pending_snoozes n)\<rparr>
      in (if action_key = ''restart'' \<and> given service then [Restart_requested (the service)]
          else if action_key = ''snooze'' \<and> given key then [Snooze_requested (the key)]
          else [], n'))"

definition on_notification_closed :: "nat \<Rightarrow> notifier \<Rightarrow> notifier" where
  "on_notification_closed i n =
     n\<lparr>nf_pending_actions := dict_del i (nf_pending_actions n),
       nf_pending_snoozes := dict_del i (nf_pending_snoozes n)\<rparr>"

definition cleanup :: "notifier \<Rightarrow> notifier" where
  "cleanup n = n\<lparr>nf_pending_actions := [], nf_pending_snoozes := [], nf_fp_ids := [], nf_available := False\<rparr>"

text \<open>\<open>desktop_inhibited\<close>; \<open>inhibited\<close> is what the property read gives, \<^const>\<open>None\<close> when it is not there.\<close>

definition desktop_inhibited :: "bool option \<Rightarrow> rat \<Rightarrow> notifier \<Rightarrow> bool \<times> notifier" where
  "desktop_inhibited inhibited now n =
     (if \<not> nf_available n \<or> \<not> nf_inhibit_supported n then (False, n)
      else if (case nf_inhibit_checked_at n of None \<Rightarrow> False | Some t \<Rightarrow> now - t < INHIBIT_CACHE_SECONDS)
        then (nf_inhibit_cached n, n)
      else
        (case inhibited of
           None \<Rightarrow> (False, n\<lparr>nf_inhibit_supported := False, nf_inhibit_cached := False\<rparr>)
         | Some b \<Rightarrow> (b, n\<lparr>nf_inhibit_cached := b, nf_inhibit_checked_at := Some now\<rparr>)))"

section \<open>The tray icon\<close>

record tray =
  tr_settings :: notification_settings
  tr_policy :: policy
  tr_notifier :: "notifier option"
  tr_dnd_active :: bool
  tr_dnd_allow_critical :: bool
  tr_last_status :: "string list option"
  tr_last_alerts :: "alert_info list option"
  tr_reachable :: bool
  tr_icon :: icon_state

text \<open>What the outside answers during a call: the clock, the bus, the Inhibited property.\<close>

record desktop =
  dk_now :: rat
  dk_bus :: "notify_payload \<Rightarrow> nat option"
  dk_inhibited :: "bool option"

definition recompute_state :: "tray \<Rightarrow> tray" where
  "recompute_state t =
     t\<lparr>tr_icon := compute_icon_state (tr_last_status t) (tr_last_alerts t) (tr_reachable t)\<rparr>"

definition update_from_status :: "string list \<Rightarrow> tray \<Rightarrow> tray" where
  "update_from_status ss t = recompute_state (t\<lparr>tr_last_status := Some ss, tr_reachable := True\<rparr>)"

definition on_connection_lost :: "tray \<Rightarrow> tray" where
  "on_connection_lost t = recompute_state (t\<lparr>tr_reachable := False\<rparr>)"

definition on_connection_restored :: "tray \<Rightarrow> tray" where
  "on_connection_restored t =
     recompute_state (t\<lparr>tr_reachable := True, tr_policy := backend_reachable (tr_policy t)\<rparr>)"

definition update_dnd_status :: "bool option \<Rightarrow> bool option \<Rightarrow> tray \<Rightarrow> tray" where
  "update_dnd_status active allow t =
     recompute_state (t\<lparr>tr_dnd_active := (case active of None \<Rightarrow> False | Some b \<Rightarrow> b),
       tr_dnd_allow_critical := (case allow of None \<Rightarrow> True | Some b \<Rightarrow> b)\<rparr>)"

definition tray_desktop_inhibited :: "desktop \<Rightarrow> tray \<Rightarrow> bool \<times> tray" where
  "tray_desktop_inhibited d t =
     (case tr_notifier t of
        None \<Rightarrow> (False, t)
      | Some n \<Rightarrow>
          (case desktop_inhibited (dk_inhibited d) (dk_now d) n of
             (b, n') \<Rightarrow> (b, t\<lparr>tr_notifier := Some n'\<rparr>)))"

text \<open>Without a notifier the request is a balloon of the icon itself.\<close>

definition dispatch :: "desktop \<Rightarrow> notification_request \<Rightarrow> tray \<Rightarrow> delivery list \<times> tray" where
  "dispatch d r t =
     (case tr_notifier t of
        None \<Rightarrow>
          ([Balloon (rq_summary r) (rq_body r) (rq_severity r)
              (dict_get_or TIMEOUT_MAP (rq_severity r) 5000)], t)
      | Some n \<Rightarrow>
          (case notify (dk_bus d) (rq_summary r) (rq_body r) (rq_severity r) (rq_service_name r)
                  (rq_fingerprint r) (rq_transient r) (rq_snooze_key r) n of
             (_, ds, n') \<Rightarrow> (ds, t\<lparr>tr_notifier := Some n'\<rparr>)))"

fun dispatch_all :: "desktop \<Rightarrow> notification_request list \<Rightarrow> tray \<Rightarrow> delivery list \<times> tray" where
  "dispatch_all d [] t = ([], t)"
| "dispatch_all d (r # rs) t =
     (case dispatch d r t of
        (ds, t1) \<Rightarrow> (case dispatch_all d rs t1 of (ds', t2) \<Rightarrow> (ds @ ds', t2)))"

definition tray_poll :: "desktop \<Rightarrow> bool \<Rightarrow> tray \<Rightarrow> poll" where
  "tray_poll d inhibited t =
     \<lparr>po_now = dk_now d, po_dnd_active = tr_dnd_active t,
      po_dnd_allow_critical = tr_dnd_allow_critical t, po_desktop_inhibited = inhibited\<rparr>"

text \<open>An error of the policy leaves \<open>update_from_alerts\<close> before the icon is computed again.\<close>

definition update_from_alerts ::
  "desktop \<Rightarrow> alert_info list \<Rightarrow> tray \<Rightarrow> (py_error + delivery list) \<times> tray" where
  "update_from_alerts d alerts t =
     (case tray_desktop_inhibited d (t\<lparr>tr_last_alerts := Some alerts\<rparr>) of
        (inhibited, t1) \<Rightarrow>
          (case evaluate (tr_settings t1) (tray_poll d inhibited t1) alerts (tr_policy t1) of
             (Inl e, p) \<Rightarrow> (Inl e, t1\<lparr>tr_policy := p\<rparr>)
           | (Inr rs, p) \<Rightarrow>
               (case dispatch_all d rs (t1\<lparr>tr_policy := p\<rparr>) of
                  (ds, t2) \<Rightarrow> (Inr ds, recompute_state t2))))"

definition on_backend_unreachable :: "desktop \<Rightarrow> rat \<Rightarrow> tray \<Rightarrow> delivery list \<times> tray" where
  "on_backend_unreachable d unreachable_for t =
     (case tray_desktop_inhibited d t of
        (inhibited, t1) \<Rightarrow>
          (case evaluate_backend_unreachable (tr_settings t1) (tray_poll d inhibited t1) unreachable_for
                  (tr_policy t1) of
             (None, p) \<Rightarrow> ([], t1\<lparr>tr_policy := p\<rparr>)
           | (Some r, p) \<Rightarrow> dispatch d r (t1\<lparr>tr_policy := p\<rparr>)))"

text \<open>
  A click on a popup: the notifier's signal, and the tray's slot for \<open>snooze_requested\<close>. The
  restart signal goes to the application.
\<close>

definition click :: "rat \<Rightarrow> nat \<Rightarrow> string \<Rightarrow> tray \<Rightarrow> tray_signal list \<times> tray" where
  "click now i action_key t =
     (case tr_notifier t of
        None \<Rightarrow> ([], t)
      | Some n \<Rightarrow>
          (case on_action_invoked i action_key n of
             (sigs, n') \<Rightarrow>
               (sigs,
                t\<lparr>tr_notifier := Some n',
                  tr_policy := fold (\<lambda>g p. case g of Snooze_requested key \<Rightarrow> snooze (tr_settings t) now key None p
                                          | Restart_requested _ \<Rightarrow> p) sigs (tr_policy t)\<rparr>)))"

text \<open>\<open>on_service_action_complete\<close>.\<close>

definition on_service_action_complete ::
  "desktop \<Rightarrow> string \<Rightarrow> string \<Rightarrow> bool \<Rightarrow> string \<Rightarrow> tray \<Rightarrow> delivery list \<times> tray" where
  "on_service_action_complete d service action success message t =
     (let title = (if success then ''Service Action'' else ''Service Action Failed'');
          body = (if success then service @ '' '' @ action @ ''ed successfully''
                  else service @ '' '' @ action @ '' failed: '' @ message);
          severity = (if success then ''info'' else ''warning'')
      in case tr_notifier t of
           None \<Rightarrow> ([Balloon title body severity (dict_get_or TIMEOUT_MAP severity 5000)], t)
         | Some n \<Rightarrow>
             (case notify (dk_bus d) title body severity None (Some (''service-action:'' @ service)) True None n of
                (_, ds, n') \<Rightarrow> (ds, t\<lparr>tr_notifier := Some n'\<rparr>)))"

text \<open>\<open>set_notification_config\<close>: an override that is \<^const>\<open>None\<close> leaves the setting.\<close>

definition set_notification_config ::
  "bool \<Rightarrow> string \<Rightarrow> int option \<Rightarrow> int option \<Rightarrow> int option \<Rightarrow> int option \<Rightarrow> bool option \<Rightarrow> int option
     \<Rightarrow> bool option \<Rightarrow> rat option \<Rightarrow> rat option \<Rightarrow> string list option \<Rightarrow> tray \<Rightarrow> tray" where
  "set_notification_config enabled min_severity flap esc coal snz dig dig_int dnd rem grace muted t =
     (let s = tr_settings t
      in t\<lparr>tr_settings :=
        s\<lparr>ns_enabled := enabled, ns_min_severity := min_severity,
          ns_flap_cooldown_minutes := case_option (ns_flap_cooldown_minutes s) id flap,
          ns_escalation_polls := case_option (ns_escalation_polls s) id esc,
          ns_coalesce_threshold := case_option (ns_coalesce_threshold s) id coal,
          ns_snooze_minutes := case_option (ns_snooze_minutes s) id snz,
          ns_digest_mode := case_option (ns_digest_mode s) id dig,
          ns_digest_interval_minutes := case_option (ns_digest_interval_minutes s) id dig_int,
          ns_respect_desktop_dnd := case_option (ns_respect_desktop_dnd s) id dnd,
          ns_reminder_hours := case_option (ns_reminder_hours s) id rem,
          ns_backend_unreachable_grace_seconds :=
            case_option (ns_backend_unreachable_grace_seconds s) id grace,
          ns_muted_services := case_option (ns_muted_services s) id muted\<rparr>\<rparr>)"

section \<open>Popups\<close>

lemma notify_pending:
  assumes "notify bus summary body severity service fp transient key n = (True, [Popup i x], n')" "i \<noteq> 0"
  shows "(given key \<longrightarrow> dict_get (nf_pending_snoozes n') i = key)
    \<and> (given service \<longrightarrow> dict_get (nf_pending_actions n') i = service)
    \<and> (given fp \<longrightarrow> dict_get (nf_fp_ids n') (the fp) = Some i)"
  using assms
  by (auto simp: notify_def Let_def given_def set_if_def split: if_splits option.splits)

lemma click_once:
  assumes "click now i k t = (sigs, t')"
  shows "fst (click now' i k' t') = []"
proof (cases "tr_notifier t")
  case (Some n)
  then show ?thesis
    using assms
    by (cases "on_action_invoked i k n")
      (auto simp: click_def on_action_invoked_def given_def Let_def split: if_splits)
qed (use assms in \<open>auto simp: click_def\<close>)

text \<open>The key a popup snoozes is one of the two the policy asks for.\<close>

lemma snooze_key_asked:
  "snoozed_at now p (snooze_key_for a (fingerprint a)) \<Longrightarrow>
     snoozed_for now (fingerprint a) (ai_service_name a) p"
  by (auto simp: snooze_key_for_def snoozed_for_def split: option.splits if_splits)

lemma snooze_key_given: "given (Some (snooze_key_for a fp))"
  by (auto simp: snooze_key_for_def given_def split: option.splits)

section \<open>Properties\<close>

text \<open>
  C19: the Snooze button works end to end: when the tray shows a popup for an alert and its
  Snooze button is clicked at \<open>t\<close>, no poll before \<open>t\<close> plus the configured minutes finds the alert
  audible, and a second click on that popup does nothing.
\<close>

theorem snooze_click_silences:
  assumes "dispatch d r tray = ([Popup i x], tray1)" "i \<noteq> 0"
    "rq_snooze_key r = Some (snooze_key_for a (fingerprint a))"
    "click t i ''snooze'' tray1 = (sigs, tray2)"
    "po_now po < t + of_int (ns_snooze_minutes (tr_settings tray) * 60)"
  shows "\<not> audible (tr_settings tray) po (tr_policy tray2) a \<and> fst (click t' i k tray2) = []
    \<and> sigs = [Snooze_requested (snooze_key_for a (fingerprint a))]"
proof -
  let ?key = "snooze_key_for a (fingerprint a)"
  obtain n where n: "tr_notifier tray = Some n"
    using assms(1) by (cases "tr_notifier tray") (auto simp: dispatch_def)
  obtain ok n' where nt: "notify (dk_bus d) (rq_summary r) (rq_body r) (rq_severity r) (rq_service_name r)
      (rq_fingerprint r) (rq_transient r) (rq_snooze_key r) n = (ok, [Popup i x], n')"
    "tray1 = tray\<lparr>tr_notifier := Some n'\<rparr>"
    using assms(1) n by (auto simp: dispatch_def split: prod.splits)
  then have "ok = True"
    by (auto simp: notify_def fallback_notify_def Let_def split: if_splits option.splits)
  then have pend: "dict_get (nf_pending_snoozes n') i = Some ?key"
    using notify_pending [of _ _ _ _ _ _ _ "rq_snooze_key r" n i x n'] nt(1) assms(2,3) snooze_key_given
    by simp
  then have sigs: "sigs = [Snooze_requested ?key]"
    and pol: "tr_policy tray2 = snooze (tr_settings tray) t ?key None (tr_policy tray)"
    using assms(4) nt(2) snooze_key_given [of a "fingerprint a"]
    by (auto simp: click_def on_action_invoked_def Let_def)
  have "snoozed_at (po_now po) (tr_policy tray2) ?key"
    using assms(5) by (simp add: pol snooze_def snoozed_at_def Let_def)
  then show ?thesis
    using snooze_key_asked click_once [OF assms(4)] sigs by (simp add: audible_def)
qed

definition sample_tray :: tray where
  "sample_tray =
     \<lparr>tr_settings = default_settings, tr_policy = empty_policy,
      tr_notifier = Some \<lparr>nf_fallback = True, nf_pending_actions = [], nf_pending_snoozes = [],
        nf_fp_ids = [], nf_snooze_minutes = 60, nf_available = True, nf_inhibit_supported = True,
        nf_inhibit_cached = False, nf_inhibit_checked_at = None\<rparr>,
      tr_dnd_active = False, tr_dnd_allow_critical = True, tr_last_status = None,
      tr_last_alerts = None, tr_reachable = True, tr_icon = DISCONNECTED\<rparr>"

definition sample_desktop :: desktop where
  "sample_desktop = \<lparr>dk_now = 10, dk_bus = (\<lambda>_. Some 5), dk_inhibited = Some False\<rparr>"

definition sample_request :: notification_request where
  "sample_request =
     fst (first_notification default_settings sample_alert 10
       (new_state (fingerprint sample_alert) ''critical''))"

theorem snooze_click_silences_witness:
  "\<not> audible default_settings (poll_at 3000)
       (tr_policy (snd (click 20 5 ''snooze'' (snd (dispatch sample_desktop sample_request sample_tray)))))
       sample_alert"
proof -
  let ?d = "dispatch sample_desktop sample_request sample_tray"
  obtain x where d: "?d = ([Popup 5 x], snd ?d)"
    by (simp add: dispatch_def sample_tray_def sample_desktop_def notify_def Let_def)
  have key: "rq_snooze_key sample_request = Some (snooze_key_for sample_alert (fingerprint sample_alert))"
    by (simp add: sample_request_def first_notification_def Let_def new_state_def)
  have now: "po_now (poll_at 3000) < 20 + of_int (ns_snooze_minutes (tr_settings sample_tray) * 60)"
    "tr_settings sample_tray = default_settings"
    by (simp_all add: poll_at_def sample_tray_def default_settings_def)
  show ?thesis
    using snooze_click_silences [OF d _ key _ now(1), of "fst (click 20 5 ''snooze'' (snd ?d))"
        "snd (click 20 5 ''snooze'' (snd ?d))"] now(2)
    by simp
qed

text \<open>
  Which recorded service status leaves the icon green when there is no open alert: not only
  \<open>ok\<close> and \<open>skipped\<close>, but \<open>warning\<close> and \<open>critical\<close> too, which the status vocabulary reads as
  faults.
\<close>

theorem icon_green_statuses:
  assumes "chk_health_status h"
  shows "compute_icon_state (Some [sh_status h]) None True = HEALTHY \<longleftrightarrow>
    \<not> is_fault (sh_status h) \<or> sh_status h = ''warning'' \<or> sh_status h = ''critical''"
  using assms
  by (auto simp: chk_health_status_def compute_icon_state_def is_fault_iff)

theorem icon_green_statuses_witness:
  "compute_icon_state (Some [''critical'']) None True = HEALTHY \<and> is_fault ''critical''"
  using icon_green_statuses [of "\<lparr>sh_service_name = ''web'', sh_status = ''critical'',
      sh_response_time_ms = None, sh_details = []\<rparr>"]
  by (simp add: chk_health_status_def is_fault_iff)

end
