(* ===== verification/Log_Signature.thy ===== *)
theory Log_Signature
  imports Sys_Prelude
begin

text \<open>
  The identity of a recurring fault in the logs: \<open>src/sysadmin/monitor/log_signature.py\<close>.

  \<^item> A regular-expression substitution is a left-to-right scan. The classes \<open>\d\<close>, \<open>\s\<close> and \<open>\w\<close> are
    the ASCII ones.
  \<^item> \<open>hashlib.sha256\<close> and the estate library's \<open>truncate_at_word\<close> and \<open>TRUNCATION_MARKER\<close> are
    arguments; what is relied on is stated as hypotheses where it matters.
\<close>

section \<open>Substitutions\<close>

definition is_digit :: "char \<Rightarrow> bool" where
  "is_digit c = (let n = (of_char c :: nat) in 48 \<le> n \<and> n \<le> 57)"

definition is_hex :: "char \<Rightarrow> bool" where
  "is_hex c =
     (let n = (of_char c :: nat) in 48 \<le> n \<and> n \<le> 57 \<or> 65 \<le> n \<and> n \<le> 70 \<or> 97 \<le> n \<and> n \<le> 102)"

text \<open>
  \<open>re.sub(r"P+", r, s)\<close> for a class of characters: every maximal run becomes one \<open>r\<close>. The flag
  says that the scan is inside a run.
\<close>

fun sub_runs :: "(char \<Rightarrow> bool) \<Rightarrow> char \<Rightarrow> bool \<Rightarrow> string \<Rightarrow> string" where
  "sub_runs P r inside [] = []"
| "sub_runs P r inside (c # cs) =
     (if P c then (if inside then [] else [r]) @ sub_runs P r True cs
      else c # sub_runs P r False cs)"

text \<open>
  \<open>\b0x[0-9a-fA-F]+\b\<close> at the head of a text: what is left after the match. The flag says that
  the character before is a word character. Between two hexadecimal digits there is no word
  boundary, so a match takes the whole run.
\<close>

definition hex_match :: "bool \<Rightarrow> string \<Rightarrow> string option" where
  "hex_match word_before s =
     (if \<not> word_before \<and> take 2 s = ''0x'' \<and> takeWhile is_hex (drop 2 s) \<noteq> []
         \<and> (case dropWhile is_hex (drop 2 s) of [] \<Rightarrow> True | c # _ \<Rightarrow> \<not> word_char c)
      then Some (dropWhile is_hex (drop 2 s)) else None)"

lemma hex_match_shorter: "hex_match w s = Some rest \<Longrightarrow> length rest < length s"
proof -
  assume "hex_match w s = Some rest"
  then have "rest = dropWhile is_hex (drop 2 s)" "take 2 s = ''0x''"
    by (auto simp: hex_match_def split: if_splits)
  moreover have "length (dropWhile is_hex (drop 2 s)) \<le> length s - 2"
    using length_dropWhile_le [of is_hex "drop 2 s"] by simp
  moreover have "s \<noteq> []" using calculation(2) by auto
  then have "length s - 2 < length s" by simp
  ultimately show ?thesis by simp
qed

function sub_hex :: "bool \<Rightarrow> string \<Rightarrow> string" where
  "sub_hex w [] = []"
| "sub_hex w (c # cs) =
     (case hex_match w (c # cs) of
        Some rest \<Rightarrow> ''0xN'' @ sub_hex True rest
      | None \<Rightarrow> c # sub_hex (word_char c) cs)"
  by pat_completeness auto
termination
  by (relation "measure (\<lambda>(w, s). length s)") (use hex_match_shorter in fastforce)+

text \<open>\<open>str.strip()\<close>.\<close>

definition py_strip :: "string \<Rightarrow> string" where
  "py_strip s = rev (dropWhile is_space (rev (dropWhile is_space s)))"

definition signature :: "string \<Rightarrow> string" where
  "signature message =
     py_strip (sub_runs is_space CHR '' '' False (sub_runs is_digit CHR ''N'' False (sub_hex False message)))"

section \<open>Titles\<close>

definition TITLE_MAX :: int where
  "TITLE_MAX = 255"

definition SIGNATURE_DIGEST_CHARS :: nat where
  "SIGNATURE_DIGEST_CHARS = 8"

definition signature_digest :: "(string \<Rightarrow> string) \<Rightarrow> string \<Rightarrow> string" where
  "signature_digest sha256_hex text = py_take SIGNATURE_DIGEST_CHARS (sha256_hex text)"

definition title_prefix :: "string \<Rightarrow> string \<Rightarrow> string" where
  "title_prefix severity source = ''Log '' @ severity @ '': '' @ source @ '' '' @ em_dash @ '' ''"

definition title_budget :: "string \<Rightarrow> string \<Rightarrow> int" where
  "title_budget marker pre = TITLE_MAX - int (py_len pre) - int (py_len marker) - 1"

text \<open>The library functions the titles use: a digest, a cut at a word, the mark of a cut.\<close>

record text_lib =
  tl_sha256 :: "string \<Rightarrow> string"
  tl_truncate :: "string \<Rightarrow> nat \<Rightarrow> string"
  tl_marker :: string

definition alert_title :: "text_lib \<Rightarrow> string \<Rightarrow> string \<Rightarrow> string \<Rightarrow> string" where
  "alert_title lib severity source message =
     (let pre = title_prefix severity source;
          budget = title_budget (tl_marker lib) pre;
          text = signature message
      in if int (py_len text) \<le> budget then pre @ text
         else
           (let suffix = '' ['' @ signature_digest (tl_sha256 lib) text @ '']'';
                cut = tl_truncate lib text (nat (max (budget - int (py_len suffix)) 1))
            in pre @ cut @ suffix))"

section \<open>The substitutions are stable\<close>

lemma set_sub_runs: "set (sub_runs P r f s) \<subseteq> insert r {c \<in> set s. \<not> P c}"
  by (induction P r f s rule: sub_runs.induct) auto

lemma sub_runs_none: "\<forall>c \<in> set s. \<not> P c \<Longrightarrow> sub_runs P r f s = s"
  by (induction s arbitrary: f) auto

text \<open>Runs of at most one character, which is the replacement.\<close>

fun collapsed :: "(char \<Rightarrow> bool) \<Rightarrow> char \<Rightarrow> bool \<Rightarrow> string \<Rightarrow> bool" where
  "collapsed P r inside [] = True"
| "collapsed P r inside (c # cs) =
     (if P c then \<not> inside \<and> c = r \<and> collapsed P r True cs else collapsed P r False cs)"

lemma collapsed_sub_runs: "P r \<Longrightarrow> collapsed P r f (sub_runs P r f s)"
  by (induction P r f s rule: sub_runs.induct) auto

lemma collapsed_fixed: "collapsed P r f s \<Longrightarrow> sub_runs P r f s = s"
  by (induction P r f s rule: collapsed.induct) (auto split: if_splits)

lemma collapsed_append: "collapsed P r f (a @ b) \<Longrightarrow> collapsed P r f a"
  by (induction a arbitrary: f) (auto split: if_splits)

lemma collapsed_dropWhile: "collapsed P r f s \<Longrightarrow> collapsed P r False (dropWhile P s)"
  by (induction s arbitrary: f) (auto split: if_splits)

lemma rev_dropWhile_rev: "s = rev (dropWhile P (rev s)) @ rev (takeWhile P (rev s))"
  by (metis rev_append rev_rev_ident takeWhile_dropWhile_id)

lemma collapsed_strip: "collapsed is_space r f s \<Longrightarrow> collapsed is_space r False (py_strip s)"
  unfolding py_strip_def using collapsed_append collapsed_dropWhile rev_dropWhile_rev by metis

lemma set_py_strip: "set (py_strip s) \<subseteq> set s"
proof
  fix c assume "c \<in> set (py_strip s)"
  then have "c \<in> set (dropWhile is_space (rev (dropWhile is_space s)))"
    by (simp add: py_strip_def)
  then have "c \<in> set (rev (dropWhile is_space s))" by (rule set_dropWhileD)
  then show "c \<in> set s" unfolding set_rev by (rule set_dropWhileD)
qed

lemma py_strip_idem [simp]: "py_strip (py_strip s) = py_strip s"
proof -
  let ?t = "dropWhile is_space s"
  have "dropWhile is_space (py_strip s) = py_strip s"
  proof (cases "py_strip s")
    case (Cons c cs)
    have "?t = c # cs @ rev (takeWhile is_space (rev ?t))"
      using rev_dropWhile_rev [of ?t is_space] Cons by (simp add: py_strip_def)
    then have "\<not> is_space c" by (metis hd_dropWhile list.discI list.sel(1))
    then show ?thesis by (simp add: Cons)
  qed simp
  moreover have "dropWhile is_space (rev (py_strip s)) = rev (py_strip s)"
    by (simp add: py_strip_def)
  ultimately show ?thesis by (simp add: py_strip_def)
qed

lemma is_digit_0: "is_digit CHR ''0''" by code_simp

lemma sub_hex_no_digit: "\<forall>c \<in> set s. \<not> is_digit c \<Longrightarrow> sub_hex w s = s"
proof (induction s arbitrary: w)
  case (Cons c cs)
  then have "c \<noteq> CHR ''0''" using is_digit_0 by auto
  then have "hex_match w (c # cs) = None" by (simp add: hex_match_def numeral_2_eq_2)
  with Cons show ?case by simp
qed simp

lemma signature_no_digit: "c \<in> set (signature m) \<Longrightarrow> \<not> is_digit c"
proof -
  assume c: "c \<in> set (signature m)"
  let ?n = "sub_runs is_digit CHR ''N'' False (sub_hex False m)"
  have "c \<in> set (sub_runs is_space CHR '' '' False ?n)"
    using c set_py_strip unfolding signature_def by blast
  then have "c = CHR '' '' \<or> c \<in> set ?n" using set_sub_runs by blast
  then have "c = CHR '' '' \<or> c = CHR ''N'' \<or> \<not> is_digit c" using set_sub_runs by blast
  moreover have "\<not> is_digit CHR '' ''" "\<not> is_digit CHR ''N''" by code_simp+
  ultimately show ?thesis by auto
qed

lemma signature_idem: "signature (signature m) = signature m"
proof -
  let ?s = "signature m"
  have nd: "\<forall>c \<in> set ?s. \<not> is_digit c" using signature_no_digit by blast
  have "is_space CHR '' ''" by code_simp
  then have "collapsed is_space CHR '' '' False ?s"
    unfolding signature_def by (rule collapsed_strip [OF collapsed_sub_runs])
  then have w: "sub_runs is_space CHR '' '' False ?s = ?s" by (rule collapsed_fixed)
  have h: "sub_hex False ?s = ?s" by (rule sub_hex_no_digit [OF nd])
  have n: "sub_runs is_digit CHR ''N'' False ?s = ?s" by (rule sub_runs_none [OF nd])
  have "signature ?s = py_strip ?s" by (subst signature_def) (simp only: h n w)
  also have "\<dots> = ?s" unfolding signature_def by simp
  finally show ?thesis .
qed

section \<open>Numbers do not matter\<close>

definition digits :: "string \<Rightarrow> bool" where
  "digits ds = (ds \<noteq> [] \<and> list_all is_digit ds)"

definition no_x :: "string \<Rightarrow> bool" where
  "no_x s = (case s of [] \<Rightarrow> True | c # _ \<Rightarrow> c \<noteq> CHR ''x'')"

lemma is_digit_not_x: "is_digit c \<Longrightarrow> c \<noteq> CHR ''x''"
  by (auto simp: is_digit_def Let_def)

lemma is_digit_classes: "is_digit c \<Longrightarrow> is_hex c" "is_digit c \<Longrightarrow> word_char c"
  by (auto simp: is_digit_def is_hex_def word_char_def Let_def)

lemma hex_match_no_x: "no_x s \<Longrightarrow> hex_match w (c # s) = None"
  by (cases s) (auto simp: hex_match_def no_x_def)

lemma no_x_digits: "list_all is_digit ds \<Longrightarrow> no_x b \<Longrightarrow> no_x (ds @ b)"
  by (cases ds) (auto simp: no_x_def dest: is_digit_not_x)

lemma sub_hex_digits:
  "list_all is_digit ds \<Longrightarrow> no_x b \<Longrightarrow> sub_hex w (ds @ b) = ds @ sub_hex (if ds = [] then w else True) b"
proof (induction ds arbitrary: w)
  case (Cons c ds)
  then have "no_x (ds @ b)" by (intro no_x_digits) auto
  with Cons show ?case
    by (auto simp: hex_match_no_x is_digit_classes)
qed simp

lemma sub_runs_run:
  "ds \<noteq> [] \<Longrightarrow> list_all P ds \<Longrightarrow> sub_runs P r f (ds @ s) = (if f then [] else [r]) @ sub_runs P r True s"
  by (induction ds arbitrary: f rule: induct_list012) auto

text \<open>Two texts that differ only in one number are scanned alike, whatever comes before.\<close>

lemma hex_match_number:
  assumes "digits ds" "digits ds'" "no_x b"
  shows "hex_match w (a @ ds @ b) = None \<and> hex_match w (a @ ds' @ b) = None
    \<or> (\<exists>rest. hex_match w (a @ ds @ b) = Some rest \<and> hex_match w (a @ ds' @ b) = Some rest)
    \<or> (\<exists>a'. length a' < length a \<and> hex_match w (a @ ds @ b) = Some (a' @ ds @ b)
          \<and> hex_match w (a @ ds' @ b) = Some (a' @ ds' @ b))"
proof -
  have d: "ds \<noteq> []" "list_all is_digit ds" "ds' \<noteq> []" "list_all is_digit ds'"
    using assms(1,2) by (auto simp: digits_def)
  show ?thesis
  proof (cases "take 2 a = ''0x''")
    case False
    have "hex_match w (a @ es @ b) = None" if es: "es \<noteq> []" "list_all is_digit es" for es
    proof -
      consider "a = []" | c where "a = [c]" | c e a' where "a = c # e # a'" by (metis neq_Nil_conv)
      then show ?thesis
      proof cases
        case 1
        obtain e es' where e: "es = e # es'" using es(1) by (cases es) auto
        have "no_x (es' @ b)" using es(2) assms(3) by (auto simp: e intro: no_x_digits)
        then show ?thesis using hex_match_no_x by (simp add: 1 e)
      next
        case 2
        have "no_x (es @ b)" using es(2) assms(3) by (rule no_x_digits)
        then show ?thesis using hex_match_no_x by (simp add: 2)
      next
        case 3
        then show ?thesis using False by (auto simp: hex_match_def)
      qed
    qed
    then show ?thesis using d by blast
  next
    case True
    then obtain a2 where a: "a = CHR ''0'' # CHR ''x'' # a2"
      by (cases a; cases "tl a") auto
    show ?thesis
    proof (cases "list_all is_hex a2")
      case True
      have "takeWhile is_hex (a2 @ es @ b) \<noteq> [] \<and> dropWhile is_hex (a2 @ es @ b) = dropWhile is_hex b"
        if "es \<noteq> []" "list_all is_digit es" for es
      proof -
        have "\<forall>c \<in> set (a2 @ es). is_hex c" using True that(2) is_digit_classes(1) by (auto simp: list_all_iff)
        then have "takeWhile is_hex ((a2 @ es) @ b) = (a2 @ es) @ takeWhile is_hex b"
          "dropWhile is_hex ((a2 @ es) @ b) = dropWhile is_hex b"
          by (auto intro: takeWhile_append2 dropWhile_append2)
        then show ?thesis using that(1) by simp
      qed
      then show ?thesis using d by (simp add: a hex_match_def)
    next
      case False
      then obtain c where c: "c \<in> set a2" "\<not> is_hex c" by (auto simp: list_all_iff)
      then have t: "takeWhile is_hex (a2 @ es @ b) = takeWhile is_hex a2"
        "dropWhile is_hex (a2 @ es @ b) = dropWhile is_hex a2 @ es @ b" for es
        by (auto intro: takeWhile_append1 dropWhile_append1)
      obtain e a' where e: "dropWhile is_hex a2 = e # a'" using c by (metis dropWhile_eq_Nil_conv neq_Nil_conv)
      then have "length (e # a') \<le> length a2" by (metis length_dropWhile_le)
      then show ?thesis
        using t by (auto simp: a hex_match_def e)
    qed
  qed
qed

lemma sub_number:
  assumes "digits ds" "digits ds'" "no_x b"
  shows "sub_runs is_digit r f (sub_hex w (a @ ds @ b)) = sub_runs is_digit r f (sub_hex w (a @ ds' @ b))"
proof (induction a arbitrary: f w rule: length_induct)
  case (1 a)
  have ih: "sub_runs is_digit r f (sub_hex w (a' @ ds @ b)) = sub_runs is_digit r f (sub_hex w (a' @ ds' @ b))"
    if "length a' < length a" for a' f w using 1 that by blast
  have d: "ds \<noteq> []" "list_all is_digit ds" "ds' \<noteq> []" "list_all is_digit ds'"
    using assms(1,2) by (auto simp: digits_def)
  show ?case
  proof (cases a)
    case Nil
    then show ?thesis using d assms(3) by (simp add: sub_hex_digits sub_runs_run)
  next
    case (Cons c a2)
    have out: "sub_runs is_digit r f (''0xN'' @ X) = sub_runs is_digit r f (''0xN'' @ Y)"
      if "sub_runs is_digit r False X = sub_runs is_digit r False Y" for X Y
      using that by (simp add: is_digit_def)
    have "sub_runs is_digit r f (sub_hex w (c # a2 @ ds @ b)) = sub_runs is_digit r f (sub_hex w (c # a2 @ ds' @ b))"
      using hex_match_number [OF assms, of w a]
    proof (elim disjE exE conjE)
      assume "hex_match w (a @ ds @ b) = None" "hex_match w (a @ ds' @ b) = None"
      then show ?thesis using ih [of a2] by (simp add: Cons)
    next
      fix rest assume "hex_match w (a @ ds @ b) = Some rest" "hex_match w (a @ ds' @ b) = Some rest"
      then show ?thesis by (simp add: Cons)
    next
      fix a' assume l: "length a' < length a" and "hex_match w (a @ ds @ b) = Some (a' @ ds @ b)"
        "hex_match w (a @ ds' @ b) = Some (a' @ ds' @ b)"
      then show ?thesis using out [OF ih [OF l]] by (simp add: Cons)
    qed
    then show ?thesis by (simp add: Cons)
  qed
qed

lemma signature_number:
  "digits ds \<Longrightarrow> digits ds' \<Longrightarrow> no_x b \<Longrightarrow> signature (a @ ds @ b) = signature (a @ ds' @ b)"
  unfolding signature_def using sub_number [of ds ds' b "CHR ''N''" False False a] by simp

section \<open>Titles fit and tell faults apart\<close>

lemma py_len_append [simp]: "py_len (a @ b) = py_len a + py_len b"
  by (simp add: py_len_def)

lemma py_len_Nil [simp]: "py_len [] = 0"
  by (simp add: py_len_def)

lemma py_len_Cons: "py_len (c # s) = (if utf8_continuation c then 0 else 1) + py_len s"
  by (simp add: py_len_def)

lemma py_len_le: "py_len s \<le> length s"
  by (simp add: py_len_def)

lemma title_suffix_len: "py_len ('' ['' @ signature_digest h t @ '']'') \<le> 11"
  by (simp add: signature_digest_def py_len_take SIGNATURE_DIGEST_CHARS_def py_len_Cons utf8_continuation_def)

lemma alert_title_fits:
  assumes cut: "\<And>t n. py_len (tl_truncate lib t n) \<le> n + py_len (tl_marker lib)"
    and "py_len (title_prefix severity source) + py_len (tl_marker lib) \<le> 242"
  shows "py_len (alert_title lib severity source message) \<le> 255"
proof -
  let ?p = "title_prefix severity source" and ?t = "signature message"
  let ?b = "title_budget (tl_marker lib) ?p"
  let ?s = "'' ['' @ signature_digest (tl_sha256 lib) ?t @ '']''"
  have b: "?b = 254 - int (py_len ?p) - int (py_len (tl_marker lib))"
    by (simp add: title_budget_def TITLE_MAX_def)
  have "nat (max (?b - int (py_len ?s)) 1) + py_len ?s + py_len ?p + py_len (tl_marker lib) \<le> 255"
    using title_suffix_len [of "tl_sha256 lib" ?t] assms(2) unfolding b by linarith
  then have "py_len ?p + py_len (tl_truncate lib ?t (nat (max (?b - int (py_len ?s)) 1))) + py_len ?s \<le> 255"
    using cut [of ?t "nat (max (?b - int (py_len ?s)) 1)"] by linarith
  then show ?thesis
    unfolding alert_title_def Let_def using b by (auto simp: add.assoc)
qed

lemma py_len_prefix:
  "py_len (title_prefix severity source) = py_len severity + py_len source + 9"
  by (simp add: title_prefix_def em_dash_def py_len_Cons utf8_continuation_def)

definition title_cut :: "text_lib \<Rightarrow> string \<Rightarrow> string \<Rightarrow> string \<Rightarrow> bool" where
  "title_cut lib severity source message =
     (title_budget (tl_marker lib) (title_prefix severity source) < int (py_len (signature message)))"

lemma alert_title_inj:
  assumes "alert_title lib severity source m = alert_title lib severity source m'"
    and "title_cut lib severity source m = title_cut lib severity source m'"
    and "\<And>t. length (signature_digest (tl_sha256 lib) t) = SIGNATURE_DIGEST_CHARS"
    and "signature_digest (tl_sha256 lib) (signature m) = signature_digest (tl_sha256 lib) (signature m')
      \<Longrightarrow> signature m = signature m'"
  shows "signature m = signature m'"
proof (cases "title_cut lib severity source m")
  case False
  then show ?thesis using assms(1,2) by (auto simp: alert_title_def title_cut_def Let_def)
next
  case True
  then have "\<exists>c c'. c @ '' ['' @ signature_digest (tl_sha256 lib) (signature m) @ '']''
      = c' @ '' ['' @ signature_digest (tl_sha256 lib) (signature m') @ '']''"
    using assms(1,2) by (auto simp: alert_title_def title_cut_def Let_def)
  then have "signature_digest (tl_sha256 lib) (signature m) = signature_digest (tl_sha256 lib) (signature m')"
    using assms(3) by (auto simp: append_eq_append_conv)
  then show ?thesis by (rule assms(4))
qed

lemma py_take_ascii: "list_all (\<lambda>c. \<not> utf8_continuation c) s \<Longrightarrow> py_take n s = take n s"
  by (induction n s rule: py_take.induct) (auto split: nat.splits)

lemma is_hex_ascii: "is_hex c \<Longrightarrow> \<not> utf8_continuation c"
  by (auto simp: is_hex_def utf8_continuation_def Let_def)

lemma digest_length:
  assumes "list_all is_hex (h t)" "length (h t) = 64"
  shows "length (signature_digest h t) = SIGNATURE_DIGEST_CHARS"
proof -
  have "list_all (\<lambda>c. \<not> utf8_continuation c) (h t)"
    using assms(1) is_hex_ascii by (auto simp: list_all_iff)
  then show ?thesis using assms(2) by (simp add: signature_digest_def py_take_ascii SIGNATURE_DIGEST_CHARS_def)
qed



text \<open>
  The title of a log alert fits its column and is the identity of the fault. It has at most
  255 characters for every source and severity the table can hold; two messages of one source and
  severity, both short enough to be written out or both cut, have the same title exactly when
  they have the same signature, unless the first eight digits of two SHA-256 digests agree.
\<close>

theorem alert_title_identity:
  assumes "\<And>t n. py_len (tl_truncate lib t n) \<le> n + py_len (tl_marker lib)" "py_len (tl_marker lib) \<le> 100"
    "\<And>t. list_all is_hex (tl_sha256 lib t) \<and> length (tl_sha256 lib t) = 64"
    "signature_digest (tl_sha256 lib) (signature m) = signature_digest (tl_sha256 lib) (signature m')
      \<Longrightarrow> signature m = signature m'"
    "py_len source \<le> 100" "py_len severity \<le> 20"
    "title_cut lib severity source m = title_cut lib severity source m'"
  shows "py_len (alert_title lib severity source m) \<le> 255
    \<and> (alert_title lib severity source m = alert_title lib severity source m') = (signature m = signature m')"
proof
  have "py_len (title_prefix severity source) + py_len (tl_marker lib) \<le> 242"
    using assms(2,5,6) by (simp add: py_len_prefix)
  then show "py_len (alert_title lib severity source m) \<le> 255"
    by (rule alert_title_fits [OF assms(1)])
  have dl: "length (signature_digest (tl_sha256 lib) t) = SIGNATURE_DIGEST_CHARS" for t
    by (rule digest_length) (use assms(3) in auto)
  have "signature m = signature m'" if "alert_title lib severity source m = alert_title lib severity source m'"
    using that assms(7) dl assms(4) by (rule alert_title_inj)
  moreover have "alert_title lib severity source m = alert_title lib severity source m'"
    if "signature m = signature m'"
    by (simp add: alert_title_def that)
  ultimately show "(alert_title lib severity source m = alert_title lib severity source m')
      = (signature m = signature m')" by blast
qed

definition sample_lib :: text_lib where
  "sample_lib =
     \<lparr>tl_sha256 = (\<lambda>t. replicate 64 (if t = [] \<or> hd t = CHR ''a'' then CHR ''a'' else CHR ''b'')),
      tl_truncate = (\<lambda>t n. take n t @ ellipsis), tl_marker = ellipsis\<rparr>"

theorem alert_title_identity_witness:
  "py_len (alert_title sample_lib ''error'' ''kernel'' ''a fault 1'') \<le> 255
   \<and> alert_title sample_lib ''error'' ''kernel'' ''a fault 1'' \<noteq> alert_title sample_lib ''error'' ''kernel'' ''b fault 1''"
proof -
  have s: "signature ''a fault 1'' = ''a fault N''" "signature ''b fault 1'' = ''b fault N''" by code_simp+
  have "py_len (take n t) \<le> n" for n t
    using py_len_le [of "take n t"] by simp
  then have 1: "py_len (tl_truncate sample_lib t n) \<le> n + py_len (tl_marker sample_lib)" for t n
    by (simp add: sample_lib_def)
  have 2: "py_len (tl_marker sample_lib) \<le> 100" "py_len ''kernel'' \<le> 100" "py_len ''error'' \<le> 20"
    by code_simp+
  have 3: "list_all is_hex (tl_sha256 sample_lib t) \<and> length (tl_sha256 sample_lib t) = 64" for t
    by (simp add: sample_lib_def list_all_iff is_hex_def)
  have 4: "signature_digest (tl_sha256 sample_lib) (signature ''a fault 1'')
      \<noteq> signature_digest (tl_sha256 sample_lib) (signature ''b fault 1'')"
    unfolding s by code_simp
  have 5: "title_cut sample_lib ''error'' ''kernel'' ''a fault 1'' = title_cut sample_lib ''error'' ''kernel'' ''b fault 1''"
    unfolding title_cut_def s by code_simp
  show ?thesis
    using alert_title_identity [of sample_lib "''a fault 1''" "''b fault 1''" "''kernel''" "''error''"] 1 2 3 4 5
    by (simp add: s)
qed

end
