(* ===== verification/Journal.thy ===== *)
theory Journal
  imports Log_Signature
begin

text \<open>
  Reading the systemd journal: \<open>src/sysadmin/monitor/journal.py\<close>.

  \<^item> What \<open>journalctl\<close> answers to a command line is an argument, and so is \<open>json.loads\<close>.
  \<^item> A record's time stamp in microseconds is the \<^typ>\<open>instant\<close> it names.
  \<^item> A JSON value that the code uses as a text and that is none is read as \<open>str\<close> writes it where
    the code calls \<open>str\<close>.
\<close>

section \<open>Severities\<close>

definition PRIORITY_MAP :: "(nat \<times> string) list" where
  "PRIORITY_MAP =
     [(0, ''critical''), (1, ''critical''), (2, ''critical''), (3, ''error''), (4, ''warning''),
      (5, ''info''), (6, ''info''), (7, ''debug'')]"

definition LOG_SEVERITY_ORDER :: "(string \<times> nat) list" where
  "LOG_SEVERITY_ORDER =
     [(''debug'', 0), (''info'', 1), (''warning'', 2), (''error'', 3), (''critical'', 4)]"

definition log_rank :: "string \<Rightarrow> nat" where
  "log_rank severity = dict_get_or LOG_SEVERITY_ORDER severity 0"

definition max_priority_for :: "string \<Rightarrow> nat" where
  "max_priority_for severity_filter =
     (let admitted = map fst (filter (\<lambda>(code, name). log_rank severity_filter \<le> log_rank name) PRIORITY_MAP)
      in fold max (if admitted \<noteq> [] then admitted else map fst PRIORITY_MAP) 0)"

definition read_ceiling :: "string \<Rightarrow> (string, string) dict \<Rightarrow> nat" where
  "read_ceiling severity_filter declared =
     fold (\<lambda>rung ceiling. max ceiling (max_priority_for rung)) (map snd declared) (max_priority_for severity_filter)"

definition admits :: "string \<Rightarrow> string \<Rightarrow> string \<Rightarrow> (string, string) dict \<Rightarrow> bool" where
  "admits severity severity_filter message declared =
     (if log_rank severity_filter \<le> log_rank severity then True
      else if declared = [] then False
      else signature message \<in> set (map fst declared))"

section \<open>Messages\<close>

text \<open>
  \<open>bytes.decode("utf-8", errors="replace")\<close>: the ranges the bytes after a first byte must lie in;
  a sequence that breaks off is replaced, up to the byte that breaks it, by one U+FFFD.
\<close>

definition utf8_tail :: "nat \<Rightarrow> (nat \<times> nat) list option" where
  "utf8_tail b =
     (let c = (0x80, 0xBF)
      in if b < 0x80 then Some []
         else if 0xC2 \<le> b \<and> b \<le> 0xDF then Some [c]
         else if b = 0xE0 then Some [(0xA0, 0xBF), c]
         else if b = 0xED then Some [(0x80, 0x9F), c]
         else if 0xE1 \<le> b \<and> b \<le> 0xEF then Some [c, c]
         else if b = 0xF0 then Some [(0x90, 0xBF), c, c]
         else if 0xF1 \<le> b \<and> b \<le> 0xF3 then Some [c, c, c]
         else if b = 0xF4 then Some [(0x80, 0x8F), c, c]
         else None)"

fun tail_matched :: "(nat \<times> nat) list \<Rightarrow> nat list \<Rightarrow> nat" where
  "tail_matched ((lo, hi) # rs) (b # bs) = (if lo \<le> b \<and> b \<le> hi then Suc (tail_matched rs bs) else 0)"
| "tail_matched _ _ = 0"

definition replacement_char :: string where
  "replacement_char = [CHR 0xEF, CHR 0xBF, CHR 0xBD]"

function decode_replace :: "nat list \<Rightarrow> string" where
  "decode_replace [] = []"
| "decode_replace (b # bs) =
     (case utf8_tail b of
        None \<Rightarrow> replacement_char @ decode_replace bs
      | Some rs \<Rightarrow>
          (let k = tail_matched rs bs
           in (if k = length rs then map char_of (b # take k bs) else replacement_char)
              @ decode_replace (drop k bs)))"
  by pat_completeness auto
termination by (relation "measure length") auto

text \<open>\<open>bytes(value)\<close>: every element an integer from 0 to 255.\<close>

definition json_byte :: "json \<Rightarrow> nat option" where
  "json_byte j =
     (case j of
        JNum x \<Rightarrow> if of_int \<lfloor>x\<rfloor> = x \<and> 0 \<le> x \<and> x \<le> 255 then Some (nat \<lfloor>x\<rfloor>) else None
      | JBool b \<Rightarrow> Some (if b then 1 else 0)
      | _ \<Rightarrow> None)"

definition message_text :: "json option \<Rightarrow> string" where
  "message_text v =
     (case v of
        Some (JStr s) \<Rightarrow> s
      | Some (JArr xs) \<Rightarrow>
          if list_all (\<lambda>x. json_byte x \<noteq> None) xs then decode_replace (map (the \<circ> json_byte) xs) else []
      | _ \<Rightarrow> [])"

definition unwrap_json_message :: "(string \<Rightarrow> json option) \<Rightarrow> string \<Rightarrow> string \<times> jobj" where
  "unwrap_json_message loads text =
     (if take 1 text \<noteq> ''{'' then (text, [])
      else
        (case loads text of
           Some (JObj payload) \<Rightarrow>
             (case dict_get payload ''message'' of
                Some (JStr m) \<Rightarrow>
                  if m = [] then (text, [])
                  else (m, case dict_get payload ''logger'' of Some (JStr n) \<Rightarrow> [(''logger'', JStr n)] | _ \<Rightarrow> [])
              | _ \<Rightarrow> (text, []))
         | _ \<Rightarrow> (text, [])))"

section \<open>Records\<close>

text \<open>\<open>int(text)\<close>: white space around, a sign, decimal digits.\<close>

fun digits_value :: "int \<Rightarrow> string \<Rightarrow> int option" where
  "digits_value n [] = Some n"
| "digits_value n (c # cs) =
     (if is_digit c then digits_value (10 * n + (of_char c - 48)) cs else None)"

definition py_int_text :: "string \<Rightarrow> int option" where
  "py_int_text s =
     (let t = py_strip s;
          body = (if t \<noteq> [] \<and> (hd t = CHR ''+'' \<or> hd t = CHR ''-'') then tl t else t)
      in if body = [] then None
         else map_option (\<lambda>n. if hd t = CHR ''-'' then - n else n) (digits_value 0 body))"

definition int_of_json :: "json \<Rightarrow> py_error + int" where
  "int_of_json j =
     (case j of
        JNum x \<Rightarrow> Inr (py_trunc x)
      | JBool b \<Rightarrow> Inr (if b then 1 else 0)
      | JStr s \<Rightarrow> (case py_int_text s of None \<Rightarrow> Inl (OtherError ''ValueError'') | Some n \<Rightarrow> Inr n)
      | _ \<Rightarrow> Inl (OtherError ''TypeError''))"

text \<open>\<open>str(value)\<close>, for the lookup in the priority map: only a text or an integer can be a key of it.\<close>

definition priority_severity :: "json \<Rightarrow> string" where
  "priority_severity p =
     (let key = (case p of JStr s \<Rightarrow> s | JNum x \<Rightarrow> (if of_int \<lfloor>x\<rfloor> = x then show_int \<lfloor>x\<rfloor> else []) | _ \<Rightarrow> [])
      in case find (\<lambda>(code, name). show_nat code = key) PRIORITY_MAP of
           None \<Rightarrow> ''info''
         | Some (code, name) \<Rightarrow> name)"

record log_record =
  lg_source :: string
  lg_severity :: string
  lg_message :: string
  lg_logged_at :: instant
  lg_raw_line :: string
  lg_metadata :: jobj

record journal_read =
  jr_entries :: "log_record list"
  jr_cursor :: "string option"
  jr_truncated :: bool

definition STORED_RAW_LINE_CHARS :: nat where
  "STORED_RAW_LINE_CHARS = 32000"

record journal_request =
  rq_unit :: string
  rq_user :: bool
  rq_severity_filter :: string
  rq_limit :: nat
  rq_format :: string
  rq_declared :: "(string, string) dict"

text \<open>What the reads depend on: the clock, the JSON parser of the library, and \<open>journalctl\<close>.\<close>

datatype run_outcome = Timeout | Not_Found | Exited int string

record journal_env =
  jv_now :: instant
  jv_loads :: "string \<Rightarrow> json option"
  jv_journalctl :: "string list \<Rightarrow> run_outcome"

text \<open>
  One line of the reply, after its JSON has been read: the body of the inner \<open>try\<close>. \<^const>\<open>None\<close> is a
  line that is passed over, an \<^const>\<open>Inl\<close> an exception that leaves \<open>read_journal\<close>.
\<close>

definition record_of :: "journal_env \<Rightarrow> journal_request \<Rightarrow> string \<Rightarrow> jobj \<Rightarrow> py_error + log_record option" where
  "record_of env rq line data =
     (let severity = priority_severity (dict_get_or data ''PRIORITY'' (JStr ''6''));
          raw = message_text (dict_get data ''MESSAGE'');
          (message, envelope) = (if rq_format rq = ''json'' then unwrap_json_message (jv_loads env) raw else (raw, []));
          entry = (\<lambda>ts. \<lparr>lg_source = rq_unit rq, lg_severity = severity, lg_message = message, lg_logged_at = ts,
                     lg_raw_line = py_take STORED_RAW_LINE_CHARS line,
                     lg_metadata = dict_merge
                       [(''pid'', dict_get_or data ''_PID'' JNull),
                        (''hostname'', dict_get_or data ''_HOSTNAME'' JNull),
                        (''syslog_identifier'', dict_get_or data ''SYSLOG_IDENTIFIER'' JNull)] envelope\<rparr>)
      in if \<not> admits severity (rq_severity_filter rq) message (rq_declared rq) then Inr None
         else
           (case dict_get data ''__REALTIME_TIMESTAMP'' of
              None \<Rightarrow> Inr (Some (entry (jv_now env)))
            | Some usec \<Rightarrow>
                if \<not> truthy usec then Inr (Some (entry (jv_now env)))
                else (case int_of_json usec of
                        Inr t \<Rightarrow> Inr (Some (entry t))
                      | Inl e \<Rightarrow> if e = OtherError ''ValueError'' then Inr None else Inl e)))"

fun read_lines ::
  "journal_env \<Rightarrow> journal_request \<Rightarrow> string list \<Rightarrow> log_record list \<Rightarrow> string option
     \<Rightarrow> py_error + log_record list \<times> string option" where
  "read_lines env rq [] entries cursor = Inr (entries, cursor)"
| "read_lines env rq (line # lines) entries cursor =
     (case jv_loads env line of
        None \<Rightarrow> read_lines env rq lines entries cursor
      | Some (JObj data) \<Rightarrow>
          (let cursor' = (case get_str data ''__CURSOR'' of None \<Rightarrow> cursor | Some c \<Rightarrow> Some c)
           in case record_of env rq line data of
                Inl e \<Rightarrow> Inl e
              | Inr None \<Rightarrow> read_lines env rq lines entries cursor'
              | Inr (Some r) \<Rightarrow> read_lines env rq lines (entries @ [r]) cursor')
      | Some _ \<Rightarrow> Inl (OtherError ''AttributeError''))"

definition run_journalctl :: "journal_env \<Rightarrow> string list \<Rightarrow> string option" where
  "run_journalctl env cmd =
     (case jv_journalctl env cmd of
        Exited rc out \<Rightarrow> if rc = 0 \<or> rc = 1 then Some out else None
      | _ \<Rightarrow> None)"

definition journal_base :: "journal_request \<Rightarrow> string list" where
  "journal_base rq =
     [''journalctl'']
     @ (if rq_unit rq = ''kernel'' then [''-k'']
        else (if rq_user rq then [''--user''] else []) @ [''-u'', rq_unit rq])
     @ [''-o'', ''json'', ''--no-pager'', ''-a'', ''-n'', show_nat (rq_limit rq),
        ''-p'', show_nat (read_ceiling (rq_severity_filter rq) (rq_declared rq))]"

definition reply_lines :: "string \<Rightarrow> string list" where
  "reply_lines stdout = filter (\<lambda>l. l \<noteq> []) (split_on CHR 0x0A (py_strip stdout))"

text \<open>The reply: from the cursor on, or from the window when there is no cursor or it is stale.\<close>

definition journal_stdout :: "journal_env \<Rightarrow> journal_request \<Rightarrow> string \<Rightarrow> string option \<Rightarrow> string option" where
  "journal_stdout env rq since after_cursor =
     (let resumed = (case after_cursor of
                       None \<Rightarrow> None
                     | Some c \<Rightarrow> if c = [] then None
                                 else run_journalctl env (journal_base rq @ [''--after-cursor'', c]))
      in case resumed of
           Some out \<Rightarrow> Some out
         | None \<Rightarrow> run_journalctl env (journal_base rq @ [''--since'', since]))"

definition read_journal ::
  "journal_env \<Rightarrow> journal_request \<Rightarrow> string \<Rightarrow> string option \<Rightarrow> py_error + journal_read" where
  "read_journal env rq since after_cursor =
     (case journal_stdout env rq since after_cursor of
        None \<Rightarrow> Inr \<lparr>jr_entries = [], jr_cursor = None, jr_truncated = False\<rparr>
      | Some out \<Rightarrow>
          (let lines = reply_lines out
           in case read_lines env rq lines [] None of
                Inl e \<Rightarrow> Inl e
              | Inr (entries, cursor) \<Rightarrow>
                  Inr \<lparr>jr_entries = entries, jr_cursor = cursor, jr_truncated = (rq_limit rq \<le> length lines)\<rparr>))"

text \<open>\<open>since_timestamp\<close> of an aware time: whole seconds, cut towards zero.\<close>

definition since_timestamp :: "instant \<Rightarrow> string" where
  "since_timestamp t = ''@'' @ show_int (py_trunc (total_seconds t))"

section \<open>The ceiling hides nothing\<close>

lemma log_rank_bound: "log_rank s \<le> 4"
  by (auto simp: log_rank_def dict_get_or_def LOG_SEVERITY_ORDER_def)

lemma max_priority_for_rank:
  "max_priority_for f = (case log_rank f of 0 \<Rightarrow> 7 | Suc 0 \<Rightarrow> 6 | Suc (Suc 0) \<Rightarrow> 4 | Suc (Suc (Suc 0)) \<Rightarrow> 3 | _ \<Rightarrow> 2)"
proof -
  have r: "map (log_rank \<circ> snd) PRIORITY_MAP = [4, 4, 4, 3, 2, 1, 1, 0]" by code_simp
  consider "log_rank f = 0" | "log_rank f = 1" | "log_rank f = 2" | "log_rank f = 3" | "log_rank f = 4"
    using log_rank_bound [of f] by linarith
  then show ?thesis
    by cases (use r in \<open>simp_all add: max_priority_for_def PRIORITY_MAP_def Let_def\<close>)
qed

lemma PRIORITY_MAP_cases: "(code, name) \<in> set PRIORITY_MAP \<Longrightarrow>
    code \<le> 2 \<and> log_rank name = 4 \<or> code = 3 \<and> log_rank name = 3 \<or> code = 4 \<and> log_rank name = 2
    \<or> (code = 5 \<or> code = 6) \<and> log_rank name = 1 \<or> code = 7 \<and> log_rank name = 0"
  by (auto simp: PRIORITY_MAP_def log_rank_def dict_get_or_def LOG_SEVERITY_ORDER_def)

lemma max_priority_for_iff:
  assumes "(code, name) \<in> set PRIORITY_MAP"
  shows "code \<le> max_priority_for f \<longleftrightarrow> log_rank f \<le> log_rank name"
proof -
  consider "log_rank f = 0" | "log_rank f = 1" | "log_rank f = 2" | "log_rank f = 3" | "log_rank f = 4"
    using log_rank_bound [of f] by linarith
  then show ?thesis
    by cases (use PRIORITY_MAP_cases [OF assms] in \<open>auto simp: max_priority_for_rank numeral_eq_Suc\<close>)
qed

lemma read_ceiling_ge:
  "max_priority_for f \<le> read_ceiling f d" "rung \<in> set (map snd d) \<Longrightarrow> max_priority_for rung \<le> read_ceiling f d"
proof -
  have "x \<le> fold (\<lambda>rung c. max c (max_priority_for rung)) rs x
      \<and> (rung \<in> set rs \<longrightarrow> max_priority_for rung \<le> fold (\<lambda>rung c. max c (max_priority_for rung)) rs x)" for rs x
    by (induction rs arbitrary: x) (auto intro: order_trans [OF max.cobounded1] order_trans [OF max.cobounded2])
  then show "max_priority_for f \<le> read_ceiling f d"
    "rung \<in> set (map snd d) \<Longrightarrow> max_priority_for rung \<le> read_ceiling f d"
    by (auto simp: read_ceiling_def)
qed

text \<open>
  C30: the priority ceiling passed to \<open>journalctl\<close> hides nothing the Python gate would store: a
  record of any priority that the gate admits, by its severity or because its signature is
  declared for a rung it arrives at or above, is within the ceiling. For a source that declares
  nothing the two agree exactly, so the read budget is spent on no line the gate drops.
\<close>

theorem read_ceiling_complete:
  assumes "(code, severity) \<in> set PRIORITY_MAP"
    "\<forall>rung. dict_get declared (signature message) = Some rung \<longrightarrow> log_rank rung \<le> log_rank severity"
  shows "(admits severity filter_severity message declared \<longrightarrow> code \<le> read_ceiling filter_severity declared)
    \<and> (code \<le> read_ceiling filter_severity []) = admits severity filter_severity message []"
proof
  show "(code \<le> read_ceiling filter_severity []) = admits severity filter_severity message []"
    using max_priority_for_iff [OF assms(1)] by (simp add: read_ceiling_def admits_def)
  show "admits severity filter_severity message declared \<longrightarrow> code \<le> read_ceiling filter_severity declared"
  proof
    assume adm: "admits severity filter_severity message declared"
    show "code \<le> read_ceiling filter_severity declared"
    proof (cases "log_rank filter_severity \<le> log_rank severity")
      case True
      then have "code \<le> max_priority_for filter_severity" using max_priority_for_iff [OF assms(1)] by simp
      then show ?thesis using read_ceiling_ge(1) order_trans by blast
    next
      case False
      with adm obtain rung where r: "dict_get declared (signature message) = Some rung"
        by (auto simp: admits_def dict_get_def map_of_eq_None_iff split: if_splits dest: weak_map_of_SomeI)
      then have "code \<le> max_priority_for rung" using assms max_priority_for_iff by blast
      moreover have "rung \<in> set (map snd declared)" using r by (force simp: dict_get_def dest: map_of_SomeD)
      ultimately show ?thesis using read_ceiling_ge(2) order_trans by blast
    qed
  qed
qed

theorem read_ceiling_complete_witness:
  "(6::nat) \<le> read_ceiling ''error'' [(''GPU reset N'', ''info'')]
   \<and> \<not> 6 \<le> read_ceiling ''error'' []"
proof -
  have c: "(6, ''info'') \<in> set PRIORITY_MAP" by (simp add: PRIORITY_MAP_def)
  have s: "signature ''GPU reset 3'' = ''GPU reset N''" by code_simp
  have "log_rank rung \<le> log_rank ''info''"
    if "dict_get [(''GPU reset N'', ''info'')] (signature ''GPU reset 3'') = Some rung" for rung
    using that by (simp add: s dict_get_def)
  moreover have "admits ''info'' ''error'' ''GPU reset 3'' [(''GPU reset N'', ''info'')]"
    by (simp add: admits_def s)
  moreover have "\<not> admits ''info'' ''error'' ''GPU reset 3'' []" by code_simp
  ultimately show ?thesis
    using read_ceiling_complete [OF c, of "[(''GPU reset N'', ''info'')]" "''GPU reset 3''" "''error''"] by blast
qed

end
