(* ===== verification/Log_Incidents.thy ===== *)
theory Log_Incidents
  imports Log_Signature Escalation "HOL-Library.Multiset"
begin

text \<open>
  Faults found in the logs of one poll and the incidents they form: \<open>correlate\<close> of
  \<open>src/sysadmin/monitor/log_actions.py\<close> and \<open>fold_declared_incidents\<close> of
  \<open>src/sysadmin/monitor/log_aggregator.py\<close>.

  \<^item> A fault is the dict the aggregator keeps per title, as a record; the dict of all faults is an
    association list from titles.
  \<^item> A lookup of a title that is not there would be a \<open>KeyError\<close>; it is \<^const>\<open>None\<close> here, and it is
    proved not to happen.
\<close>

section \<open>Faults\<close>

record critical_signature =
  cs_title :: string
  cs_reason :: string
  cs_arrives_at :: string
  cs_opens_at :: string

record member =
  mb_source :: string
  mb_signature :: string
  mb_alert_title :: string
  mb_occurrences :: nat

record fault =
  flt_title :: string
  flt_first_logged_at :: instant
  flt_members :: "member list"
  flt_severity :: string
  flt_declared :: "critical_signature option"
  flt_source :: string
  flt_message :: string
  flt_count :: nat
  flt_signature :: string
  flt_noise_reason :: "string option"
  flt_covered_by :: "string option"

definition member_of :: "fault \<Rightarrow> member" where
  "member_of f =
     \<lparr>mb_source = flt_source f, mb_signature = flt_signature f, mb_alert_title = flt_title f,
      mb_occurrences = flt_count f\<rparr>"

record fault_moment =
  fm_title :: string
  fm_source :: string
  fm_signature :: string
  fm_first_seen :: instant

section \<open>Correlation\<close>

text \<open>
  The inner loop: the members the anchor claims among the items not yet claimed, which are in
  order of time, and the items that stay. The loop stops at the first item beyond the window.
\<close>

fun claim :: "rat \<Rightarrow> string list \<Rightarrow> fault_moment \<Rightarrow> fault_moment list \<Rightarrow> fault_moment list \<times> fault_moment list" where
  "claim window neighbours anchor [] = ([], [])"
| "claim window neighbours anchor (x # xs) =
     (if window < total_seconds (fm_first_seen x - fm_first_seen anchor) then ([], x # xs)
      else
        (case claim window neighbours anchor xs of
           (grp, rest) \<Rightarrow>
             if fm_source x = fm_source anchor \<or> fm_source x \<in> set neighbours then (x # grp, rest)
             else (grp, x # rest)))"

lemma claim_length: "claim w ns a xs = (g, r) \<Longrightarrow> length g + length r = length xs"
  by (induction xs arbitrary: g r) (auto split: if_splits prod.splits)

function correlate_from :: "rat \<Rightarrow> (string, string list) dict \<Rightarrow> fault_moment list \<Rightarrow> fault_moment list list" where
  "correlate_from window related [] = []"
| "correlate_from window related (anchor # xs) =
     (case claim window (dict_get_or related (fm_source anchor) []) anchor xs of
        (grp, rest) \<Rightarrow> (anchor # grp) # correlate_from window related rest)"
  by pat_completeness auto
termination
  by (relation "measure (\<lambda>(w, d, xs). length xs)") (auto dest!: claim_length [OF sym])

definition correlate :: "fault_moment list \<Rightarrow> (string, string list) dict \<Rightarrow> rat \<Rightarrow> fault_moment list list" where
  "correlate items related window =
     correlate_from window related (sort_key (\<lambda>i. (fm_first_seen i, fm_source i, fm_signature i)) items)"

section \<open>Folding\<close>

definition ALERT_INCIDENT_WINDOW_SECONDS :: rat where
  "ALERT_INCIDENT_WINDOW_SECONDS = 59 / 10"

type_synonym faults = "(string, fault) dict"

text \<open>The moments of a group that may name its row: the declared ones at their quietest rung.\<close>

definition quietest_declared :: "fault_moment list \<Rightarrow> faults \<Rightarrow> fault_moment list option" where
  "quietest_declared grp folded =
     (let declared = filter (\<lambda>m. case dict_get folded (fm_title m) of None \<Rightarrow> False | Some f \<Rightarrow> flt_declared f \<noteq> None) grp
      in map_option (\<lambda>rungs. map fst (filter (\<lambda>(m, rung). \<not> list_ex (\<lambda>other. is_louder_than rung other) rungs)
                                        (zip declared rungs)))
           (those (map (\<lambda>m. map_option flt_severity (dict_get folded (fm_title m))) declared)))"

definition swallow :: "fault_moment \<Rightarrow> fault_moment list \<Rightarrow> faults \<Rightarrow> faults option" where
  "swallow d grp folded =
     (case dict_get folded (fm_title d) of
        None \<Rightarrow> None
      | Some anchor \<Rightarrow>
          map_option (\<lambda>siblings.
              (let swallowed = filter (\<lambda>f. \<not> is_louder_than (flt_severity f) (flt_severity anchor)) siblings
               in if swallowed = [] then folded
                  else fold (\<lambda>f. dict_del (flt_title f)) swallowed
                         (dict_set (fm_title d)
                            (anchor\<lparr>flt_members := flt_members anchor @ map member_of swallowed\<rparr>) folded)))
            (those (map (\<lambda>m. dict_get folded (fm_title m)) (filter (\<lambda>m. fm_title m \<noteq> fm_title d) grp))))"

definition fold_group :: "fault_moment list \<Rightarrow> faults \<Rightarrow> faults option" where
  "fold_group grp folded =
     (if length grp < 2 then Some folded
      else
        (case quietest_declared grp folded of
           None \<Rightarrow> None
         | Some [d] \<Rightarrow> swallow d grp folded
         | Some _ \<Rightarrow> Some folded))"

fun fold_groups :: "fault_moment list list \<Rightarrow> faults \<Rightarrow> faults option" where
  "fold_groups [] folded = Some folded"
| "fold_groups (g # gs) folded =
     (case fold_group g folded of None \<Rightarrow> None | Some folded' \<Rightarrow> fold_groups gs folded')"

definition moment_of :: "string \<times> fault \<Rightarrow> fault_moment" where
  "moment_of = (\<lambda>(title, f). \<lparr>fm_title = title, fm_source = flt_source f, fm_signature = flt_signature f,
                  fm_first_seen = flt_first_logged_at f\<rparr>)"

definition fold_declared_incidents :: "faults \<Rightarrow> (string, string list) dict \<Rightarrow> faults option" where
  "fold_declared_incidents faults related =
     fold_groups (correlate (map moment_of faults) related ALERT_INCIDENT_WINDOW_SECONDS) faults"

section \<open>What correlation promises\<close>

definition in_time :: "fault_moment list \<Rightarrow> bool" where
  "in_time = sorted_wrt (\<lambda>x y. fm_first_seen x \<le> fm_first_seen y)"

lemma claim_spec:
  assumes "claim w ns a xs = (g, r)"
  shows "mset xs = mset g + mset r
    \<and> (\<forall>x \<in> set g. total_seconds (fm_first_seen x - fm_first_seen a) \<le> w
          \<and> (fm_source x = fm_source a \<or> fm_source x \<in> set ns))
    \<and> (in_time xs \<longrightarrow> in_time r)"
  using assms
proof (induction xs arbitrary: g r)
  case (Cons x xs)
  show ?case
  proof (cases "w < total_seconds (fm_first_seen x - fm_first_seen a)")
    case True
    then show ?thesis using Cons.prems by auto
  next
    case False
    obtain g1 r1 where c: "claim w ns a xs = (g1, r1)" by fastforce
    note ih = Cons.IH [OF c]
    have sub: "set r1 \<subseteq> set xs" using ih by (metis Un_iff set_mset_mset set_mset_union subsetI)
    show ?thesis
      using Cons.prems False ih sub by (auto simp: c in_time_def subset_iff split: if_splits)
  qed
qed (auto simp: in_time_def)

definition one_incident :: "rat \<Rightarrow> fault_moment list \<Rightarrow> bool" where
  "one_incident w g =
     (\<forall>x \<in> set g. 0 \<le> total_seconds (fm_first_seen x - fm_first_seen (hd g))
        \<and> total_seconds (fm_first_seen x - fm_first_seen (hd g)) \<le> w)"

lemma correlate_from_spec:
  assumes "in_time xs" "0 \<le> w"
  shows "mset (concat (correlate_from w related xs)) = mset xs
    \<and> (\<forall>g \<in> set (correlate_from w related xs). one_incident w g)"
  using assms
proof (induction w related xs rule: correlate_from.induct)
  case (2 w related a xs)
  obtain g r where c: "claim w (dict_get_or related (fm_source a) []) a xs = (g, r)" by fastforce
  note cs = claim_spec [OF c]
  have "in_time r" using 2(2) cs by (simp add: in_time_def)
  note ih = 2(1) [OF c [symmetric] this 2(3)]
  have sub: "set g \<subseteq> set xs" using cs by (metis Un_iff set_mset_mset set_mset_union subsetI)
  then have "one_incident w (a # g)"
    using 2(2,3) cs by (auto simp: one_incident_def total_seconds_def in_time_def)
  then show ?case using ih cs by (simp add: c ac_simps)
qed auto

lemma correlate_spec:
  assumes "0 \<le> w"
  shows "mset (concat (correlate items related w)) = mset items
    \<and> (\<forall>g \<in> set (correlate items related w). one_incident w g)"
proof -
  let ?k = "\<lambda>i. (fm_first_seen i, fm_source i, fm_signature i)"
  have "sorted_wrt (\<lambda>x y. ?k x \<le> ?k y) (sort_key ?k items)"
    using sorted_sort_key [of ?k items] by (simp add: sorted_map)
  then have "in_time (sort_key ?k items)"
    unfolding in_time_def by (rule sorted_wrt_mono_rel [rotated]) (auto simp: less_eq_prod_def)
  from correlate_from_spec [OF this assms, of related] show ?thesis
    by (simp add: correlate_def)
qed

section \<open>What folding promises\<close>

text \<open>A fault of the poll after the fold: still there, or a named member of one that is no quieter.\<close>

definition absorbed :: "rat \<Rightarrow> faults \<Rightarrow> faults \<Rightarrow> fault \<Rightarrow> string \<Rightarrow> bool" where
  "absorbed w old new f title =
     (\<exists>h g. dict_get old title = Some h \<and> dict_get new title = Some g
        \<and> g = h\<lparr>flt_members := flt_members g\<rparr> \<and> flt_declared g \<noteq> None
        \<and> member_of f \<in> set (flt_members g)
        \<and> \<not> is_louder_than (flt_severity f) (flt_severity g)
        \<and> \<bar>total_seconds (flt_first_logged_at f - flt_first_logged_at g)\<bar> \<le> w)"

definition settled :: "rat \<Rightarrow> faults \<Rightarrow> faults \<Rightarrow> string set \<Rightarrow> string \<Rightarrow> bool" where
  "settled w old new ts t =
     (\<exists>f. dict_get old t = Some f \<and>
        ((\<exists>ms. dict_get new t = Some (f\<lparr>flt_members := flt_members f @ ms\<rparr>))
         \<or> dict_get new t = None \<and> (\<exists>title \<in> ts. absorbed w old new f title)))"

lemma settled_frame:
  assumes "settled w old new ts t" "t \<in> ts"
    "\<And>x. x \<in> ts \<Longrightarrow> dict_get old' x = dict_get old x" "\<And>x. x \<in> ts \<Longrightarrow> dict_get new' x = dict_get new x"
    "ts \<subseteq> ts'"
  shows "settled w old' new' ts' t"
  using assms unfolding settled_def absorbed_def by (metis subsetD)

definition matches :: "faults \<Rightarrow> fault_moment \<Rightarrow> bool" where
  "matches d m = (\<exists>f. dict_get d (fm_title m) = Some f \<and> flt_title f = fm_title m
      \<and> flt_first_logged_at f = fm_first_seen m)"

lemma dict_get_fold_del:
  "dict_get (fold (\<lambda>f. dict_del (flt_title f)) fs d) t
     = (if t \<in> flt_title ` set fs then None else dict_get d t)"
  by (induction fs arbitrary: d) auto

lemma dict_wf_fold_del: "dict_wf d \<Longrightarrow> dict_wf (fold (\<lambda>f. dict_del (flt_title f)) fs d)"
  by (induction fs arbitrary: d) auto

lemma those_Some_iff: "those xs = Some ys \<longleftrightarrow> xs = map Some ys"
  by (induction xs arbitrary: ys) (auto split: option.splits)

lemma settled_same: "dict_get d t = Some f \<Longrightarrow> settled w d d ts t"
proof -
  assume "dict_get d t = Some f"
  moreover have "f = f\<lparr>flt_members := flt_members f @ []\<rparr>" by simp
  ultimately show ?thesis unfolding settled_def by metis
qed

lemma quietest_declared_total:
  assumes "\<forall>m \<in> set grp. matches d m"
  shows "\<exists>names. quietest_declared grp d = Some names
    \<and> (\<forall>a \<in> set names. a \<in> set grp \<and> flt_declared (the (dict_get d (fm_title a))) \<noteq> None)"
proof -
  let ?decl = "filter (\<lambda>m. case dict_get d (fm_title m) of None \<Rightarrow> False | Some f \<Rightarrow> flt_declared f \<noteq> None) grp"
  have "\<forall>m \<in> set ?decl. map_option flt_severity (dict_get d (fm_title m)) \<noteq> None"
    by (auto split: option.splits)
  from those_total [OF this] show ?thesis
    by (auto simp: quietest_declared_def Let_def dest!: set_zip_leftD split: option.splits)
qed

text \<open>What becomes of the dict when the moment \<open>a\<close> swallows its group.\<close>

lemma swallow_effect:
  assumes ok: "\<forall>m \<in> set grp. matches d m" and a: "a \<in> set grp"
  defines "f \<equiv> \<lambda>m. the (dict_get d (fm_title m))"
  obtains sw d' where
    "swallow a grp d = Some d'" "dict_wf d \<Longrightarrow> dict_wf d'"
    "\<And>x. x \<in> set sw \<longleftrightarrow> (\<exists>m \<in> set grp. x = f m \<and> fm_title m \<noteq> fm_title a
        \<and> \<not> is_louder_than (flt_severity x) (flt_severity (f a)))"
    "\<And>t. dict_get d' t = (if t \<in> flt_title ` set sw then None
        else if t = fm_title a then Some ((f a)\<lparr>flt_members := flt_members (f a) @ map member_of sw\<rparr>)
        else dict_get d t)"
proof -
  let ?sibs = "map f (filter (\<lambda>m. fm_title m \<noteq> fm_title a) grp)"
  let ?sw = "filter (\<lambda>x. \<not> is_louder_than (flt_severity x) (flt_severity (f a))) ?sibs"
  let ?g = "(f a)\<lparr>flt_members := flt_members (f a) @ map member_of ?sw\<rparr>"
  let ?d' = "if ?sw = [] then d else fold (\<lambda>x. dict_del (flt_title x)) ?sw (dict_set (fm_title a) ?g d)"
  have get: "dict_get d (fm_title m) = Some (f m)" if "m \<in> set grp" for m
    using ok that by (auto simp: matches_def f_def)
  have s: "those (map (\<lambda>m. dict_get d (fm_title m)) (filter (\<lambda>m. fm_title m \<noteq> fm_title a) grp)) = Some ?sibs"
    unfolding those_Some_iff using get by auto
  have "swallow a grp d = Some ?d'"
    unfolding swallow_def get [OF a] s by (simp add: Let_def)
  moreover have "dict_wf d \<Longrightarrow> dict_wf ?d'" by (simp add: dict_wf_fold_del)
  moreover have "x \<in> set ?sw \<longleftrightarrow> (\<exists>m \<in> set grp. x = f m \<and> fm_title m \<noteq> fm_title a
        \<and> \<not> is_louder_than (flt_severity x) (flt_severity (f a)))" for x
    by auto
  moreover have "dict_get ?d' t = (if t \<in> flt_title ` set ?sw then None
        else if t = fm_title a then Some ?g else dict_get d t)" for t
  proof (cases "?sw = []")
    case True
    then have "?g = f a" by simp
    then show ?thesis unfolding if_P [OF True] using get [OF a] by (simp only: True) simp
  next
    case False
    then show ?thesis unfolding if_not_P [OF False] dict_get_fold_del by simp
  qed
  ultimately show ?thesis by (rule that)
qed

lemma one_incident_gap:
  assumes "one_incident w grp" "m \<in> set grp" "n \<in> set grp"
  shows "\<bar>total_seconds (fm_first_seen m - fm_first_seen n)\<bar> \<le> w"
proof -
  let ?h = "fm_first_seen (hd grp)"
  have "total_seconds (fm_first_seen m - fm_first_seen n)
      = total_seconds (fm_first_seen m - ?h) - total_seconds (fm_first_seen n - ?h)"
    by (simp add: total_seconds_def field_simps)
  moreover have "0 \<le> total_seconds (fm_first_seen x - ?h) \<and> total_seconds (fm_first_seen x - ?h) \<le> w"
    if "x \<in> set grp" for x using assms(1) that by (simp add: one_incident_def)
  from this [OF assms(2)] this [OF assms(3)] have "0 \<le> total_seconds (fm_first_seen m - ?h)"
    "total_seconds (fm_first_seen m - ?h) \<le> w" "0 \<le> total_seconds (fm_first_seen n - ?h)"
    "total_seconds (fm_first_seen n - ?h) \<le> w" by auto
  ultimately show ?thesis by linarith
qed

lemma swallow_settles:
  assumes ok: "\<forall>m \<in> set grp. matches d m" and a: "a \<in> set grp"
    and decl: "flt_declared (the (dict_get d (fm_title a))) \<noteq> None" and w: "one_incident w grp" and "dict_wf d"
  shows "\<exists>d'. swallow a grp d = Some d' \<and> dict_wf d'
    \<and> (\<forall>t. t \<notin> fm_title ` set grp \<longrightarrow> dict_get d' t = dict_get d t)
    \<and> (\<forall>t \<in> fm_title ` set grp. settled w d d' (fm_title ` set grp) t)"
proof -
  let ?f = "\<lambda>m. the (dict_get d (fm_title m))"
  have get: "dict_get d (fm_title m) = Some (?f m)" "flt_title (?f m) = fm_title m"
    "flt_first_logged_at (?f m) = fm_first_seen m" if "m \<in> set grp" for m
    using ok that by (auto simp: matches_def)
  obtain sw d' where d': "swallow a grp d = Some d'" "dict_wf d \<Longrightarrow> dict_wf d'"
    and sw: "\<And>x. x \<in> set sw \<longleftrightarrow> (\<exists>m \<in> set grp. x = ?f m \<and> fm_title m \<noteq> fm_title a
        \<and> \<not> is_louder_than (flt_severity x) (flt_severity (?f a)))"
    and new: "\<And>t. dict_get d' t = (if t \<in> flt_title ` set sw then None
        else if t = fm_title a then Some ((?f a)\<lparr>flt_members := flt_members (?f a) @ map member_of sw\<rparr>)
        else dict_get d t)"
    by (rule swallow_effect [OF ok a]) (rule that; assumption)
  have in_grp: "\<exists>m \<in> set grp. t = fm_title m \<and> fm_title m \<noteq> fm_title a \<and> ?f m \<in> set sw"
    if t: "t \<in> flt_title ` set sw" for t
  proof -
    obtain x where x: "x \<in> set sw" "t = flt_title x" using t by blast
    then obtain m where m: "m \<in> set grp" "x = ?f m" "fm_title m \<noteq> fm_title a" using sw by blast
    then show ?thesis using x get(2) [OF m(1)] by auto
  qed
  have not_a: "fm_title a \<notin> flt_title ` set sw"
  proof
    assume "fm_title a \<in> flt_title ` set sw"
    from in_grp [OF this] show False by auto
  qed
  have frame: "dict_get d' t = dict_get d t" if "t \<notin> fm_title ` set grp" for t
  proof -
    have "t \<noteq> fm_title a" "t \<notin> flt_title ` set sw" using that a in_grp [of t] by auto
    then show ?thesis unfolding new by simp
  qed
  have "settled w d d' (fm_title ` set grp) (fm_title m)" if m: "m \<in> set grp" for m
  proof (cases "fm_title m \<in> flt_title ` set sw")
    case True
    obtain n where n: "n \<in> set grp" "fm_title m = fm_title n" "?f n \<in> set sw" using in_grp [OF True] by auto
    have x: "?f m \<in> set sw" "\<not> is_louder_than (flt_severity (?f m)) (flt_severity (?f a))"
      using n sw [of "?f n"] by auto
    let ?g = "(?f a)\<lparr>flt_members := flt_members (?f a) @ map member_of sw\<rparr>"
    have "dict_get d' (fm_title a) = Some ?g" unfolding new using not_a by simp
    moreover have "member_of (?f m) \<in> set (flt_members ?g)" using x(1) by simp
    moreover have "\<bar>total_seconds (flt_first_logged_at (?f m) - flt_first_logged_at ?g)\<bar> \<le> w"
      using get(3) [OF a] get(3) [OF m] one_incident_gap [OF w m a] by simp
    ultimately have "absorbed w d d' (?f m) (fm_title a)"
      unfolding absorbed_def using get(1) [OF a] decl x(2)
      by (intro exI [of _ "?f a"] exI [of _ ?g]) simp
    moreover have "dict_get d' (fm_title m) = None" unfolding new using True by simp
    ultimately show ?thesis using get(1) [OF m] a unfolding settled_def by blast
  next
    case False
    show ?thesis
    proof (cases "fm_title m = fm_title a")
      case True
      then have "dict_get d' (fm_title m) = Some ((?f m)\<lparr>flt_members := flt_members (?f m) @ map member_of sw\<rparr>)"
        unfolding new using not_a by simp
      then show ?thesis using get(1) [OF m] unfolding settled_def by blast
    next
      case ne: False
      have "dict_get d' (fm_title m) = Some ((?f m)\<lparr>flt_members := flt_members (?f m) @ []\<rparr>)"
        unfolding new using get(1) [OF m] False ne by simp
      then show ?thesis using get(1) [OF m] unfolding settled_def by blast
    qed
  qed
  then show ?thesis using d' frame assms(5) by blast
qed

lemma fold_group_settles:
  assumes ok: "\<forall>m \<in> set grp. matches d m" and "dict_wf d" "one_incident w grp"
  shows "\<exists>d'. fold_group grp d = Some d' \<and> dict_wf d'
    \<and> (\<forall>t. t \<notin> fm_title ` set grp \<longrightarrow> dict_get d' t = dict_get d t)
    \<and> (\<forall>t \<in> fm_title ` set grp. settled w d d' (fm_title ` set grp) t)"
proof -
  obtain names where n: "quietest_declared grp d = Some names"
    "\<forall>a \<in> set names. a \<in> set grp \<and> flt_declared (the (dict_get d (fm_title a))) \<noteq> None"
    using quietest_declared_total [OF ok] by blast
  show ?thesis
  proof (cases "2 \<le> length grp \<and> length names = 1")
    case True
    then obtain a where a: "names = [a]" by (metis One_nat_def length_0_conv length_Suc_conv)
    then have "fold_group grp d = swallow a grp d" using True n(1) by (simp add: fold_group_def)
    then show ?thesis using swallow_settles [OF ok _ _ assms(3,2), of a] n(2) a by simp
  next
    case False
    then have "fold_group grp d = Some d" using n(1) by (auto simp: fold_group_def split: list.splits)
    then show ?thesis using assms(2) ok settled_same unfolding matches_def by fastforce
  qed
qed

lemma fold_groups_settle:
  assumes "\<forall>grp \<in> set gs. \<forall>m \<in> set grp. matches d m" "\<forall>grp \<in> set gs. one_incident w grp" "dict_wf d"
    "distinct (map fm_title (concat gs))"
  shows "\<exists>d'. fold_groups gs d = Some d' \<and> dict_wf d'
    \<and> (\<forall>t. t \<notin> fm_title ` set (concat gs) \<longrightarrow> dict_get d' t = dict_get d t)
    \<and> (\<forall>t \<in> fm_title ` set (concat gs). settled w d d' (fm_title ` set (concat gs)) t)"
  using assms
proof (induction gs arbitrary: d)
  case (Cons g gs)
  let ?G = "fm_title ` set g" and ?R = "fm_title ` set (concat gs)"
  obtain d1 where d1: "fold_group g d = Some d1" "dict_wf d1"
    "\<forall>t. t \<notin> ?G \<longrightarrow> dict_get d1 t = dict_get d t" "\<forall>t \<in> ?G. settled w d d1 ?G t"
    using fold_group_settles [of g d w] Cons.prems by auto
  have disj: "t \<notin> ?G" if "t \<in> ?R" for t
    using Cons.prems(4) that by auto
  have "matches d1 m" if "grp \<in> set gs" "m \<in> set grp" for grp m
  proof -
    have "fm_title m \<in> ?R" using that by auto
    then have "dict_get d1 (fm_title m) = dict_get d (fm_title m)" using d1(3) disj by blast
    then show ?thesis using Cons.prems(1) that by (auto simp: matches_def)
  qed
  then obtain d2 where d2: "fold_groups gs d1 = Some d2" "dict_wf d2"
    "\<forall>t. t \<notin> ?R \<longrightarrow> dict_get d2 t = dict_get d1 t" "\<forall>t \<in> ?R. settled w d1 d2 ?R t"
    using Cons.IH [of d1] Cons.prems d1(2) by auto
  have "settled w d d2 (?G \<union> ?R) t" if "t \<in> ?G" for t
    by (rule settled_frame [OF d1(4) [rule_format, OF that] that]) (use d2(3) disj in auto)
  moreover have "settled w d d2 (?G \<union> ?R) t" if "t \<in> ?R" for t
    by (rule settled_frame [OF d2(4) [rule_format, OF that] that]) (use d1(3) disj in auto)
  ultimately have all: "\<forall>t \<in> ?G \<union> ?R. settled w d d2 (?G \<union> ?R) t" by blast
  have frame: "\<forall>t. t \<notin> ?G \<union> ?R \<longrightarrow> dict_get d2 t = dict_get d t" using d1(3) d2(3) by simp
  have "fold_groups (g # gs) d = Some d2" using d1(1) d2(1) by simp
  moreover have "fm_title ` set (concat (g # gs)) = ?G \<union> ?R" by auto
  ultimately show ?case using all frame d2(2) by metis
qed simp

definition faults_wf :: "faults \<Rightarrow> bool" where
  "faults_wf d = (dict_wf d \<and> list_all (\<lambda>(t, f). flt_title f = t) d)"

lemma fold_settles:
  assumes "faults_wf faults"
  shows "\<exists>folded. fold_declared_incidents faults related = Some folded \<and> dict_wf folded
    \<and> (\<forall>t f. dict_get faults t = Some f \<longrightarrow>
          (\<exists>ms. dict_get folded t = Some (f\<lparr>flt_members := flt_members f @ ms\<rparr>))
          \<or> dict_get folded t = None
            \<and> (\<exists>title. absorbed ALERT_INCIDENT_WINDOW_SECONDS faults folded f title))
    \<and> (\<forall>t. dict_get folded t \<noteq> None \<longrightarrow> dict_get faults t \<noteq> None)"
proof -
  let ?w = ALERT_INCIDENT_WINDOW_SECONDS
  let ?gs = "correlate (map moment_of faults) related ?w"
  have w: "0 \<le> ?w" by (simp add: ALERT_INCIDENT_WINDOW_SECONDS_def)
  note c = correlate_spec [OF w, of "map moment_of faults" related]
  have mem: "set (concat ?gs) = set (map moment_of faults)"
    using c by (metis set_mset_mset)
  have titles: "map fm_title (map moment_of faults) = map fst faults"
    by (auto simp: moment_of_def)
  have "mset (map fm_title (concat ?gs)) = mset (map fst faults)"
    using c by (metis mset_map titles)
  then have "distinct (map fm_title (concat ?gs)) = distinct (map fst faults)"
    by (rule mset_eq_imp_distinct_iff)
  then have dist: "distinct (map fm_title (concat ?gs))"
    using assms by (simp add: faults_wf_def dict_wf_def)
  have ts: "fm_title ` set (concat ?gs) = fst ` set faults"
    unfolding mem using arg_cong [OF titles, of set] by (simp add: image_image)
  have "matches faults m" if m: "m \<in> set (map moment_of faults)" for m
  proof -
    obtain t f where tf: "(t, f) \<in> set faults" "m = moment_of (t, f)" using m by auto
    then have "dict_get faults t = Some f" using assms by (auto simp: faults_wf_def dict_wf_def dict_get_def)
    moreover have "flt_title f = t" using assms tf(1) by (auto simp: faults_wf_def list_all_iff)
    ultimately show ?thesis using tf(2) by (simp add: matches_def moment_of_def)
  qed
  then have "\<forall>grp \<in> set ?gs. \<forall>m \<in> set grp. matches faults m" using mem by (metis UN_I set_concat)
  then obtain d' where d': "fold_groups ?gs faults = Some d'" "dict_wf d'"
    "\<forall>t. t \<notin> fst ` set faults \<longrightarrow> dict_get d' t = dict_get faults t"
    "\<forall>t \<in> fst ` set faults. settled ?w faults d' (fst ` set faults) t"
    using fold_groups_settle [of ?gs faults ?w] c dist assms unfolding ts by (auto simp: faults_wf_def)
  have none: "dict_get faults t = None \<longleftrightarrow> t \<notin> fst ` set faults" for t
    by (simp add: dict_get_def map_of_eq_None_iff)
  then have "(\<exists>ms. dict_get d' t = Some (f\<lparr>flt_members := flt_members f @ ms\<rparr>))
      \<or> dict_get d' t = None \<and> (\<exists>title. absorbed ?w faults d' f title)"
    if "dict_get faults t = Some f" for t f
    using d'(4) that unfolding settled_def by (metis option.distinct(1) option.inject)
  moreover have "dict_get faults t \<noteq> None" if "dict_get d' t \<noteq> None" for t
    using that d'(3) none by metis
  ultimately show ?thesis using d'(1,2) unfolding fold_declared_incidents_def by blast
qed

text \<open>
  C28: folding an incident into its declared row loses nothing and quietens nothing. Every fault of
  the poll either still has its own row, unchanged but for the members it gained, or is named as
  a member of the row of a declared fault that is at least as loud and was first logged within
  the incident window of it; every remaining row is the row of a fault of the poll; and the fold
  never fails on a missing title.
\<close>

theorem fold_never_quietens:
  assumes "faults_wf faults"
  shows "\<exists>folded. fold_declared_incidents faults related = Some folded \<and> dict_wf folded
    \<and> (\<forall>t f. dict_get faults t = Some f \<longrightarrow>
          (\<exists>ms. dict_get folded t = Some (f\<lparr>flt_members := flt_members f @ ms\<rparr>))
          \<or> dict_get folded t = None
            \<and> (\<exists>title. absorbed ALERT_INCIDENT_WINDOW_SECONDS faults folded f title))
    \<and> (\<forall>t. dict_get folded t \<noteq> None \<longrightarrow> dict_get faults t \<noteq> None)"
  by (rule fold_settles [OF assms])

definition sample_fault :: "string \<Rightarrow> critical_signature option \<Rightarrow> instant \<Rightarrow> fault" where
  "sample_fault title declared at_time =
     \<lparr>flt_title = title, flt_first_logged_at = at_time, flt_members = [], flt_severity = ''warning'',
      flt_declared = declared, flt_source = ''kernel'', flt_message = title, flt_count = 1, flt_signature = title,
      flt_noise_reason = None, flt_covered_by = None\<rparr>"

definition sample_faults :: faults where
  "sample_faults =
     [(''ring timeout'', sample_fault ''ring timeout'' None 1000000),
      (''GPU was reset'', sample_fault ''GPU was reset''
         (Some \<lparr>cs_title = ''GPU was reset'', cs_reason = ''reset'', cs_arrives_at = ''info'', cs_opens_at = ''warning''\<rparr>)
         5960000)]"

theorem fold_never_quietens_witness:
  "\<exists>folded. fold_declared_incidents sample_faults [] = Some folded
     \<and> map fst folded = [''GPU was reset'']
     \<and> (\<exists>title. absorbed ALERT_INCIDENT_WINDOW_SECONDS sample_faults folded (sample_fault ''ring timeout'' None 1000000) title)"
proof -
  have wf: "faults_wf sample_faults" by code_simp
  have g: "dict_get sample_faults ''ring timeout'' = Some (sample_fault ''ring timeout'' None 1000000)"
    by (simp add: sample_faults_def dict_get_def)
  have k: "map_option (map fst) (fold_declared_incidents sample_faults []) = Some [''GPU was reset'']" by code_simp
  obtain folded where f: "fold_declared_incidents sample_faults [] = Some folded"
    "(\<exists>ms. dict_get folded ''ring timeout'' = Some ((sample_fault ''ring timeout'' None 1000000)
        \<lparr>flt_members := flt_members (sample_fault ''ring timeout'' None 1000000) @ ms\<rparr>))
     \<or> dict_get folded ''ring timeout'' = None
       \<and> (\<exists>title. absorbed ALERT_INCIDENT_WINDOW_SECONDS sample_faults folded (sample_fault ''ring timeout'' None 1000000) title)"
    using fold_never_quietens [OF wf, of "[]"] g by blast
  have keys: "map fst folded = [''GPU was reset'']" using k f(1) by simp
  have "set (map fst folded) = set [''GPU was reset'']" by (simp only: keys)
  then have "dict_get folded ''ring timeout'' = None"
    unfolding dict_get_def map_of_eq_None_iff by simp
  then show ?thesis using f keys by auto
qed

end
