(* ===== verification/Log_Aggregator.thy ===== *)
theory Log_Aggregator
  imports Agent_Runs Services Journal Log_Incidents
begin

text \<open>
  The log aggregator (\<open>src/sysadmin/monitor/log_aggregator.py\<close>): one run reads every log source,
  stores what it read, raises one alert per distinct fault and closes the alerts of faults that
  have gone quiet.

  \<^item> \<open>log_memory\<close> is what the agent keeps between runs: a journal cursor and a file offset per
    source. It is not part of the transaction.
  \<^item> New log entries wait in the session until the next query flushes them; the database refuses
    a severity it does not know, a source wider than its column and a text with a NUL.
  \<^item> What a run reads from outside is in \<open>log_env\<close>: \<open>journalctl\<close>, the files, the relations between
    units, the clock, the text library, and PostgreSQL's reading of a text as a time.
\<close>

section \<open>Declarations\<close>

definition apostrophe :: string where
  "apostrophe = [CHR 0x27]"

definition NOISE_SEVERITY :: string where
  "NOISE_SEVERITY = ''info''"

definition STORED_MESSAGE_CHARS :: nat where
  "STORED_MESSAGE_CHARS = 5000"

definition FAULT_SEVERITIES :: "string list" where
  "FAULT_SEVERITIES = [''error'', ''critical'']"

definition DECLARED_FLOOR_SEVERITY :: string where
  "DECLARED_FLOOR_SEVERITY = ''warning''"

definition FOLDED_SAMPLE_CHARS :: nat where
  "FOLDED_SAMPLE_CHARS = 300"

definition COVERED_SIGNATURES :: "((string \<times> string) \<times> string) list" where
  "COVERED_SIGNATURES =
     [((''sysadmin.service'', ''agent_run_failed''),
       ''sysadmin/monitor/failures.py '' @ em_dash @ '' '' @ apostrophe @ ''<agent> agent failing'' @ apostrophe @ '', at two consecutive failures'')]"

definition GPU_RESET :: critical_signature where
  "GPU_RESET =
     \<lparr>cs_title = ''GPU was reset '' @ em_dash @ '' every client lost its VRAM'',
      cs_reason = ''a full-card MODE1 reset: the graphics ring wedged, the per-queue reset failed, and amdgpu reset the device. ''
        @ ''Every GPU client'' @ apostrophe @ ''s memory was destroyed '' @ em_dash @ '' the foreground ''
        @ ''application and any resident inference server alike.'',
      cs_arrives_at = ''info'', cs_opens_at = DECLARED_FLOOR_SEVERITY\<rparr>"

definition GPU_RECOVERY_FAILED :: critical_signature where
  "GPU_RECOVERY_FAILED =
     \<lparr>cs_title = ''GPU recovery failed '' @ em_dash @ '' the card is dead until a reboot'',
      cs_reason = ''amdgpu'' @ apostrophe @ ''s full-card reset could not bring the card back. The displays and every GPU client ''
        @ ''stay dead, and only a reboot recovers it; the box itself is still up.'',
      cs_arrives_at = ''error'', cs_opens_at = ''critical''\<rparr>"

definition CRITICAL_SIGNATURES :: "((string \<times> string) \<times> critical_signature) list" where
  "CRITICAL_SIGNATURES =
     [((''kernel'', ''amdgpu N:N:N.N: amdgpu: VRAM is lost due to GPU reset!''), GPU_RESET),
      ((''kernel'', ''amdgpu N:N:N.N: VRAM is lost due to GPU reset!''), GPU_RESET),
      ((''kernel'', ''amdgpu N:N:N.N: GPU Recovery Failed: -N''), GPU_RECOVERY_FAILED),
      ((''kernel'', ''amdgpu N:N:N.N: amdgpu: GPU Recovery Failed: -N''), GPU_RECOVERY_FAILED)]"

definition declared_rungs_for :: "log_source \<Rightarrow> (string, string) dict" where
  "declared_rungs_for source =
     (case stored_source_name source of
        None \<Rightarrow> []
      | Some key \<Rightarrow>
          map (\<lambda>((_, sig), declared). (sig, cs_arrives_at declared))
            (filter (\<lambda>((source_key, _), _). source_key = key) CRITICAL_SIGNATURES))"

record noise_entry =
  ne_source :: string
  ne_signature :: string
  ne_reason :: string

record log_config =
  la_sources :: "log_source list"
  la_known_noise :: "noise_entry list"
  la_alert_quiet_minutes :: nat
  la_critical_repeat_hours :: rat
  la_max_entries_per_read :: nat

text \<open>The dict of the operator's entries: the last of two entries for one key counts.\<close>

definition known_noise :: "log_config \<Rightarrow> string \<times> string \<Rightarrow> noise_entry option" where
  "known_noise cfg key =
     find (\<lambda>e. (ne_source e, ne_signature e) = key) (rev (la_known_noise cfg))"

section \<open>State\<close>

record log_memory =
  lm_file_offsets :: "(string, nat) dict"
  lm_cursors :: "(string, string) dict"

datatype file_view = Missing | Unreadable | Content string

record log_env =
  lv_now :: instant
  lv_journal :: journal_env
  lv_file :: "string \<Rightarrow> file_view"
  lv_relations :: "py_error + (string, string list) dict"
  lv_lib :: text_lib
  lv_timestamp :: "string \<Rightarrow> instant option"

record log_state =
  ls_mem :: log_memory
  ls_sess :: session
  ls_unflushed :: "log_entry list"

type_synonym 'a lstep = "log_state \<Rightarrow> (py_error + 'a) \<times> log_state"

definition LOG_SEVERITIES :: "string list" where
  "LOG_SEVERITIES = [''debug'', ''info'', ''warning'', ''error'', ''critical'']"

definition entry_ok :: "log_entry \<Rightarrow> bool" where
  "entry_ok e =
     (py_len (le_source e) \<le> 100 \<and> le_severity e \<in> set LOG_SEVERITIES
      \<and> CHR 0x00 \<notin> set (le_message e)
      \<and> (case le_raw_line e of None \<Rightarrow> True | Some r \<Rightarrow> CHR 0x00 \<notin> set r))"

definition flush_entries :: "unit lstep" where
  "flush_entries st =
     (if list_all entry_ok (ls_unflushed st)
      then (Inr (), st\<lparr>ls_sess := (ls_sess st)\<lparr>log_entries := log_entries (ls_sess st) @ ls_unflushed st\<rparr>,
                      ls_unflushed := []\<rparr>)
      else (Inl (DataError ''log_entries''), st))"

definition forget_unknown_sources :: "log_config \<Rightarrow> log_memory \<Rightarrow> string list \<times> log_memory" where
  "forget_unknown_sources cfg m =
     (let known = map lsrc_name (la_sources cfg);
          dropped = sort (remdups (filter (\<lambda>n. n \<notin> set known) (map fst (lm_cursors m) @ map fst (lm_file_offsets m))))
      in (dropped, \<lparr>lm_file_offsets = fold dict_del dropped (lm_file_offsets m),
                    lm_cursors = fold dict_del dropped (lm_cursors m)\<rparr>))"

section \<open>Reading\<close>

text \<open>\<open>needle in text\<close>.\<close>

definition py_in :: "string \<Rightarrow> string \<Rightarrow> bool" where
  "py_in needle s = list_ex (\<lambda>i. take (length needle) (drop i s) = needle) [0..<Suc (length s)]"

definition parse_log_line :: "instant \<Rightarrow> string \<Rightarrow> string \<Rightarrow> log_record option" where
  "parse_log_line now source line =
     (if line = [] then None
      else
        (let u = py_upper line;
             severity = (if py_in ''CRITICAL'' u \<or> py_in ''FATAL'' u then ''critical''
                         else if py_in ''ERROR'' u then ''error''
                         else if py_in ''WARNING'' u \<or> py_in ''WARN'' u then ''warning''
                         else if py_in ''DEBUG'' u then ''debug''
                         else ''info'')
         in Some \<lparr>lg_source = source, lg_severity = severity, lg_message = py_take 5000 line, lg_logged_at = now,
                  lg_raw_line = py_take STORED_RAW_LINE_CHARS line, lg_metadata = []\<rparr>))"

text \<open>The lines of a text file; a carriage return ends a line as well.\<close>

definition file_lines :: "string \<Rightarrow> string list" where
  "file_lines s = split_on CHR 0x0A (map (\<lambda>c. if c = CHR 0x0D then CHR 0x0A else c) s)"

definition read_log_file ::
  "log_env \<Rightarrow> string \<Rightarrow> string \<Rightarrow> string \<Rightarrow> nat \<Rightarrow> (string, string) dict \<Rightarrow> log_memory
     \<Rightarrow> journal_read \<times> log_memory" where
  "read_log_file env source_name path severity_filter limit declared m =
     (case lv_file env path of
        Content c \<Rightarrow>
          (let stored = dict_get_or (lm_file_offsets m) source_name 0;
               offset = (if length c < stored then 0 else stored);
               parsed = List.map_filter (\<lambda>l. parse_log_line (lv_now env) source_name (py_strip l))
                          (file_lines (drop offset c));
               entries = filter (\<lambda>r. admits (lg_severity r) severity_filter (lg_message r) declared) parsed
           in (\<lparr>jr_entries = take limit entries, jr_cursor = None, jr_truncated = (limit < length entries)\<rparr>,
               m\<lparr>lm_file_offsets := dict_set source_name (length c) (lm_file_offsets m)\<rparr>))
      | _ \<Rightarrow> (\<lparr>jr_entries = [], jr_cursor = None, jr_truncated = False\<rparr>, m))"

definition resume_floor :: "string \<Rightarrow> session \<Rightarrow> (instant \<times> string list) option" where
  "resume_floor unit_name s =
     (let mine = filter (\<lambda>e. le_source e = unit_name) (log_entries s)
      in if mine = [] then None
         else (let floor_at = Max (set (map le_logged_at mine))
               in Some (floor_at, map le_message (filter (\<lambda>e. le_logged_at e = floor_at) mine))))"

definition is_unstored :: "instant \<Rightarrow> string list \<Rightarrow> log_record \<Rightarrow> bool" where
  "is_unstored floor_at stored_at_floor r =
     (if floor_at < lg_logged_at r then True
      else if lg_logged_at r < floor_at then False
      else py_take STORED_MESSAGE_CHARS (lg_message r) \<notin> set stored_at_floor)"

definition journal_request_of :: "log_config \<Rightarrow> log_source \<Rightarrow> journal_request" where
  "journal_request_of cfg source =
     \<lparr>rq_unit = the (lsrc_unit source), rq_user = lsrc_user source,
      rq_severity_filter = lsrc_severity_filter source, rq_limit = la_max_entries_per_read cfg,
      rq_format = lsrc_format source, rq_declared = declared_rungs_for source\<rparr>"

definition keep_cursor :: "string \<Rightarrow> journal_read \<Rightarrow> log_state \<Rightarrow> log_state" where
  "keep_cursor name r st =
     (case jr_cursor r of
        None \<Rightarrow> st
      | Some c \<Rightarrow> if c = [] then st
                  else st\<lparr>ls_mem := (ls_mem st)\<lparr>lm_cursors := dict_set name c (lm_cursors (ls_mem st))\<rparr>\<rparr>)"

definition read_journal_source :: "log_env \<Rightarrow> log_config \<Rightarrow> log_source \<Rightarrow> journal_read lstep" where
  "read_journal_source env cfg source st =
     (let rq = journal_request_of cfg source; name = lsrc_name source
      in case dict_get (lm_cursors (ls_mem st)) name of
           Some c \<Rightarrow>
             (case read_journal (lv_journal env) rq ''5m ago'' (Some c) of
                Inl e \<Rightarrow> (Inl e, st)
              | Inr r \<Rightarrow> (Inr r, keep_cursor name r st))
         | None \<Rightarrow>
             (case flush_entries st of
                (Inl e, st1) \<Rightarrow> (Inl e, st1)
              | (Inr _, st1) \<Rightarrow>
                  (case resume_floor (rq_unit rq) (ls_sess st1) of
                     None \<Rightarrow>
                       (case read_journal (lv_journal env) rq ''5m ago'' None of
                          Inl e \<Rightarrow> (Inl e, st1)
                        | Inr r \<Rightarrow> (Inr r, keep_cursor name r st1))
                   | Some (floor_at, stored) \<Rightarrow>
                       (case read_journal (lv_journal env) rq (since_timestamp floor_at) None of
                          Inl e \<Rightarrow> (Inl e, st1)
                        | Inr r \<Rightarrow>
                            (Inr (r\<lparr>jr_entries := filter (is_unstored floor_at stored) (jr_entries r)\<rparr>),
                             keep_cursor name r st1)))))"

text \<open>One source of the loop; \<^const>\<open>None\<close> is a source that is passed over.\<close>

definition read_source :: "log_env \<Rightarrow> log_config \<Rightarrow> log_source \<Rightarrow> journal_read option lstep" where
  "read_source env cfg source st =
     (if lsrc_type source = ''journalctl'' \<and> given (lsrc_unit source) then
        (case read_journal_source env cfg source st of
           (Inl e, st1) \<Rightarrow> (Inl e, st1)
         | (Inr r, st1) \<Rightarrow> (Inr (Some r), st1))
      else if lsrc_type source = ''file'' \<and> given (lsrc_path source) then
        (case read_log_file env (lsrc_name source) (the (lsrc_path source)) (lsrc_severity_filter source)
                (la_max_entries_per_read cfg) (declared_rungs_for source) (ls_mem st) of
           (r, m) \<Rightarrow> (Inr (Some r), st\<lparr>ls_mem := m\<rparr>))
      else (Inr None, st))"

section \<open>Faults\<close>

definition new_entry :: "log_record \<Rightarrow> session \<Rightarrow> log_entry" where
  "new_entry r s =
     \<lparr>le_source = lg_source r, le_severity = lg_severity r,
      le_message = py_take STORED_MESSAGE_CHARS (lg_message r),
      le_raw_line = Some (py_take STORED_RAW_LINE_CHARS (lg_raw_line r)),
      le_metadata = lg_metadata r, le_logged_at = lg_logged_at r, le_ingested_at = tx_time s\<rparr>"

definition open_fault_of :: "log_config \<Rightarrow> string \<Rightarrow> critical_signature option \<Rightarrow> log_record \<Rightarrow> fault" where
  "open_fault_of cfg title declared r =
     (let sig = signature (lg_message r); key = (lg_source r, sig);
          noise = known_noise cfg key; covered_by = map_of COVERED_SIGNATURES key
      in \<lparr>flt_title = title, flt_first_logged_at = lg_logged_at r, flt_members = [],
          flt_severity =
            (if noise \<noteq> None \<or> covered_by \<noteq> None then NOISE_SEVERITY
             else case declared of
                    Some d \<Rightarrow> cs_opens_at d
                  | None \<Rightarrow> if lg_severity r = ''critical'' then ''critical'' else ''warning''),
          flt_declared = declared, flt_source = lg_source r, flt_message = lg_message r, flt_count = 1,
          flt_signature = sig, flt_noise_reason = map_option ne_reason noise, flt_covered_by = covered_by\<rparr>)"

definition repeat_fault :: "log_record \<Rightarrow> fault \<Rightarrow> fault" where
  "repeat_fault r f =
     f\<lparr>flt_message := lg_message r, flt_count := Suc (flt_count f),
       flt_first_logged_at := min (flt_first_logged_at f) (lg_logged_at r)\<rparr>"

definition note_fault :: "text_lib \<Rightarrow> log_config \<Rightarrow> log_record \<Rightarrow> faults \<Rightarrow> faults" where
  "note_fault lib cfg r faults =
     (let declared = map_of CRITICAL_SIGNATURES (lg_source r, signature (lg_message r))
      in if declared = None \<and> lg_severity r \<notin> set FAULT_SEVERITIES then faults
         else
           (let title = (case declared of Some d \<Rightarrow> cs_title d
                         | None \<Rightarrow> alert_title lib (lg_severity r) (lg_source r) (lg_message r))
            in case dict_get faults title of
                 None \<Rightarrow> dict_set title (open_fault_of cfg title declared r) faults
               | Some f \<Rightarrow> dict_set title (repeat_fault r f) faults))"

record ingest =
  in_total :: nat
  in_truncated :: "string list"
  in_faults :: faults

fun ingest_entries :: "text_lib \<Rightarrow> log_config \<Rightarrow> log_record list \<Rightarrow> ingest \<Rightarrow> log_state \<Rightarrow> ingest \<times> log_state" where
  "ingest_entries lib cfg [] acc st = (acc, st)"
| "ingest_entries lib cfg (r # rs) acc st =
     ingest_entries lib cfg rs
       (acc\<lparr>in_total := Suc (in_total acc), in_faults := note_fault lib cfg r (in_faults acc)\<rparr>)
       (st\<lparr>ls_unflushed := ls_unflushed st @ [new_entry r (ls_sess st)]\<rparr>)"

fun ingest_sources :: "log_env \<Rightarrow> log_config \<Rightarrow> log_source list \<Rightarrow> ingest \<Rightarrow> ingest lstep" where
  "ingest_sources env cfg [] acc st = (Inr acc, st)"
| "ingest_sources env cfg (x # xs) acc st =
     (case read_source env cfg x st of
        (Inl e, st1) \<Rightarrow> (Inl e, st1)
      | (Inr None, st1) \<Rightarrow> ingest_sources env cfg xs acc st1
      | (Inr (Some r), st1) \<Rightarrow>
          (let acc1 = (if jr_truncated r then acc\<lparr>in_truncated := in_truncated acc @ [lsrc_name x]\<rparr> else acc)
           in case ingest_entries (lv_lib env) cfg (jr_entries r) acc1 st1 of
                (acc2, st2) \<Rightarrow> ingest_sources env cfg xs acc2 st2))"

section \<open>Alerts\<close>

definition fault_message :: "text_lib \<Rightarrow> fault \<Rightarrow> string" where
  "fault_message lib f =
     (if flt_members f = [] then py_take 500 (flt_message f)
      else tl_truncate lib (flt_message f) FOLDED_SAMPLE_CHARS @ newline @ newline @ ''One incident: ''
           @ show_nat (length (flt_members f)) @ '' further signature(s) from '' @ flt_source f
           @ '' folded into this row, named in details['' @ apostrophe @ ''members'' @ apostrophe @ ''].'')"

definition member_json :: "member \<Rightarrow> json" where
  "member_json m =
     JObj [(''source'', JStr (mb_source m)), (''signature'', JStr (mb_signature m)),
           (''alert_title'', JStr (mb_alert_title m)), (''occurrences'', JNum (of_nat (mb_occurrences m)))]"

text \<open>\<open>int(x or 0)\<close>.\<close>

definition int_or_zero :: "json option \<Rightarrow> py_error + int" where
  "int_or_zero j =
     (case j of None \<Rightarrow> Inr 0 | Some v \<Rightarrow> if truthy v then int_of_json v else Inr 0)"

text \<open>
  \<open>str(member.get(k, ""))\<close>. The members are written by \<open>_member_of\<close>, whose keys are texts; of a list
  or an object, which it never writes, nothing is kept.
\<close>

definition member_text :: "jobj \<Rightarrow> string \<Rightarrow> string" where
  "member_text m k =
     (case dict_get m k of
        None \<Rightarrow> []
      | Some (JStr s) \<Rightarrow> s
      | Some JNull \<Rightarrow> ''None''
      | Some (JBool b) \<Rightarrow> if b then ''True'' else ''False''
      | Some (JNum x) \<Rightarrow> if of_int \<lfloor>x\<rfloor> = x then show_int \<lfloor>x\<rfloor> else show_float x
      | Some _ \<Rightarrow> [])"

fun merge_into ::
  "json list \<Rightarrow> (string \<times> string, jobj) dict \<Rightarrow> py_error + (string \<times> string, jobj) dict" where
  "merge_into [] merged = Inr merged"
| "merge_into (JObj m # ms) merged =
     (let key = (member_text m ''source'', member_text m ''signature'')
      in case dict_get merged key of
           None \<Rightarrow> merge_into ms (dict_set key m merged)
         | Some old \<Rightarrow>
             (case int_or_zero (dict_get old ''occurrences'') of
                Inl e \<Rightarrow> Inl e
              | Inr a \<Rightarrow>
                  (case int_or_zero (dict_get m ''occurrences'') of
                     Inl e \<Rightarrow> Inl e
                   | Inr b \<Rightarrow> merge_into ms (dict_set key (dict_set ''occurrences'' (JNum (of_int (a + b))) old) merged))))"
| "merge_into (_ # ms) merged = merge_into ms merged"

definition merge_members :: "json option \<Rightarrow> member list \<Rightarrow> py_error + json list" where
  "merge_members existing incoming =
     (let old = (case existing of
                   Some (JArr xs) \<Rightarrow> Inr xs
                 | Some (JNum x) \<Rightarrow> if x = 0 then Inr [] else Inl (OtherError ''TypeError'')
                 | Some (JBool b) \<Rightarrow> if b then Inl (OtherError ''TypeError'') else Inr []
                 | _ \<Rightarrow> Inr [])
      in case old of
           Inl e \<Rightarrow> Inl e
         | Inr xs \<Rightarrow>
             (case merge_into (xs @ map member_json incoming) [] of
                Inl e \<Rightarrow> Inl e
              | Inr merged \<Rightarrow> Inr (map (JObj \<circ> snd) merged)))"

definition set_default :: "string \<Rightarrow> json \<Rightarrow> jobj \<Rightarrow> jobj" where
  "set_default k v d = (if dict_get d k = None then dict_set k v d else d)"

definition set_or_pop :: "string \<Rightarrow> string option \<Rightarrow> jobj \<Rightarrow> jobj" where
  "set_or_pop k v d = (if given v then dict_set k (JStr (the v)) d else dict_del k d)"

definition record_recurrence :: "text_lib \<Rightarrow> fault \<Rightarrow> instant \<Rightarrow> alert \<Rightarrow> py_error + alert" where
  "record_recurrence lib f now a =
     (case int_or_zero (dict_get (al_details a) ''occurrences'') of
        Inl e \<Rightarrow> Inl e
      | Inr n \<Rightarrow>
          (let stamp = JStr (isoformat now);
               d1 = dict_set ''occurrences'' (JNum (of_int (n + int (flt_count f)))) (dict_set ''last_seen_at'' stamp (al_details a));
               d2 = dict_set ''signature'' (JStr (flt_signature f))
                      (set_default ''source'' (JStr (flt_source f)) (set_default ''first_seen_at'' stamp d1));
               d3 = set_or_pop ''covered_by'' (flt_covered_by f) (set_or_pop ''noise_reason'' (flt_noise_reason f) d2);
               d4 = (if flt_members f = [] then Inr d3
                     else (case merge_members (dict_get d3 ''members'') (flt_members f) of
                             Inl e \<Rightarrow> Inl e
                           | Inr ms \<Rightarrow> Inr (dict_set ''members'' (JArr ms) d3)))
           in case d4 of
                Inl e \<Rightarrow> Inl e
              | Inr d \<Rightarrow>
                  Inr (a\<lparr>al_details := d, al_message := Some (fault_message lib f),
                         al_severity := (if may_quieten_in_place (flt_severity f) (al_severity a)
                                         then flt_severity f else al_severity a)\<rparr>)))"

definition LOG_AGGREGATOR :: string where
  "LOG_AGGREGATOR = ''log_aggregator''"

definition open_alerts :: "string list \<Rightarrow> session \<Rightarrow> (string, alert) dict" where
  "open_alerts titles s =
     map (\<lambda>a. (al_title a, a))
       (filter (\<lambda>a. al_agent a = LOG_AGGREGATOR \<and> unresolved a \<and> al_title a \<in> set titles) (rows s))"

definition recent_incidents :: "string \<Rightarrow> instant \<Rightarrow> rat \<Rightarrow> session \<Rightarrow> nat" where
  "recent_incidents title now window_hours s =
     length (filter (\<lambda>a. al_agent a = LOG_AGGREGATOR \<and> al_title a = title
       \<and> of_int now - window_hours * 3600 * 1000000 \<le> of_int (al_created_at a)) (rows s))"

definition fault_details :: "instant \<Rightarrow> nat \<Rightarrow> fault \<Rightarrow> jobj" where
  "fault_details now prior_incidents f =
     [(''source'', JStr (flt_source f)), (''signature'', JStr (flt_signature f)),
      (''first_seen_at'', JStr (isoformat now)), (''last_seen_at'', JStr (isoformat now)),
      (''occurrences'', JNum (of_nat (flt_count f)))]
     @ (case flt_declared f of
          Some d \<Rightarrow> [(''escalated_reason'', JStr (cs_reason d)), (''prior_incidents'', JNum (of_nat prior_incidents))]
        | None \<Rightarrow> [])
     @ (if flt_members f \<noteq> [] then [(''members'', JArr (map member_json (flt_members f)))] else [])
     @ (if given (flt_noise_reason f) then [(''noise_reason'', JStr (the (flt_noise_reason f)))] else [])
     @ (if given (flt_covered_by f) then [(''covered_by'', JStr (the (flt_covered_by f)))] else [])"

definition raise_fault :: "log_env \<Rightarrow> log_config \<Rightarrow> string \<times> fault \<Rightarrow> session \<Rightarrow> py_error + session" where
  "raise_fault env cfg tf s =
     (let (title, f) = tf;
          laddered = (flt_declared f \<noteq> None \<and> flt_severity f = DECLARED_FLOOR_SEVERITY);
          prior = (if laddered then recent_incidents title (lv_now env) (la_critical_repeat_hours cfg) s else 0);
          severity = (if prior \<noteq> 0 then ''critical'' else flt_severity f)
      in case raise_alert LOG_AGGREGATOR severity title (Some (fault_message (lv_lib env) f))
                (Some (fault_details (lv_now env) prior f)) s of
           Inl e \<Rightarrow> Inl e
         | Inr (_, s') \<Rightarrow> Inr s')"

fun write_faults ::
  "log_env \<Rightarrow> log_config \<Rightarrow> (string, alert) dict \<Rightarrow> (string \<times> fault) list \<Rightarrow> nat \<Rightarrow> session
     \<Rightarrow> py_error + nat \<times> session" where
  "write_faults env cfg held [] n s = Inr (n, s)"
| "write_faults env cfg held ((title, f) # fs) n s =
     (case dict_get held title of
        Some a \<Rightarrow>
          (case record_recurrence (lv_lib env) f (lv_now env) a of
             Inl e \<Rightarrow> Inl e
           | Inr a' \<Rightarrow> write_faults env cfg held fs n (s\<lparr>rows := store_row a' (rows s)\<rparr>))
      | None \<Rightarrow>
          (case raise_fault env cfg (title, f) s of
             Inl e \<Rightarrow> Inl e
           | Inr s' \<Rightarrow> write_faults env cfg held fs (Suc n) s'))"

text \<open>
  \<open>coalesce((details->>'last_seen_at')::timestamptz, created_at)\<close>: \<^const>\<open>None\<close> is a text PostgreSQL does not
  read as a time.
\<close>

definition last_seen :: "log_env \<Rightarrow> alert \<Rightarrow> instant option" where
  "last_seen env a =
     (case dict_get (al_details a) ''last_seen_at'' of
        None \<Rightarrow> Some (al_created_at a)
      | Some JNull \<Rightarrow> Some (al_created_at a)
      | Some (JStr t) \<Rightarrow> lv_timestamp env t
      | Some _ \<Rightarrow> None)"

definition gone_quiet :: "log_env \<Rightarrow> log_config \<Rightarrow> string list \<Rightarrow> alert \<Rightarrow> bool" where
  "gone_quiet env cfg seen a =
     (al_agent a = LOG_AGGREGATOR \<and> unresolved a \<and> al_title a \<notin> set seen
      \<and> (case last_seen env a of None \<Rightarrow> False
         | Some t \<Rightarrow> t < lv_now env - int (la_alert_quiet_minutes cfg) * 60000000))"

definition resolve_quiet :: "log_env \<Rightarrow> log_config \<Rightarrow> string list \<Rightarrow> session \<Rightarrow> py_error + nat \<times> session" where
  "resolve_quiet env cfg seen s =
     (if list_ex (\<lambda>a. al_agent a = LOG_AGGREGATOR \<and> unresolved a \<and> last_seen env a = None) (rows s)
      then Inl (DataError ''timestamptz'')
      else
        (let resolved = length (filter (gone_quiet env cfg seen) (rows s));
             s' = s\<lparr>rows := close_where (gone_quiet env cfg seen) (lv_now env) (rows s)\<rparr>
         in Inr (resolved,
              if resolved \<noteq> 0
              then queue_event ''alert.resolved''
                     [(''agent'', JStr LOG_AGGREGATOR), (''match'', JStr ''went quiet''),
                      (''count'', JNum (of_nat resolved))]
                     (log_line ''info'' ''log_alerts_resolved'' s')
              else s')))"

section \<open>The run\<close>

text \<open>The alert phase: everything after the sources have been read.\<close>

definition alert_phase :: "log_env \<Rightarrow> log_config \<Rightarrow> faults \<Rightarrow> session \<Rightarrow> py_error + (nat \<times> nat) \<times> session" where
  "alert_phase env cfg faults s =
     (case write_faults env cfg (open_alerts (map fst faults) s) faults 0 s of
        Inl e \<Rightarrow> Inl e
      | Inr (raised, s1) \<Rightarrow>
          (case resolve_quiet env cfg (map fst faults) s1 of
             Inl e \<Rightarrow> Inl e
           | Inr (resolved, s2) \<Rightarrow> Inr ((raised, resolved), s2)))"

definition relations :: "log_env \<Rightarrow> (string, string list) dict" where
  "relations env = (case lv_relations env of Inl _ \<Rightarrow> [] | Inr g \<Rightarrow> g)"

definition note_relations :: "log_env \<Rightarrow> session \<Rightarrow> session" where
  "note_relations env s =
     (case lv_relations env of Inl _ \<Rightarrow> log_line ''warning'' ''log_incident_graph_unread'' s | Inr _ \<Rightarrow> s)"

definition no_ingest :: ingest where
  "no_ingest = \<lparr>in_total = 0, in_truncated = [], in_faults = []\<rparr>"

definition aggregate :: "log_env \<Rightarrow> log_config \<Rightarrow> log_memory work" where
  "aggregate env cfg m s =
     (case ingest_sources env cfg (la_sources cfg) no_ingest \<lparr>ls_mem = m, ls_sess = s, ls_unflushed = []\<rparr> of
        (Inl e, st) \<Rightarrow> (Inl e, ls_mem st, ls_sess st)
      | (Inr acc, st0) \<Rightarrow>
          (let st = st0\<lparr>ls_sess := note_relations env (ls_sess st0)\<rparr>
           in case fold_declared_incidents (in_faults acc) (relations env) of
             None \<Rightarrow> (Inl (OtherError ''KeyError''), ls_mem st, ls_sess st)
           | Some faults \<Rightarrow>
               (case flush_entries st of
                  (Inl e, st1) \<Rightarrow> (Inl e, ls_mem st1, ls_sess st1)
                | (Inr _, st1) \<Rightarrow>
                    (case alert_phase env cfg faults (ls_sess st1) of
                       Inl e \<Rightarrow> (Inl e, ls_mem st1, ls_sess st1)
                     | Inr ((raised, resolved), s2) \<Rightarrow>
                         (Inr \<lparr>findings_count = int (in_total acc), alerts_raised = int raised,
                               res_details =
                                 [(''entries_ingested'', JNum (of_nat (in_total acc))),
                                  (''distinct_faults'', JNum (of_nat (length faults))),
                                  (''alerts_resolved'', JNum (of_nat resolved)),
                                  (''truncated_sources'', JArr (map JStr (in_truncated acc)))]\<rparr>,
                          ls_mem st1,
                          if in_truncated acc = [] then s2 else log_line ''warning'' ''log_read_truncated'' s2)))))"

section \<open>Recurrences\<close>

text \<open>The rows this agent writes: what it relies on when it reads one back.\<close>

definition count_ok :: "jobj \<Rightarrow> bool" where
  "count_ok d = (case dict_get d ''occurrences'' of None \<Rightarrow> True | Some (JNum _) \<Rightarrow> True | _ \<Rightarrow> False)"

definition members_ok :: "json list \<Rightarrow> bool" where
  "members_ok xs = list_all (\<lambda>x. case x of JObj m \<Rightarrow> count_ok m | _ \<Rightarrow> True) xs"

definition log_details_ok :: "jobj \<Rightarrow> bool" where
  "log_details_ok d =
     (count_ok d \<and> (case dict_get d ''members'' of None \<Rightarrow> True | Some (JArr xs) \<Rightarrow> members_ok xs | _ \<Rightarrow> False))"

definition occurrences :: "alert \<Rightarrow> int" where
  "occurrences a = (case int_or_zero (dict_get (al_details a) ''occurrences'') of Inl _ \<Rightarrow> 0 | Inr n \<Rightarrow> n)"

lemma int_or_zero_count: "count_ok d \<Longrightarrow> \<exists>n. int_or_zero (dict_get d ''occurrences'') = Inr n"
  by (auto simp: count_ok_def int_or_zero_def int_of_json_def split: option.splits json.splits)

lemma py_trunc_of_int [simp]: "py_trunc (of_int i) = i"
  by (simp add: py_trunc_def flip: of_int_minus)

lemma int_or_zero_of_int [simp]: "int_or_zero (Some (JNum (of_int n))) = Inr n"
  by (simp add: int_or_zero_def int_of_json_def)

lemma merge_into_ok:
  assumes "members_ok xs" "\<forall>d \<in> set (map snd merged). count_ok d"
  shows "\<exists>merged'. merge_into xs merged = Inr merged' \<and> (\<forall>d \<in> set (map snd merged'). count_ok d)"
  using assms
proof (induction xs merged rule: merge_into.induct)
  case (2 m ms merged)
  have vals: "set (map snd (dict_set k v d)) \<subseteq> insert v (set (map snd d))" for k and v :: jobj and d
    using update_Some_unfold unfolding dict_set_def by (induction d) auto
  let ?key = "(member_text m ''source'', member_text m ''signature'')"
  have m: "count_ok m" and ms: "members_ok ms" using 2(3) by (auto simp: members_ok_def)
  show ?case
  proof (cases "dict_get merged ?key")
    case None
    have "\<forall>d \<in> set (map snd (dict_set ?key m merged)). count_ok d" using vals [of ?key m merged] 2(4) m by blast
    then show ?thesis using 2(1) [OF refl None ms] None by (simp add: Let_def)
  next
    case (Some old)
    then have "old \<in> set (map snd merged)" by (force simp: dict_get_def dest: map_of_SomeD)
    then have "count_ok old" using 2(4) by blast
    then obtain a where a: "int_or_zero (dict_get old ''occurrences'') = Inr a" using int_or_zero_count by blast
    obtain b where b: "int_or_zero (dict_get m ''occurrences'') = Inr b" using int_or_zero_count [OF m] by blast
    let ?new = "dict_set ''occurrences'' (JNum (of_int (a + b))) old"
    have "count_ok ?new" by (simp add: count_ok_def)
    then have "\<forall>d \<in> set (map snd (dict_set ?key ?new merged)). count_ok d"
      using vals [of ?key ?new merged] 2(4) by blast
    then show ?thesis using 2(2) [OF refl Some a b ms] Some a b by (simp add: Let_def)
  qed
qed (auto simp: members_ok_def)

lemma merge_members_ok:
  assumes "log_details_ok d"
  shows "\<exists>ms. merge_members (dict_get d ''members'') incoming = Inr ms \<and> members_ok ms"
proof -
  have inc: "members_ok (map member_json incoming)"
    by (auto simp: members_ok_def list_all_iff member_json_def count_ok_def dict_get_def)
  have "\<exists>xs. (case dict_get d ''members'' of
                   Some (JArr xs) \<Rightarrow> Inr xs
                 | Some (JNum x) \<Rightarrow> if x = 0 then Inr [] else Inl (OtherError ''TypeError'')
                 | Some (JBool b) \<Rightarrow> if b then Inl (OtherError ''TypeError'') else Inr []
                 | _ \<Rightarrow> Inr []) = (Inr xs :: py_error + json list) \<and> members_ok xs"
    using assms by (auto simp: log_details_ok_def members_ok_def split: option.splits json.splits)
  then obtain xs where xs: "(case dict_get d ''members'' of
                   Some (JArr xs) \<Rightarrow> Inr xs
                 | Some (JNum x) \<Rightarrow> if x = 0 then Inr [] else Inl (OtherError ''TypeError'')
                 | Some (JBool b) \<Rightarrow> if b then Inl (OtherError ''TypeError'') else Inr []
                 | _ \<Rightarrow> Inr []) = (Inr xs :: py_error + json list)" "members_ok xs" by blast
  have "members_ok (xs @ map member_json incoming)" using xs(2) inc by (simp add: members_ok_def)
  then obtain merged where "merge_into (xs @ map member_json incoming) [] = Inr merged"
    "\<forall>d \<in> set (map snd merged). count_ok d"
    using merge_into_ok [of _ "[]"] by auto
  then show ?thesis
    unfolding merge_members_def xs(1) by (auto simp: members_ok_def list_all_iff)
qed

lemma dict_get_set_default:
  "dict_get (set_default k v d) j = (if j = k \<and> dict_get d k = None then Some v else dict_get d j)"
  by (auto simp: set_default_def)

lemma dict_get_set_or_pop:
  "dict_get (set_or_pop k v d) j = (if j = k then (if given v then Some (JStr (the v)) else None) else dict_get d j)"
  by (auto simp: set_or_pop_def)

lemma row_ok_severity:
  assumes "row_ok a" "sev \<in> {''info'', ''warning'', ''critical''}"
  shows "row_ok (a\<lparr>al_details := d, al_message := m, al_severity := sev\<rparr>)"
  using assms
  by (auto simp: row_ok_def columns_fit_def chk_alert_severity_def chk_alert_agent_def
      chk_alert_resolved_stamped_def chk_alert_acknowledged_stamped_def py_len_Cons utf8_continuation_def)

text \<open>A recurrence changes the texts and the count of a row and nothing else, and is never refused.\<close>

lemma record_recurrence_ok:
  assumes "log_details_ok (al_details a)"
  obtains d sev where
    "record_recurrence lib f now a = Inr (a\<lparr>al_details := d, al_message := Some (fault_message lib f), al_severity := sev\<rparr>)"
    "sev = al_severity a \<or> sev = ''info''" "log_details_ok d"
    "dict_get d ''last_seen_at'' = Some (JStr (isoformat now))"
    "int_or_zero (dict_get d ''occurrences'') = Inr (occurrences a + int (flt_count f))"
proof -
  obtain n where n: "int_or_zero (dict_get (al_details a) ''occurrences'') = Inr n"
    using int_or_zero_count assms by (auto simp: log_details_ok_def)
  let ?stamp = "JStr (isoformat now)"
  let ?d1 = "dict_set ''occurrences'' (JNum (of_int (n + int (flt_count f)))) (dict_set ''last_seen_at'' ?stamp (al_details a))"
  let ?d2 = "dict_set ''signature'' (JStr (flt_signature f))
      (set_default ''source'' (JStr (flt_source f)) (set_default ''first_seen_at'' ?stamp ?d1))"
  let ?d3 = "set_or_pop ''covered_by'' (flt_covered_by f) (set_or_pop ''noise_reason'' (flt_noise_reason f) ?d2)"
  have g3: "dict_get ?d3 ''members'' = dict_get (al_details a) ''members''"
    "dict_get ?d3 ''last_seen_at'' = Some ?stamp"
    "dict_get ?d3 ''occurrences'' = Some (JNum (of_int (n + int (flt_count f))))"
    by (simp_all add: dict_get_set_default dict_get_set_or_pop)
  have ok3: "log_details_ok ?d3" using assms g3 by (simp add: log_details_ok_def count_ok_def)
  obtain ms where ms: "merge_members (dict_get ?d3 ''members'') (flt_members f) = Inr ms" "members_ok ms"
    using merge_members_ok [OF ok3] by blast
  let ?d = "if flt_members f = [] then ?d3 else dict_set ''members'' (JArr ms) ?d3"
  let ?sev = "if may_quieten_in_place (flt_severity f) (al_severity a) then flt_severity f else al_severity a"
  have "record_recurrence lib f now a
      = Inr (a\<lparr>al_details := ?d, al_message := Some (fault_message lib f), al_severity := ?sev\<rparr>)"
    using ms(1) by (simp add: record_recurrence_def n Let_def)
  moreover have "?sev = al_severity a \<or> ?sev = ''info''" by (auto simp: may_quieten_iff)
  moreover have "log_details_ok ?d" using ok3 ms(2) by (auto simp: log_details_ok_def count_ok_def)
  moreover have "dict_get ?d ''last_seen_at'' = Some ?stamp" using g3(2) by simp
  moreover have "int_or_zero (dict_get ?d ''occurrences'') = Inr (occurrences a + int (flt_count f))"
    using g3(3) int_or_zero_of_int [of "n + int (flt_count f)"] by (simp add: occurrences_def n)
  ultimately show ?thesis by (rule that)
qed

section \<open>The alert phase\<close>

definition own_open :: "session \<Rightarrow> alert list" where
  "own_open s = filter (\<lambda>a. al_agent a = LOG_AGGREGATOR \<and> unresolved a) (rows s)"

definition log_row_ok :: "(string \<Rightarrow> instant option) \<Rightarrow> alert \<Rightarrow> bool" where
  "log_row_ok cast a =
     (log_details_ok (al_details a)
      \<and> (case dict_get (al_details a) ''last_seen_at'' of
           None \<Rightarrow> True | Some (JStr t) \<Rightarrow> cast t \<noteq> None | Some j \<Rightarrow> j = JNull))"

definition log_inv :: "(string \<Rightarrow> instant option) \<Rightarrow> session \<Rightarrow> bool" where
  "log_inv cast s = (session_ok s \<and> (\<forall>a \<in> set (own_open s). log_row_ok cast a))"

lemma last_seen_ok: "log_row_ok (lv_timestamp env) a \<Longrightarrow> last_seen env a \<noteq> None"
  by (auto simp: log_row_ok_def last_seen_def split: option.splits json.splits)

text \<open>The rows neither open nor this agent's are the same before and after.\<close>

definition rest_rows :: "session \<Rightarrow> alert list" where
  "rest_rows s = filter (\<lambda>a. \<not> (al_agent a = LOG_AGGREGATOR \<and> unresolved a)) (rows s)"

lemma own_open_title_inj:
  assumes "session_ok s" "a \<in> set (own_open s)" "b \<in> set (own_open s)" "al_title a = al_title b"
  shows "a = b"
proof -
  have "distinct (map alert_key (filter unresolved (rows s)))"
    using assms(1) by (simp add: session_ok_def schema_ok_def uq_alerts_open_agent_title_def)
  moreover have "a \<in> set (filter unresolved (rows s))" "b \<in> set (filter unresolved (rows s))" "alert_key a = alert_key b"
    using assms(2-4) by (auto simp: own_open_def alert_key_def)
  ultimately show ?thesis by (metis inj_onD distinct_map)
qed

lemma filter_store_row_out:
  assumes "\<And>b. b \<in> set t \<Longrightarrow> al_id b = al_id a \<Longrightarrow> \<not> P b" "\<not> P a"
  shows "filter P (store_row a t) = filter P t"
  using assms by (induction t) (auto simp: store_row_def)

lemma store_own:
  assumes "session_ok s" "a \<in> set (own_open s)" "al_id a' = al_id a" "al_agent a' = al_agent a"
    "al_title a' = al_title a" "unresolved a'" "row_ok a'"
  defines "s' \<equiv> s\<lparr>rows := store_row a' (rows s)\<rparr>"
  shows "session_ok s'" "set (own_open s') = insert a' (set (own_open s) - {a})" "rest_rows s' = rest_rows s"
proof -
  have ids: "distinct (map al_id (rows s))" and a: "a \<in> set (rows s)" "al_agent a = LOG_AGGREGATOR" "unresolved a"
    using assms(1,2) by (auto simp: session_ok_def schema_ok_def own_open_def)
  have eq: "b = a" if "b \<in> set (rows s)" "al_id b = al_id a'" for b
    using ids a(1) that assms(3) by (metis inj_onD distinct_map)
  have "schema_ok (store_row a' (rows s))"
  proof (rule schema_store_row)
    show "schema_ok (rows s)" "row_ok a'" using assms(1,7) by (simp_all add: session_ok_def)
    fix b assume "b \<in> set (rows s)" "al_id b = al_id a'"
    then have "b = a" by (rule eq)
    then show "alert_key b = alert_key a' \<and> unresolved b = unresolved a'"
      using assms(4-6) a by (simp add: alert_key_def)
  qed
  moreover have "\<forall>b \<in> set (store_row a' (rows s)). al_id b < fresh_id s"
    using assms(1,3) a(1) by (auto simp: store_row_def session_ok_def)
  ultimately show "session_ok s'" by (simp add: session_ok_def s'_def)
  show "set (own_open s') = insert a' (set (own_open s) - {a})"
  proof -
    let ?own = "\<lambda>a. al_agent a = LOG_AGGREGATOR \<and> unresolved a"
    have "set (store_row a' (rows s)) = insert a' (set (rows s) - {a})"
      using eq a(1) assms(3) unfolding store_row_def by fastforce
    moreover have "?own a'" using assms(4,6) a by simp
    ultimately show ?thesis by (auto simp: own_open_def s'_def)
  qed
  have "filter (\<lambda>a. \<not> (al_agent a = LOG_AGGREGATOR \<and> unresolved a)) (store_row a' (rows s))
      = filter (\<lambda>a. \<not> (al_agent a = LOG_AGGREGATOR \<and> unresolved a)) (rows s)"
    by (rule filter_store_row_out) (use eq a assms(4,6) in auto)
  then show "rest_rows s' = rest_rows s" by (simp add: rest_rows_def s'_def)
qed

definition fault_ok :: "string \<times> fault \<Rightarrow> bool" where
  "fault_ok tf = (py_len (fst tf) \<le> 255 \<and> known_severity (flt_severity (snd tf)))"

lemma fault_details_ok:
  "log_details_ok (fault_details now prior f)"
  "dict_get (fault_details now prior f) ''last_seen_at'' = Some (JStr (isoformat now))"
proof -
  have ms: "members_ok (map member_json ms)" for ms
    by (auto simp: members_ok_def list_all_iff member_json_def count_ok_def dict_get_def)
  have "dict_get (fault_details now prior f) ''members''
      = (if flt_members f = [] then None else Some (JArr (map member_json (flt_members f))))"
    by (auto simp: fault_details_def dict_get_def split: option.splits)
  moreover have "dict_get (fault_details now prior f) ''occurrences'' = Some (JNum (of_nat (flt_count f)))"
    by (simp add: fault_details_def dict_get_def)
  ultimately show "log_details_ok (fault_details now prior f)" using ms by (simp add: log_details_ok_def count_ok_def)
  show "dict_get (fault_details now prior f) ''last_seen_at'' = Some (JStr (isoformat now))"
    by (simp add: fault_details_def dict_get_def)
qed

lemma raise_fault_ok:
  assumes "log_inv (lv_timestamp env) s" "fault_ok (title, f)" "title \<notin> al_title ` set (own_open s)"
    "lv_timestamp env (isoformat (lv_now env)) = Some (lv_now env)"
  obtains a s' where "raise_fault env cfg (title, f) s = Inr s'" "session_ok s'"
    "rows s' = rows s @ [a]" "al_agent a = LOG_AGGREGATOR" "unresolved a" "al_title a = title"
    "log_row_ok (lv_timestamp env) a" "last_seen env a = Some (lv_now env)"
proof -
  define prior where "prior = (if flt_declared f \<noteq> None \<and> flt_severity f = DECLARED_FLOOR_SEVERITY
      then recent_incidents title (lv_now env) (la_critical_repeat_hours cfg) s else 0)"
  define sev where "sev = (if prior \<noteq> 0 then ''critical'' else flt_severity f)"
  let ?m = "Some (fault_message (lv_lib env) f)" and ?d = "Some (fault_details (lv_now env) prior f)"
  have "LOG_AGGREGATOR \<in> set alert_agents" by (simp add: LOG_AGGREGATOR_def alert_agents_def)
  moreover have "known_severity sev" using assms(2) by (auto simp: fault_ok_def sev_def known_severity_iff)
  moreover have "py_len title \<le> 255" using assms(2) by (simp add: fault_ok_def)
  moreover have "\<And>a. a \<in> set (rows s) \<Longrightarrow> al_agent a = LOG_AGGREGATOR \<Longrightarrow> unresolved a \<Longrightarrow> al_title a \<noteq> title"
    using assms(3) by (auto simp: own_open_def)
  ultimately obtain s' where r: "raise_alert LOG_AGGREGATOR sev title ?m ?d s = Inr (new_alert LOG_AGGREGATOR sev title ?m ?d s, s')"
    by (rule raise_alert_succeeds)
  let ?a = "new_alert LOG_AGGREGATOR sev title ?m ?d s"
  note rr = raise_alert_Inr [OF r]
  have "session_ok s'"
    using assms(1) rr(3,4,2,6) by (intro session_ok_raise [of s s' ?a]) (auto simp: log_inv_def new_alert_def)
  moreover have "raise_fault env cfg (title, f) s = Inr s'"
    unfolding raise_fault_def prod.case Let_def prior_def [symmetric] sev_def [symmetric] r by simp
  moreover have "log_row_ok (lv_timestamp env) ?a" "last_seen env ?a = Some (lv_now env)"
    using fault_details_ok [of "lv_now env" prior f] assms(4)
    by (simp_all add: log_row_ok_def last_seen_def new_alert_def)
  ultimately show ?thesis
    using that [of s' ?a] rr(3) by (simp add: new_alert_def unresolved_def)
qed

text \<open>What writing the faults with titles \<open>ts\<close> does to the table.\<close>

definition wrote :: "log_env \<Rightarrow> string set \<Rightarrow> session \<Rightarrow> session \<Rightarrow> bool" where
  "wrote env ts s s' =
     (log_inv (lv_timestamp env) s' \<and> rest_rows s' = rest_rows s
      \<and> al_title ` set (own_open s') = al_title ` set (own_open s) \<union> ts
      \<and> (\<forall>a. al_title a \<notin> ts \<longrightarrow> (a \<in> set (own_open s') \<longleftrightarrow> a \<in> set (own_open s)))
      \<and> (\<forall>a \<in> set (own_open s'). al_title a \<in> ts \<longrightarrow> last_seen env a = Some (lv_now env)))"

lemma wrote_none: "log_inv (lv_timestamp env) s \<Longrightarrow> wrote env {} s s"
  by (simp add: wrote_def)

lemma wrote_trans:
  assumes "wrote env ts s s1" "wrote env ts' s1 s2" "ts \<inter> ts' = {}"
  shows "wrote env (ts \<union> ts') s s2"
proof -
  have "last_seen env a = Some (lv_now env)" if "a \<in> set (own_open s2)" "al_title a \<in> ts" for a
    using assms that unfolding wrote_def by blast
  then show ?thesis using assms unfolding wrote_def by (auto simp: Un_assoc)
qed

definition bumped :: "fault \<Rightarrow> alert \<Rightarrow> alert \<Rightarrow> bool" where
  "bumped f a b = (al_id b = al_id a \<and> al_title b = al_title a \<and> al_created_at b = al_created_at a
     \<and> occurrences b = occurrences a + int (flt_count f))"

lemma recurrence_wrote:
  assumes inv: "log_inv (lv_timestamp env) s" and a: "a \<in> set (own_open s)"
    and cast: "lv_timestamp env (isoformat (lv_now env)) = Some (lv_now env)"
  obtains a' where "record_recurrence (lv_lib env) f (lv_now env) a = Inr a'"
    "wrote env {al_title a} s (s\<lparr>rows := store_row a' (rows s)\<rparr>)"
    "a' \<in> set (own_open (s\<lparr>rows := store_row a' (rows s)\<rparr>))" "bumped f a a'"
proof -
  have ok: "session_ok s" "log_row_ok (lv_timestamp env) a" using inv a by (auto simp: log_inv_def)
  then have "log_details_ok (al_details a)" by (simp add: log_row_ok_def)
  then obtain d sev where r: "record_recurrence (lv_lib env) f (lv_now env) a
      = Inr (a\<lparr>al_details := d, al_message := Some (fault_message (lv_lib env) f), al_severity := sev\<rparr>)"
    "sev = al_severity a \<or> sev = ''info''" "log_details_ok d"
    "dict_get d ''last_seen_at'' = Some (JStr (isoformat (lv_now env)))"
    "int_or_zero (dict_get d ''occurrences'') = Inr (occurrences a + int (flt_count f))"
    by (rule record_recurrence_ok)
  let ?a = "a\<lparr>al_details := d, al_message := Some (fault_message (lv_lib env) f), al_severity := sev\<rparr>"
  let ?s = "s\<lparr>rows := store_row ?a (rows s)\<rparr>"
  have ra: "row_ok a" "unresolved a" using ok(1) a by (auto simp: session_ok_def schema_ok_def list_all_iff own_open_def)
  have "al_severity a \<in> {''info'', ''warning'', ''critical''}"
    using ra(1) by (auto simp: row_ok_def chk_alert_severity_def)
  then have "row_ok ?a" using r(2) by (intro row_ok_severity [OF ra(1)]) auto
  then have st: "session_ok ?s" "set (own_open ?s) = insert ?a (set (own_open s) - {a})" "rest_rows ?s = rest_rows s"
    using store_own [OF ok(1) a, of ?a] ra(2) by (simp_all add: unresolved_def)
  have new: "log_row_ok (lv_timestamp env) ?a" "last_seen env ?a = Some (lv_now env)"
    using r(3,4) cast by (simp_all add: log_row_ok_def last_seen_def)
  have "log_inv (lv_timestamp env) ?s" using st inv new(1) by (auto simp: log_inv_def)
  moreover have "al_title ` set (own_open ?s) = al_title ` set (own_open s) \<union> {al_title a}"
    using st(2) a by (auto simp: image_iff)
  moreover have "b \<in> set (own_open ?s) \<longleftrightarrow> b \<in> set (own_open s)" if "al_title b \<notin> {al_title a}" for b
    using st(2) that by auto
  moreover have "last_seen env b = Some (lv_now env)" if "b \<in> set (own_open ?s)" "al_title b \<in> {al_title a}" for b
    using st(2) that own_open_title_inj [OF ok(1) _ a, of b] new(2) by auto
  ultimately have "wrote env {al_title a} s ?s" using st(3) by (auto simp: wrote_def)
  moreover have "bumped f a ?a" using r(5) by (simp add: bumped_def occurrences_def)
  moreover have "?a \<in> set (own_open ?s)" using st(2) by simp
  ultimately show ?thesis using that r(1) by blast
qed

lemma raise_wrote:
  assumes inv: "log_inv (lv_timestamp env) s" and "fault_ok (title, f)" and new: "title \<notin> al_title ` set (own_open s)"
    and cast: "lv_timestamp env (isoformat (lv_now env)) = Some (lv_now env)"
  obtains s' where "raise_fault env cfg (title, f) s = Inr s'" "wrote env {title} s s'"
proof -
  obtain a s' where r: "raise_fault env cfg (title, f) s = Inr s'" "session_ok s'"
    "rows s' = rows s @ [a]" "al_agent a = LOG_AGGREGATOR" "unresolved a" "al_title a = title"
    "log_row_ok (lv_timestamp env) a" "last_seen env a = Some (lv_now env)"
    by (rule raise_fault_ok [OF assms])
  have own: "own_open s' = own_open s @ [a]" and rest: "rest_rows s' = rest_rows s"
    using r(3-5) by (simp_all add: own_open_def rest_rows_def)
  have "wrote env {title} s s'"
    unfolding wrote_def log_inv_def own rest using r inv new by (auto simp: log_inv_def image_iff)
  then show ?thesis using that r(1) by blast
qed

lemma write_faults_wrote:
  assumes "log_inv (lv_timestamp env) s" "lv_timestamp env (isoformat (lv_now env)) = Some (lv_now env)"
    "list_all fault_ok fs" "distinct (map fst fs)"
    "\<And>t a. t \<in> fst ` set fs \<Longrightarrow> dict_get held t = Some a \<Longrightarrow> a \<in> set (own_open s) \<and> al_title a = t"
    "\<And>t. t \<in> fst ` set fs \<Longrightarrow> dict_get held t = None \<Longrightarrow> t \<notin> al_title ` set (own_open s)"
  shows "\<exists>s'. write_faults env cfg held fs n s = Inr (n + length (filter (\<lambda>(t, f). dict_get held t = None) fs), s')
    \<and> wrote env (fst ` set fs) s s'
    \<and> (\<forall>a \<in> set (own_open s). \<forall>f. dict_get fs (al_title a) = Some f \<longrightarrow> (\<exists>b \<in> set (own_open s'). bumped f a b))"
  using assms
proof (induction fs arbitrary: s n)
  case Nil
  then show ?case by (simp add: wrote_none)
next
  case (Cons tf fs)
  obtain t f where tf: "tf = (t, f)" by fastforce
  have t_new: "t \<notin> fst ` set fs" using Cons.prems(4) by (auto simp: tf)
  have rest: "\<exists>s'. write_faults env cfg held fs k s1 = Inr (k + length (filter (\<lambda>(t, f). dict_get held t = None) fs), s')
      \<and> wrote env (fst ` set (tf # fs)) s s'
      \<and> (\<forall>a \<in> set (own_open s1). al_title a \<notin> fst ` set fs \<longrightarrow> a \<in> set (own_open s'))
      \<and> (\<forall>a \<in> set (own_open s). \<forall>f. al_title a \<noteq> t \<longrightarrow> dict_get fs (al_title a) = Some f
            \<longrightarrow> (\<exists>b \<in> set (own_open s'). bumped f a b))"
    if w: "wrote env {t} s s1" for s1 k
  proof -
    have "a \<in> set (own_open s1) \<and> al_title a = u" if "u \<in> fst ` set fs" "dict_get held u = Some a" for u a
      using Cons.prems(5) [of u a] that t_new w by (auto simp: wrote_def)
    moreover have "u \<notin> al_title ` set (own_open s1)" if "u \<in> fst ` set fs" "dict_get held u = None" for u
      using Cons.prems(6) [of u] that t_new w by (auto simp: wrote_def)
    ultimately obtain s' where s': "write_faults env cfg held fs k s1
          = Inr (k + length (filter (\<lambda>(t, f). dict_get held t = None) fs), s')" "wrote env (fst ` set fs) s1 s'"
      "\<forall>a \<in> set (own_open s1). \<forall>f. dict_get fs (al_title a) = Some f \<longrightarrow> (\<exists>b \<in> set (own_open s'). bumped f a b)"
      using Cons.IH [of s1 k] Cons.prems(2-4) w by (auto simp: wrote_def)
    have "wrote env ({t} \<union> fst ` set fs) s s'" using w s'(2) t_new by (intro wrote_trans) auto
    moreover have "\<forall>a \<in> set (own_open s). \<forall>f. al_title a \<noteq> t \<longrightarrow> dict_get fs (al_title a) = Some f
        \<longrightarrow> (\<exists>b \<in> set (own_open s'). bumped f a b)"
      using s'(3) w by (auto simp: wrote_def)
    moreover have "\<forall>a \<in> set (own_open s1). al_title a \<notin> fst ` set fs \<longrightarrow> a \<in> set (own_open s')"
      using s'(2) by (auto simp: wrote_def)
    ultimately show ?thesis using s'(1) by (auto simp: tf)
  qed
  show ?case
  proof (cases "dict_get held t")
    case (Some a)
    then have a: "a \<in> set (own_open s)" "al_title a = t" using Cons.prems(5) [of t a] by (auto simp: tf)
    obtain a' where r: "record_recurrence (lv_lib env) f (lv_now env) a = Inr a'"
      "wrote env {al_title a} s (s\<lparr>rows := store_row a' (rows s)\<rparr>)"
      "a' \<in> set (own_open (s\<lparr>rows := store_row a' (rows s)\<rparr>))" "bumped f a a'"
      by (rule recurrence_wrote [OF Cons.prems(1) a(1) Cons.prems(2)])
    obtain s' where s': "write_faults env cfg held fs n (s\<lparr>rows := store_row a' (rows s)\<rparr>)
        = Inr (n + length (filter (\<lambda>(t, f). dict_get held t = None) fs), s')" "wrote env (fst ` set (tf # fs)) s s'"
      "\<forall>b \<in> set (own_open (s\<lparr>rows := store_row a' (rows s)\<rparr>)). al_title b \<notin> fst ` set fs \<longrightarrow> b \<in> set (own_open s')"
      "\<forall>a \<in> set (own_open s). \<forall>f. al_title a \<noteq> t \<longrightarrow> dict_get fs (al_title a) = Some f
            \<longrightarrow> (\<exists>b \<in> set (own_open s'). bumped f a b)"
      using rest [of "s\<lparr>rows := store_row a' (rows s)\<rparr>" n] r(2) a(2) by blast
    have "a' \<in> set (own_open s')" using s'(3) r(3,4) t_new a(2) by (simp add: bumped_def)
    moreover have "b = a" if "b \<in> set (own_open s)" "al_title b = t" for b
      using own_open_title_inj [OF _ that(1) a(1)] that(2) a(2) Cons.prems(1) by (simp add: log_inv_def)
    ultimately have "\<forall>a \<in> set (own_open s). \<forall>g. dict_get (tf # fs) (al_title a) = Some g
        \<longrightarrow> (\<exists>b \<in> set (own_open s'). bumped g a b)"
      using s'(4) r(4) by (auto simp: tf dict_get_def)
    then show ?thesis using s'(1,2) Some r(1) by (auto simp: tf)
  next
    case None
    then have none: "t \<notin> al_title ` set (own_open s)" using Cons.prems(6) [of t] by (auto simp: tf)
    have "fault_ok (t, f)" using Cons.prems(3) by (simp add: tf)
    then obtain s1 where r: "raise_fault env cfg (t, f) s = Inr s1" "wrote env {t} s s1"
      using raise_wrote [OF Cons.prems(1) _ none Cons.prems(2)] by blast
    obtain s' where s': "write_faults env cfg held fs (Suc n) s1
        = Inr (Suc n + length (filter (\<lambda>(t, f). dict_get held t = None) fs), s')" "wrote env (fst ` set (tf # fs)) s s'"
      "\<forall>a \<in> set (own_open s). \<forall>f. al_title a \<noteq> t \<longrightarrow> dict_get fs (al_title a) = Some f
            \<longrightarrow> (\<exists>b \<in> set (own_open s'). bumped f a b)"
      using rest [OF r(2), of "Suc n"] by blast
    have "al_title a \<noteq> t" if "a \<in> set (own_open s)" for a using none that by auto
    then have "\<forall>a \<in> set (own_open s). \<forall>g. dict_get (tf # fs) (al_title a) = Some g
        \<longrightarrow> (\<exists>b \<in> set (own_open s'). bumped g a b)"
      using s'(3) by (auto simp: tf dict_get_def)
    then show ?thesis using s'(1,2) None r(1) by (auto simp: tf)
  qed
qed

lemma resolve_quiet_exact:
  assumes inv: "log_inv (lv_timestamp env) s"
  obtains s' where "resolve_quiet env cfg seen s = Inr (length (filter (gone_quiet env cfg seen) (rows s)), s')"
    "log_inv (lv_timestamp env) s'" "own_open s' = filter (\<lambda>a. \<not> gone_quiet env cfg seen a) (own_open s)"
    "others LOG_AGGREGATOR (rows s') = others LOG_AGGREGATOR (rows s)"
proof -
  let ?P = "gone_quiet env cfg seen"
  let ?t = "close_where ?P (lv_now env) (rows s)"
  have "\<not> list_ex (\<lambda>a. al_agent a = LOG_AGGREGATOR \<and> unresolved a \<and> last_seen env a = None) (rows s)"
    using inv last_seen_ok by (auto simp: log_inv_def own_open_def list_ex_iff)
  then obtain s' where r: "resolve_quiet env cfg seen s = Inr (length (filter ?P (rows s)), s')"
    "rows s' = ?t" "fresh_id s' = fresh_id s"
    by (auto simp: resolve_quiet_def Let_def)
  have own: "own_open s' = filter (\<lambda>a. \<not> ?P a) (own_open s)"
  proof -
    have "filter (\<lambda>a. al_agent a = LOG_AGGREGATOR \<and> unresolved a) (close_where P now t)
        = filter (\<lambda>a. \<not> P a) (filter (\<lambda>a. al_agent a = LOG_AGGREGATOR \<and> unresolved a) t)" for P now and t :: "alert list"
      by (induction t) (auto simp: close_where_def)
    then show ?thesis by (simp add: own_open_def r(2))
  qed
  have "session_ok s'"
    using inv r(2,3) schema_close_where by (auto simp: log_inv_def session_ok_def set_close_where)
  then have "log_inv (lv_timestamp env) s'" using inv own by (auto simp: log_inv_def)
  moreover have "others LOG_AGGREGATOR (rows s') = others LOG_AGGREGATOR (rows s)"
  proof -
    have "filter (\<lambda>a. al_agent a \<noteq> LOG_AGGREGATOR) (close_where ?P now t) = filter (\<lambda>a. al_agent a \<noteq> LOG_AGGREGATOR) t" for now t
      by (induction t) (auto simp: close_where_def gone_quiet_def)
    then show ?thesis by (simp add: others_def r(2))
  qed
  ultimately show ?thesis using that r(1) own by blast
qed

lemma others_rest: "others LOG_AGGREGATOR (rows s) = filter (\<lambda>a. al_agent a \<noteq> LOG_AGGREGATOR) (rest_rows s)"
  by (auto simp: others_def rest_rows_def intro: filter_cong)

lemma open_alerts_held:
  assumes "session_ok s" "t \<in> set titles"
  shows "dict_get (open_alerts titles s) t = Some a \<longleftrightarrow> a \<in> set (own_open s) \<and> al_title a = t"
proof -
  let ?o = "filter (\<lambda>a. al_title a \<in> set titles) (own_open s)"
  have o: "open_alerts titles s = map (\<lambda>a. (al_title a, a)) ?o"
    by (auto simp: open_alerts_def own_open_def intro: filter_cong)
  have "distinct (map al_id (rows s))" using assms(1) by (simp add: session_ok_def schema_ok_def)
  then have "distinct (own_open s)" by (auto simp: own_open_def distinct_map)
  then have "distinct (map al_title ?o)"
    using own_open_title_inj [OF assms(1)] by (auto simp: distinct_map inj_on_def)
  then have "distinct (map fst (open_alerts titles s))" by (simp add: o comp_def)
  then show ?thesis using assms(2) by (auto simp: dict_get_def o)
qed

text \<open>What the alert phase leaves, in terms of what it found.\<close>

definition phase_spec :: "log_env \<Rightarrow> log_config \<Rightarrow> faults \<Rightarrow> session \<Rightarrow> nat \<Rightarrow> session \<Rightarrow> bool" where
  "phase_spec env cfg faults s raised s' =
     (log_inv (lv_timestamp env) s'
      \<and> others LOG_AGGREGATOR (rows s') = others LOG_AGGREGATOR (rows s)
      \<and> raised = length (filter (\<lambda>(t, f). t \<notin> al_title ` set (own_open s)) faults)
      \<and> al_title ` set (own_open s')
          = fst ` set faults \<union> al_title ` {a \<in> set (own_open s). \<not> gone_quiet env cfg (map fst faults) a}
      \<and> (\<forall>a \<in> set (own_open s). case dict_get faults (al_title a) of
            None \<Rightarrow> (a \<in> set (own_open s')) = (\<not> gone_quiet env cfg (map fst faults) a)
          | Some f \<Rightarrow> \<exists>b \<in> set (own_open s'). bumped f a b))"

lemma alert_phase_exact:
  assumes inv: "log_inv (lv_timestamp env) s" and cast: "lv_timestamp env (isoformat (lv_now env)) = Some (lv_now env)"
    and fs: "list_all fault_ok faults" "dict_wf faults"
  shows "\<exists>raised resolved s'. alert_phase env cfg faults s = Inr ((raised, resolved), s')
    \<and> phase_spec env cfg faults s raised s'"
proof -
  let ?ts = "map fst faults"
  let ?held = "open_alerts ?ts s" and ?quiet = "gone_quiet env cfg ?ts"
  have ok: "session_ok s" using inv by (simp add: log_inv_def)
  note held = open_alerts_held [OF ok, of _ ?ts]
  have none: "dict_get ?held t = None \<longleftrightarrow> t \<notin> al_title ` set (own_open s)" if "t \<in> fst ` set faults" for t
  proof -
    have t: "t \<in> set ?ts" using that by simp
    have "dict_get ?held t \<noteq> None \<longleftrightarrow> (\<exists>a. a \<in> set (own_open s) \<and> al_title a = t)"
      using held [OF t] by blast
    then show ?thesis by blast
  qed
  have "\<exists>s1. write_faults env cfg ?held faults 0 s = Inr (0 + length (filter (\<lambda>(t, f). dict_get ?held t = None) faults), s1)
    \<and> wrote env (fst ` set faults) s s1
    \<and> (\<forall>a \<in> set (own_open s). \<forall>f. dict_get faults (al_title a) = Some f \<longrightarrow> (\<exists>b \<in> set (own_open s1). bumped f a b))"
    by (rule write_faults_wrote [OF inv cast fs(1)]) (use fs(2) held none in \<open>auto simp: dict_wf_def\<close>)
  then obtain s1 where w: "write_faults env cfg ?held faults 0 s = Inr (length (filter (\<lambda>(t, f). dict_get ?held t = None) faults), s1)"
    "wrote env (fst ` set faults) s s1"
    "\<forall>a \<in> set (own_open s). \<forall>f. dict_get faults (al_title a) = Some f \<longrightarrow> (\<exists>b \<in> set (own_open s1). bumped f a b)"
    by auto
  have inv1: "log_inv (lv_timestamp env) s1" using w(2) by (simp add: wrote_def)
  obtain s2 where q: "resolve_quiet env cfg ?ts s1 = Inr (length (filter ?quiet (rows s1)), s2)"
    "log_inv (lv_timestamp env) s2" "own_open s2 = filter (\<lambda>a. \<not> ?quiet a) (own_open s1)"
    "others LOG_AGGREGATOR (rows s2) = others LOG_AGGREGATOR (rows s1)"
    by (rule resolve_quiet_exact [OF inv1])
  have seen: "\<not> ?quiet a" if "al_title a \<in> fst ` set faults" for a using that by (simp add: gone_quiet_def)
  have keep: "a \<in> set (own_open s2) \<longleftrightarrow> a \<in> set (own_open s) \<and> \<not> ?quiet a" if "al_title a \<notin> fst ` set faults" for a
    using w(2) that q(3) by (auto simp: wrote_def)
  have "al_title ` set (own_open s2) = fst ` set faults \<union> al_title ` {a \<in> set (own_open s). \<not> ?quiet a}"
  proof (intro equalityI subsetI)
    fix t assume "t \<in> al_title ` set (own_open s2)"
    then obtain a where a: "a \<in> set (own_open s2)" "t = al_title a" by blast
    then show "t \<in> fst ` set faults \<union> al_title ` {a \<in> set (own_open s). \<not> ?quiet a}"
      using keep [of a] by blast
  next
    fix t assume t: "t \<in> fst ` set faults \<union> al_title ` {a \<in> set (own_open s). \<not> ?quiet a}"
    show "t \<in> al_title ` set (own_open s2)"
    proof (cases "t \<in> fst ` set faults")
      case True
      then have "t \<in> al_title ` set (own_open s1)" using w(2) by (simp add: wrote_def)
      then obtain a where "a \<in> set (own_open s1)" "t = al_title a" by blast
      then show ?thesis using q(3) seen [of a] True by auto
    next
      case False
      then obtain a where "a \<in> set (own_open s)" "\<not> ?quiet a" "t = al_title a" using t by blast
      then show ?thesis using keep [of a] False by blast
    qed
  qed
  moreover have "case dict_get faults (al_title a) of
      None \<Rightarrow> (a \<in> set (own_open s2)) = (\<not> ?quiet a) | Some f \<Rightarrow> \<exists>b \<in> set (own_open s2). bumped f a b"
    if a: "a \<in> set (own_open s)" for a
  proof (cases "dict_get faults (al_title a)")
    case None
    then have "al_title a \<notin> fst ` set faults" by (simp add: dict_get_def map_of_eq_None_iff)
    then show ?thesis using None keep [of a] a by simp
  next
    case (Some f)
    then obtain b where b: "b \<in> set (own_open s1)" "bumped f a b" using w(3) a by blast
    have "al_title a \<in> fst ` set faults" using Some by (metis dict_get_def map_of_eq_None_iff option.distinct(1))
    then have "b \<in> set (own_open s2)" using b q(3) seen [of b] by (simp add: bumped_def)
    then show ?thesis using Some b(2) by auto
  qed
  moreover have "filter (\<lambda>(t, f). dict_get ?held t = None) faults = filter (\<lambda>(t, f). t \<notin> al_title ` set (own_open s)) faults"
    by (rule filter_cong) (use none in force)+
  moreover have "others LOG_AGGREGATOR (rows s2) = others LOG_AGGREGATOR (rows s)"
    using q(4) w(2) by (simp add: others_rest wrote_def)
  ultimately show ?thesis using q(2) by (simp add: alert_phase_def w(1) q(1) phase_spec_def)
qed

section \<open>What the sources yield\<close>

definition lib_ok :: "text_lib \<Rightarrow> bool" where
  "lib_ok lib =
     (py_len (tl_marker lib) \<le> 100 \<and> (\<forall>t n. py_len (tl_truncate lib t n) \<le> n + py_len (tl_marker lib)))"

definition source_fits :: "log_source \<Rightarrow> bool" where
  "source_fits x =
     (py_len (lsrc_name x) \<le> 100 \<and> (case lsrc_unit x of None \<Rightarrow> True | Some u \<Rightarrow> py_len u \<le> 100))"

definition found_ok :: "faults \<Rightarrow> bool" where
  "found_ok fs = (faults_wf fs \<and> list_all fault_ok fs)"

lemma set_dict_set: "set (dict_set k v d) \<subseteq> insert (k, v) (set d)"
  unfolding dict_set_def by (induction d) auto

lemma found_ok_set:
  "found_ok fs \<Longrightarrow> fault_ok (t, f) \<Longrightarrow> flt_title f = t \<Longrightarrow> found_ok (dict_set t f fs)"
  using set_dict_set [of t f fs] by (auto simp: found_ok_def faults_wf_def list_all_iff)

lemma CRITICAL_SIGNATURES_ok:
  "map_of CRITICAL_SIGNATURES k = Some d \<Longrightarrow> py_len (cs_title d) \<le> 255 \<and> known_severity (cs_opens_at d)"
proof -
  assume "map_of CRITICAL_SIGNATURES k = Some d"
  then have "d = GPU_RESET \<or> d = GPU_RECOVERY_FAILED"
    by (auto simp: CRITICAL_SIGNATURES_def split: if_splits)
  moreover have "py_len (cs_title GPU_RESET) \<le> 255" "py_len (cs_title GPU_RECOVERY_FAILED) \<le> 255" by code_simp+
  ultimately show ?thesis
    by (auto simp: GPU_RESET_def GPU_RECOVERY_FAILED_def DECLARED_FLOOR_SEVERITY_def known_severity_iff)
qed

lemma note_fault_ok:
  assumes "found_ok fs" "lib_ok lib" "py_len (lg_source r) \<le> 100"
  shows "found_ok (note_fault lib cfg r fs)"
proof -
  let ?declared = "map_of CRITICAL_SIGNATURES (lg_source r, signature (lg_message r))"
  let ?title = "case ?declared of Some d \<Rightarrow> cs_title d
                         | None \<Rightarrow> alert_title lib (lg_severity r) (lg_source r) (lg_message r)"
  show ?thesis
  proof (cases "?declared = None \<and> lg_severity r \<notin> set FAULT_SEVERITIES")
    case True
    then show ?thesis using assms(1) by (simp add: note_fault_def Let_def)
  next
    case False
    have title: "py_len ?title \<le> 255"
    proof (cases ?declared)
      case None
      then have "py_len (lg_severity r) \<le> 8"
        using False by (auto simp: FAULT_SEVERITIES_def py_len_Cons utf8_continuation_def)
      then have "py_len (title_prefix (lg_severity r) (lg_source r)) + py_len (tl_marker lib) \<le> 242"
        using assms(2,3) by (simp add: py_len_prefix lib_ok_def)
      then show ?thesis using None alert_title_fits [of lib] assms(2) by (simp add: lib_ok_def)
    next
      case (Some d)
      then show ?thesis using CRITICAL_SIGNATURES_ok by simp
    qed
    have "known_severity (flt_severity (open_fault_of cfg t ?declared r))" for t
      using CRITICAL_SIGNATURES_ok
      by (auto simp: open_fault_of_def Let_def known_severity_iff NOISE_SEVERITY_def split: option.splits)
    then have new: "fault_ok (?title, open_fault_of cfg ?title ?declared r)" "flt_title (open_fault_of cfg ?title ?declared r) = ?title"
      using title by (simp_all add: fault_ok_def open_fault_of_def Let_def)
    have old: "fault_ok (?title, repeat_fault r f) \<and> flt_title (repeat_fault r f) = ?title" if "dict_get fs ?title = Some f" for f
    proof -
      have "(?title, f) \<in> set fs" using that by (auto simp: dict_get_def dest: map_of_SomeD)
      then show ?thesis using assms(1) by (auto simp: found_ok_def faults_wf_def list_all_iff fault_ok_def repeat_fault_def)
    qed
    have "note_fault lib cfg r fs = (case dict_get fs ?title of
        None \<Rightarrow> dict_set ?title (open_fault_of cfg ?title ?declared r) fs
      | Some f \<Rightarrow> dict_set ?title (repeat_fault r f) fs)"
      unfolding note_fault_def Let_def if_not_P [OF False] ..
    then show ?thesis using found_ok_set [OF assms(1)] new old by (cases "dict_get fs ?title") auto
  qed
qed

lemma ingest_entries_frame:
  assumes "ingest_entries lib cfg rs acc st = (acc', st')"
  shows "ls_sess st' = ls_sess st" "ls_mem st' = ls_mem st"
    "ls_unflushed st' = ls_unflushed st @ map (\<lambda>r. new_entry r (ls_sess st)) rs"
  using assms by (induction rs arbitrary: acc st) auto

lemma ingest_entries_ok:
  assumes "ingest_entries lib cfg rs acc st = (acc', st')" "found_ok (in_faults acc)" "lib_ok lib"
    "\<forall>r \<in> set rs. py_len (lg_source r) \<le> 100"
  shows "found_ok (in_faults acc')"
  using assms by (induction rs arbitrary: acc st) (auto simp: note_fault_ok)

lemma record_of_source: "record_of env rq line data = Inr (Some r) \<Longrightarrow> lg_source r = rq_unit rq"
  by (auto simp: record_of_def Let_def split: if_splits option.splits prod.splits sum.splits)

lemma read_lines_source:
  "read_lines env rq lines es c = Inr (es', c') \<Longrightarrow> \<forall>r \<in> set es. lg_source r = rq_unit rq \<Longrightarrow> \<forall>r \<in> set es'. lg_source r = rq_unit rq"
proof (induction lines arbitrary: es c)
  case (Cons line lines)
  show ?case
  proof (cases "jv_loads env line")
    case None
    then show ?thesis using Cons by simp
  next
    case (Some j)
    show ?thesis
    proof (cases j)
      case (JObj data)
      note j = Some [unfolded JObj]
      show ?thesis
      proof (cases "record_of env rq line data")
        case (Inl e)
        then show ?thesis using Cons.prems(1) by (simp add: j Let_def)
      next
        case (Inr x)
        let ?c = "case get_str data ''__CURSOR'' of None \<Rightarrow> c | Some c \<Rightarrow> Some c"
        have "read_lines env rq lines (case x of None \<Rightarrow> es | Some r \<Rightarrow> es @ [r]) ?c = Inr (es', c')"
          using Cons.prems(1) Inr by (cases x) (simp_all add: j Let_def)
        moreover have "\<forall>r \<in> set (case x of None \<Rightarrow> es | Some r \<Rightarrow> es @ [r]). lg_source r = rq_unit rq"
          using Cons.prems(2) record_of_source Inr by (cases x) auto
        ultimately show ?thesis by (rule Cons.IH)
      qed
    qed (use Cons.prems(1) Some in simp_all)
  qed
qed simp

lemma read_journal_source_unit:
  "read_journal env rq since c = Inr jr \<Longrightarrow> r \<in> set (jr_entries jr) \<Longrightarrow> lg_source r = rq_unit rq"
proof -
  assume rd: "read_journal env rq since c = Inr jr" and r: "r \<in> set (jr_entries jr)"
  show ?thesis
  proof (cases "journal_stdout env rq since c")
    case None
    then show ?thesis using rd r by (auto simp: read_journal_def)
  next
    case (Some out)
    obtain es cur where l: "read_lines env rq (reply_lines out) [] None = Inr (es, cur)" "jr_entries jr = es"
      using rd Some by (cases "read_lines env rq (reply_lines out) [] None") (auto simp: read_journal_def Let_def)
    then show ?thesis using read_lines_source [OF l(1)] r by simp
  qed
qed

text \<open>Reading changes nothing of the session but the log entries.\<close>

definition only_entries :: "session \<Rightarrow> session \<Rightarrow> bool" where
  "only_entries s s' = (s' = s\<lparr>log_entries := log_entries s'\<rparr>)"

lemma only_entries_refl [simp]: "only_entries s s"
  by (simp add: only_entries_def)

lemma only_entries_trans: "only_entries s s1 \<Longrightarrow> only_entries s1 s2 \<Longrightarrow> only_entries s s2"
  unfolding only_entries_def by (metis session.update_convs(3) session.surjective session.ext_inject)

lemma only_entriesD: "only_entries s s' \<Longrightarrow> rows s' = rows s" "only_entries s s' \<Longrightarrow> fresh_id s' = fresh_id s"
  unfolding only_entries_def by (metis session.select_convs session.surjective session.update_convs)+

lemma flush_entries_only: "only_entries (ls_sess st) (ls_sess (snd (flush_entries st)))"
  by (simp add: flush_entries_def only_entries_def)

lemma keep_cursor_sess [simp]: "ls_sess (keep_cursor n r st) = ls_sess st"
  by (simp add: keep_cursor_def split: option.splits)

lemma read_journal_source_ok:
  assumes "read_journal_source env cfg x st = (res, st')"
  shows "only_entries (ls_sess st) (ls_sess st')"
    "res = Inr jr \<Longrightarrow> r \<in> set (jr_entries jr) \<Longrightarrow> lg_source r = the (lsrc_unit x)"
proof -
  obtain fr st1 where fl: "flush_entries st = (fr, st1)" by fastforce
  have f: "only_entries (ls_sess st) (ls_sess st1)" using flush_entries_only [of st] by (simp add: fl)
  show "only_entries (ls_sess st) (ls_sess st')"
    using assms f
    by (auto simp: read_journal_source_def Let_def fl split: option.splits sum.splits prod.splits)
  have u: "rq_unit (journal_request_of cfg x) = the (lsrc_unit x)" by (simp add: journal_request_of_def)
  show "lg_source r = the (lsrc_unit x)" if "res = Inr jr" "r \<in> set (jr_entries jr)"
    using assms that read_journal_source_unit [of "lv_journal env" "journal_request_of cfg x"]
    by (auto simp: read_journal_source_def Let_def fl u split: option.splits sum.splits prod.splits)
qed

lemma in_take_filter: "x \<in> set (take n (filter P xs)) \<Longrightarrow> x \<in> set xs"
  using set_take_subset by fastforce

lemma read_log_file_source:
  "read_log_file env n path sf limit d m = (jr, m') \<Longrightarrow> r \<in> set (jr_entries jr) \<Longrightarrow> lg_source r = n"
proof -
  assume a: "read_log_file env n path sf limit d m = (jr, m')" and r: "r \<in> set (jr_entries jr)"
  show ?thesis
  proof (cases "lv_file env path")
    case (Content c)
    then have "r \<in> set (List.map_filter (\<lambda>l. parse_log_line (lv_now env) n (py_strip l))
        (file_lines (drop (if length c < dict_get_or (lm_file_offsets m) n 0 then 0 else dict_get_or (lm_file_offsets m) n 0) c)))"
      using a r in_take_filter by (auto simp: read_log_file_def Let_def)
    then show ?thesis by (auto simp: List.map_filter_def parse_log_line_def Let_def split: if_splits)
  qed (use a r in \<open>auto simp: read_log_file_def\<close>)
qed

lemma read_source_ok:
  assumes "read_source env cfg x st = (res, st')"
  shows "only_entries (ls_sess st) (ls_sess st')"
    "res = Inr (Some jr) \<Longrightarrow> source_fits x \<Longrightarrow> r \<in> set (jr_entries jr) \<Longrightarrow> py_len (lg_source r) \<le> 100"
proof -
  obtain jres st1 where j: "read_journal_source env cfg x st = (jres, st1)" by fastforce
  note jo = read_journal_source_ok [OF j]
  show "only_entries (ls_sess st) (ls_sess st')"
    using assms jo(1) by (auto simp: read_source_def j split: if_splits sum.splits prod.splits)
  show "py_len (lg_source r) \<le> 100" if "res = Inr (Some jr)" "source_fits x" "r \<in> set (jr_entries jr)"
    using assms that jo(2) read_log_file_source
    by (auto simp: read_source_def j source_fits_def given_def split: if_splits sum.splits prod.splits)
qed

lemma ingest_sources_ok:
  assumes "ingest_sources env cfg xs acc st = (res, st')" "found_ok (in_faults acc)" "lib_ok (lv_lib env)"
    "list_all source_fits xs"
  shows "only_entries (ls_sess st) (ls_sess st') \<and> (\<forall>acc'. res = Inr acc' \<longrightarrow> found_ok (in_faults acc'))"
  using assms
proof (induction xs arbitrary: acc st)
  case (Cons x xs)
  obtain r1 st1 where rd: "read_source env cfg x st = (r1, st1)" by fastforce
  note ro = read_source_ok [OF rd]
  show ?case
  proof (cases r1)
    case (Inl e)
    then show ?thesis using Cons.prems(1) ro(1) by (auto simp: rd)
  next
    case (Inr o1)
    show ?thesis
    proof (cases o1)
      case None
      then have "only_entries (ls_sess st1) (ls_sess st') \<and> (\<forall>acc'. res = Inr acc' \<longrightarrow> found_ok (in_faults acc'))"
        using Cons.IH [of acc st1] Cons.prems Inr by (simp add: rd)
      then show ?thesis using ro(1) only_entries_trans by blast
    next
      case (Some jr)
      let ?acc = "if jr_truncated jr then acc\<lparr>in_truncated := in_truncated acc @ [lsrc_name x]\<rparr> else acc"
      obtain acc2 st2 where i: "ingest_entries (lv_lib env) cfg (jr_entries jr) ?acc st1 = (acc2, st2)" by fastforce
      have "found_ok (in_faults ?acc)" using Cons.prems(2) by simp
      note io = ingest_entries_ok [OF i this Cons.prems(3)]
      have fits: "\<forall>r \<in> set (jr_entries jr). py_len (lg_source r) \<le> 100"
        using ro(2) [of jr] Cons.prems(4) Inr Some by auto
      have "only_entries (ls_sess st2) (ls_sess st') \<and> (\<forall>acc'. res = Inr acc' \<longrightarrow> found_ok (in_faults acc'))"
        using Cons.IH [of acc2 st2] Cons.prems Inr Some io [OF fits] by (simp add: rd i Let_def)
      then show ?thesis using ro(1) only_entries_trans ingest_entries_frame(1) [OF i] by metis
    qed
  qed
qed auto

lemma fold_found_ok:
  assumes "found_ok fs"
  shows "\<exists>folded. fold_declared_incidents fs related = Some folded \<and> dict_wf folded \<and> list_all fault_ok folded"
proof -
  obtain folded where f: "fold_declared_incidents fs related = Some folded" "dict_wf folded"
    "\<forall>t f. dict_get fs t = Some f \<longrightarrow>
          (\<exists>ms. dict_get folded t = Some (f\<lparr>flt_members := flt_members f @ ms\<rparr>))
          \<or> dict_get folded t = None
            \<and> (\<exists>title. absorbed ALERT_INCIDENT_WINDOW_SECONDS fs folded f title)"
    "\<forall>t. dict_get folded t \<noteq> None \<longrightarrow> dict_get fs t \<noteq> None"
    using fold_settles [of fs related] assms unfolding found_ok_def by blast
  have "fault_ok (t, g)" if g: "(t, g) \<in> set folded" for t g
  proof -
    have dg: "dict_get folded t = Some g" using f(2) g by (simp add: dict_get_def dict_wf_def)
    then obtain h where h: "dict_get fs t = Some h" using f(4) by fastforce
    then obtain ms where "g = h\<lparr>flt_members := flt_members h @ ms\<rparr>" using f(3) dg by fastforce
    moreover have "(t, h) \<in> set fs" using h by (auto simp: dict_get_def dest: map_of_SomeD)
    ultimately show ?thesis using assms by (auto simp: found_ok_def list_all_iff fault_ok_def)
  qed
  then show ?thesis using f(1,2) by (auto simp: list_all_iff)
qed

section \<open>One run\<close>

lemma note_relations_frame [simp]:
  "rows (note_relations env s) = rows s" "fresh_id (note_relations env s) = fresh_id s"
  by (simp_all add: note_relations_def split: sum.splits)

lemma phase_spec_cong:
  assumes "phase_spec env cfg fs s n s'" "rows t = rows s" "rows t' = rows s'" "fresh_id t' = fresh_id s'"
  shows "phase_spec env cfg fs t n t'"
proof -
  have o: "own_open t = own_open s" "own_open t' = own_open s'" using assms(2,3) by (simp_all add: own_open_def)
  show ?thesis using assms(1) unfolding phase_spec_def log_inv_def session_ok_def o assms(2-4) .
qed

lemma aggregate_ok:
  assumes inv: "log_inv (lv_timestamp env) s" and lib: "lib_ok (lv_lib env)" and fits: "list_all source_fits (la_sources cfg)"
    and cast: "lv_timestamp env (isoformat (lv_now env)) = Some (lv_now env)"
    and rd: "ingest_sources env cfg (la_sources cfg) no_ingest \<lparr>ls_mem = m, ls_sess = s, ls_unflushed = []\<rparr> = (Inr acc, st)"
    and ok: "list_all entry_ok (ls_unflushed st)"
  shows "\<exists>faults res s'. fold_declared_incidents (in_faults acc) (relations env) = Some faults
    \<and> aggregate env cfg m s = (Inr res, ls_mem st, s') \<and> findings_count res = int (in_total acc)
    \<and> phase_spec env cfg faults s (nat (alerts_raised res)) s'"
proof -
  have "found_ok (in_faults no_ingest)" by (simp add: no_ingest_def found_ok_def faults_wf_def)
  note io = ingest_sources_ok [OF rd this lib fits]
  have oe: "only_entries s (ls_sess st)" and found: "found_ok (in_faults acc)" using io by auto
  obtain faults where f: "fold_declared_incidents (in_faults acc) (relations env) = Some faults"
    "dict_wf faults" "list_all fault_ok faults" using fold_found_ok [OF found] by blast
  let ?s0 = "note_relations env (ls_sess st)"
  let ?s1 = "?s0\<lparr>log_entries := log_entries ?s0 @ ls_unflushed st\<rparr>"
  have r1: "rows ?s1 = rows s" "fresh_id ?s1 = fresh_id s" using only_entriesD [OF oe] by simp_all
  then have "log_inv (lv_timestamp env) ?s1" using inv by (simp add: log_inv_def own_open_def session_ok_def)
  then obtain raised resolved s2 where p: "alert_phase env cfg faults ?s1 = Inr ((raised, resolved), s2)"
    "phase_spec env cfg faults ?s1 raised s2" using alert_phase_exact [OF _ cast f(3,2)] by blast
  let ?s' = "if in_truncated acc = [] then s2 else log_line ''warning'' ''log_read_truncated'' s2"
  let ?res = "\<lparr>findings_count = int (in_total acc), alerts_raised = int raised,
      res_details =
        [(''entries_ingested'', JNum (of_nat (in_total acc))),
         (''distinct_faults'', JNum (of_nat (length faults))),
         (''alerts_resolved'', JNum (of_nat resolved)),
         (''truncated_sources'', JArr (map JStr (in_truncated acc)))]\<rparr>"
  have agg: "aggregate env cfg m s = (Inr ?res, ls_mem st, ?s')"
    using ok by (simp add: aggregate_def rd f(1) flush_entries_def Let_def p(1))
  have "phase_spec env cfg faults s (nat (alerts_raised ?res)) ?s'"
    using phase_spec_cong [OF p(2), of s ?s'] r1 by simp
  then show ?thesis using f(1) agg by (intro exI [of _ faults] exI [of _ ?res] exI [of _ ?s']) simp
qed

text \<open>
  C25: a run of the log aggregator whose sources were read and whose entries the database accepts
  never fails afterwards, and leaves exactly this state of its alerts: one open row for every fault
  of the poll (folded into incidents), raised if there was none and otherwise the same row with
  its count of occurrences increased by the lines of this poll; every other open row of the
  agent open as it was, unless its fault has not been seen for the quiet period, in which case it
  is closed; the rows of other agents untouched. The rows it will read back are again readable.
\<close>

theorem log_run_exact:
  assumes "log_inv (lv_timestamp env) s" "lib_ok (lv_lib env)" "list_all source_fits (la_sources cfg)"
    "lv_timestamp env (isoformat (lv_now env)) = Some (lv_now env)"
    "ingest_sources env cfg (la_sources cfg) no_ingest \<lparr>ls_mem = m, ls_sess = s, ls_unflushed = []\<rparr> = (Inr acc, st)"
    "list_all entry_ok (ls_unflushed st)"
  shows "\<exists>faults res s'. fold_declared_incidents (in_faults acc) (relations env) = Some faults
    \<and> aggregate env cfg m s = (Inr res, ls_mem st, s') \<and> findings_count res = int (in_total acc)
    \<and> phase_spec env cfg faults s (nat (alerts_raised res)) s'"
  by (rule aggregate_ok [OF assms])

definition sample_source :: log_source where
  "sample_source =
     \<lparr>lsrc_name = ''app'', lsrc_type = ''file'', lsrc_unit = None, lsrc_user = False, lsrc_path = Some ''/var/log/app.log'',
      lsrc_severity_filter = ''warning'', lsrc_format = ''text''\<rparr>"

definition sample_log_config :: log_config where
  "sample_log_config =
     \<lparr>la_sources = [sample_source], la_known_noise = [], la_alert_quiet_minutes = 15, la_critical_repeat_hours = 24,
      la_max_entries_per_read = 500\<rparr>"

definition sample_log_env :: log_env where
  "sample_log_env =
     \<lparr>lv_now = 0, lv_journal = \<lparr>jv_now = 0, jv_loads = (\<lambda>_. None), jv_journalctl = (\<lambda>_. Not_Found)\<rparr>,
      lv_file = (\<lambda>_. Content ''ERROR disk 1''), lv_relations = Inr [], lv_lib = sample_lib,
      lv_timestamp = (\<lambda>_. Some 0)\<rparr>"

definition sample_log_session :: session where
  "sample_log_session =
     \<lparr>rows = [], health = [], log_entries = [], fresh_id = 0, tx_time = 0, pending_events = Some [], published = [],
      logs = []\<rparr>"

lemma sample_lib_ok: "lib_ok sample_lib"
proof -
  have "py_len (take n t) \<le> n" for n t using py_len_le [of "take n t"] by simp
  moreover have "py_len ellipsis \<le> 100" by code_simp
  ultimately show ?thesis by (simp add: lib_ok_def sample_lib_def)
qed

definition sample_memory :: log_memory where
  "sample_memory = \<lparr>lm_file_offsets = [], lm_cursors = []\<rparr>"

lemma py_take_all: "length s \<le> n \<Longrightarrow> py_take n s = s"
  by (induction n s rule: py_take.induct) (auto split: nat.splits)

definition sample_record :: log_record where
  "sample_record =
     \<lparr>lg_source = ''app'', lg_severity = ''error'', lg_message = ''ERROR disk 1'', lg_logged_at = 0,
      lg_raw_line = ''ERROR disk 1'', lg_metadata = []\<rparr>"

lemma sample_parse: "parse_log_line 0 ''app'' ''ERROR disk 1'' = Some sample_record"
proof -
  have "\<not> py_in ''CRITICAL'' (py_upper ''ERROR disk 1'')" "\<not> py_in ''FATAL'' (py_upper ''ERROR disk 1'')"
    "py_in ''ERROR'' (py_upper ''ERROR disk 1'')" by code_simp+
  then show ?thesis
    by (simp add: parse_log_line_def Let_def sample_record_def py_take_all STORED_RAW_LINE_CHARS_def)
qed

lemma sample_read:
  "read_log_file sample_log_env ''app'' ''/var/log/app.log'' ''warning'' 500 [] sample_memory
     = (\<lparr>jr_entries = [sample_record], jr_cursor = None, jr_truncated = False\<rparr>,
        \<lparr>lm_file_offsets = [(''app'', 12)], lm_cursors = []\<rparr>)"
proof -
  have l: "file_lines ''ERROR disk 1'' = [''ERROR disk 1'']" by code_simp
  have p: "py_strip ''ERROR disk 1'' = ''ERROR disk 1''" by code_simp
  have ad: "admits ''error'' ''warning'' ''ERROR disk 1'' []" by code_simp
  show ?thesis
    by (simp add: read_log_file_def sample_log_env_def sample_memory_def dict_get_or_def l p List.map_filter_simps
        sample_parse sample_record_def ad [unfolded sample_record_def] dict_set_def)
qed

definition sample_title :: string where
  "sample_title = ''Log error: app '' @ em_dash @ '' ERROR disk N''"

definition sample_found :: faults where
  "sample_found = [(sample_title, open_fault_of sample_log_config sample_title None sample_record)]"

lemma sample_ingest:
  "ingest_sources sample_log_env sample_log_config (la_sources sample_log_config) no_ingest
     \<lparr>ls_mem = sample_memory, ls_sess = sample_log_session, ls_unflushed = []\<rparr>
   = (Inr \<lparr>in_total = 1, in_truncated = [], in_faults = sample_found\<rparr>,
      \<lparr>ls_mem = \<lparr>lm_file_offsets = [(''app'', 12)], lm_cursors = []\<rparr>, ls_sess = sample_log_session,
       ls_unflushed = [new_entry sample_record sample_log_session]\<rparr>)"
proof -
  have d: "declared_rungs_for sample_source = []" by code_simp
  have t: "alert_title sample_lib ''error'' ''app'' ''ERROR disk 1'' = sample_title" by code_simp
  have c: "map_of CRITICAL_SIGNATURES (''app'', signature ''ERROR disk 1'') = None" by (simp add: CRITICAL_SIGNATURES_def)
  have n: "note_fault sample_lib sample_log_config sample_record [] = sample_found"
    using t c by (simp add: note_fault_def sample_found_def sample_record_def FAULT_SEVERITIES_def dict_set_def)
  have rs: "read_source sample_log_env sample_log_config sample_source
      \<lparr>ls_mem = sample_memory, ls_sess = sample_log_session, ls_unflushed = []\<rparr>
    = (Inr (Some \<lparr>jr_entries = [sample_record], jr_cursor = None, jr_truncated = False\<rparr>),
       \<lparr>ls_mem = \<lparr>lm_file_offsets = [(''app'', 12)], lm_cursors = []\<rparr>, ls_sess = sample_log_session, ls_unflushed = []\<rparr>)"
    using sample_read d by (simp add: read_source_def sample_source_def given_def sample_log_config_def)
  have "la_sources sample_log_config = [sample_source]" "lv_lib sample_log_env = sample_lib"
    by (simp_all add: sample_log_config_def sample_log_env_def)
  then show ?thesis using n by (simp add: rs no_ingest_def)
qed

theorem log_run_exact_witness:
  "\<exists>faults res s'. map fst faults = [sample_title]
     \<and> aggregate sample_log_env sample_log_config sample_memory sample_log_session
         = (Inr res, \<lparr>lm_file_offsets = [(''app'', 12)], lm_cursors = []\<rparr>, s')
     \<and> phase_spec sample_log_env sample_log_config faults sample_log_session (nat (alerts_raised res)) s'"
proof -
  have k: "map_option (map fst) (fold_declared_incidents sample_found (relations sample_log_env)) = Some [sample_title]"
    by (simp add: fold_declared_incidents_def sample_found_def correlate_def moment_of_def fold_group_def)
  have inv: "log_inv (lv_timestamp sample_log_env) sample_log_session"
    by (simp add: log_inv_def own_open_def sample_log_session_def session_ok_def schema_ok_def
        uq_alerts_open_agent_title_def)
  have fits: "list_all source_fits (la_sources sample_log_config)" by code_simp
  have cast: "lv_timestamp sample_log_env (isoformat (lv_now sample_log_env)) = Some (lv_now sample_log_env)"
    by (simp add: sample_log_env_def)
  have lib: "lib_ok (lv_lib sample_log_env)" using sample_lib_ok by (simp add: sample_log_env_def)
  have "py_len ''app'' \<le> 100" by code_simp
  then have ok: "list_all entry_ok [new_entry sample_record sample_log_session]"
    by (simp add: entry_ok_def new_entry_def sample_record_def py_take_all STORED_RAW_LINE_CHARS_def
        STORED_MESSAGE_CHARS_def LOG_SEVERITIES_def)
  obtain faults r s' where f: "fold_declared_incidents sample_found (relations sample_log_env) = Some faults"
    "aggregate sample_log_env sample_log_config sample_memory sample_log_session
       = (Inr r, \<lparr>lm_file_offsets = [(''app'', 12)], lm_cursors = []\<rparr>, s')"
    "phase_spec sample_log_env sample_log_config faults sample_log_session (nat (alerts_raised r)) s'"
    using log_run_exact [OF inv lib fits cast sample_ingest] ok by auto
  have "map fst faults = [sample_title]" using k f(1) by simp
  then show ?thesis
    using f(2,3) by (intro exI [of _ faults] exI [of _ r] exI [of _ s'] conjI) assumption+
qed

section \<open>Resuming\<close>


section \<open>A failed run\<close>

lemma aggregate_memory:
  assumes "ingest_sources env cfg (la_sources cfg) no_ingest \<lparr>ls_mem = m, ls_sess = s, ls_unflushed = []\<rparr> = (res, st)"
  shows "fst (snd (aggregate env cfg m s)) = ls_mem st"
proof -
  have f: "ls_mem (snd (flush_entries st)) = ls_mem st" for st by (simp add: flush_entries_def)
  let ?st = "st\<lparr>ls_sess := note_relations env (ls_sess st)\<rparr>"
  obtain fr st1 where fl: "flush_entries ?st = (fr, st1)" by fastforce
  then have "ls_mem st1 = ls_mem st" using f [of ?st] by simp
  then show ?thesis
    using assms fl by (auto simp: aggregate_def Let_def split: sum.splits option.splits prod.splits)
qed


definition sample_journal_env :: journal_env where
  "sample_journal_env =
     \<lparr>jv_now = 9,
      jv_loads = (\<lambda>_. Some (JObj [(''MESSAGE'', JStr ''lost 1''), (''PRIORITY'', JStr ''3''),
                    (''__REALTIME_TIMESTAMP'', JStr ''7''), (''__CURSOR'', JStr ''c1'')])),
      jv_journalctl = (\<lambda>_. Exited 0 ''line'')\<rparr>"

definition journal_source :: log_source where
  "journal_source =
     \<lparr>lsrc_name = ''app'', lsrc_type = ''journalctl'', lsrc_unit = Some ''app.service'', lsrc_user = False, lsrc_path = None,
      lsrc_severity_filter = ''warning'', lsrc_format = ''text''\<rparr>"

definition journal_log_config :: log_config where
  "journal_log_config = sample_log_config\<lparr>la_sources := [journal_source]\<rparr>"

definition journal_log_env :: log_env where
  "journal_log_env = sample_log_env\<lparr>lv_journal := sample_journal_env\<rparr>"

definition journal_record :: log_record where
  "journal_record =
     \<lparr>lg_source = ''app.service'', lg_severity = ''error'', lg_message = ''lost 1'', lg_logged_at = 7, lg_raw_line = ''line'',
      lg_metadata = [(''pid'', JNull), (''hostname'', JNull), (''syslog_identifier'', JNull)]\<rparr>"

lemma sample_journal_read:
  "read_journal sample_journal_env (journal_request_of journal_log_config journal_source) since c
     = Inr \<lparr>jr_entries = [journal_record], jr_cursor = Some ''c1'', jr_truncated = False\<rparr>"
proof -
  let ?rq = "journal_request_of journal_log_config journal_source"
  let ?data = "[(''MESSAGE'', JStr ''lost 1''), (''PRIORITY'', JStr ''3''),
      (''__REALTIME_TIMESTAMP'', JStr ''7''), (''__CURSOR'', JStr ''c1'')]"
  have rq: "rq_format ?rq = ''text''" "rq_unit ?rq = ''app.service''" "rq_severity_filter ?rq = ''warning''" "rq_limit ?rq = 500"
    by (simp_all add: journal_request_of_def journal_log_config_def journal_source_def sample_log_config_def)
  have out: "journal_stdout sample_journal_env ?rq since c = Some ''line''"
    by (simp add: journal_stdout_def run_journalctl_def sample_journal_env_def Let_def split: option.splits)
  have l: "reply_lines ''line'' = [''line'']" by code_simp
  have p: "priority_severity (JStr ''3'') = ''error''" "py_int_text ''7'' = Some 7" by code_simp+
  have ad: "admits ''error'' ''warning'' ''lost 1'' d" for d
    by (simp add: admits_def log_rank_def LOG_SEVERITY_ORDER_def dict_get_or_def)
  have "record_of sample_journal_env ?rq ''line'' ?data = Inr (Some journal_record)"
    by (simp add: record_of_def Let_def rq p ad dict_get_def dict_get_or_def message_text_def int_of_json_def dict_merge_def
        py_take_all STORED_RAW_LINE_CHARS_def journal_record_def)
  moreover have "get_str ?data ''__CURSOR'' = Some ''c1''" by (simp add: get_str_def)
  ultimately show ?thesis
    by (simp add: read_journal_def out l Let_def sample_journal_env_def [THEN arg_cong, of jv_loads] rq)
qed

definition stored_session :: session where
  "stored_session = sample_log_session\<lparr>log_entries :=
     [\<lparr>le_source = ''app.service'', le_severity = ''error'', le_message = ''old'', le_raw_line = None, le_metadata = [],
       le_logged_at = 5, le_ingested_at = 6\<rparr>]\<rparr>"



end
