(* ===== verification/Event_Bus.thy ===== *)
theory Event_Bus
  imports Sys_Prelude
begin

text \<open>
  The in-process event bus (\<open>core/event_bus.py\<close>) and the fan-out of its events to the connected
  clients (\<open>monitor/sse.py\<close>): who is called for an event, on which loop, and what a client that
  reads slowly still receives. The abstract specification of a client is an append-only log with
  a read position; \<open>stream_refines_log\<close> shows that the bounded queues implement it.
\<close>

section \<open>The bus\<close>

text \<open>
  A subscriber: its \<open>__name__\<close>, which a function and a bound method have and a
  \<open>functools.partial\<close> has not, and what calling it does to the state it works on, with the
  exception it raised if it did.
\<close>

record 's callback =
  cb_name :: "string option"
  cb_call :: "jobj \<Rightarrow> 's \<Rightarrow> py_error option \<times> 's"

text \<open>The bus; an event loop is a number, and so is the identity of the bus.\<close>

record 's event_bus =
  bus_id :: nat
  subscribers :: "(string, 's callback list) dict"
  bus_loop :: "nat option"

definition bus_subscribe :: "string \<Rightarrow> 's callback \<Rightarrow> 's event_bus \<Rightarrow> 's event_bus" where
  "bus_subscribe event_type cb b =
     b\<lparr>subscribers := dict_set event_type (dict_get_or (subscribers b) event_type [] @ [cb]) (subscribers b)\<rparr>"

definition bind_loop :: "nat \<Rightarrow> 's event_bus \<Rightarrow> 's event_bus" where
  "bind_loop loop b = b\<lparr>bus_loop := Some loop\<rparr>"

text \<open>
  The loop of \<open>publish\<close>: the exception that left it (none as a rule), the state after the
  callbacks that ran, and the names logged under \<open>event_bus_callback_error\<close>. The handler reads
  \<open>callback.__name__\<close>, so a failing callback without one makes the handler itself raise.
\<close>

fun run_callbacks :: "'s callback list \<Rightarrow> jobj \<Rightarrow> 's \<Rightarrow> py_error option \<times> 's \<times> string list" where
  "run_callbacks [] _ s = (None, s, [])"
| "run_callbacks (cb # cbs) data s =
     (case cb_call cb data s of
        (None, s') \<Rightarrow> run_callbacks cbs data s'
      | (Some _, s') \<Rightarrow>
          (case cb_name cb of
             None \<Rightarrow> (Some (OtherError ''AttributeError''), s', [])
           | Some n \<Rightarrow> (case run_callbacks cbs data s' of (x, s'', ns) \<Rightarrow> (x, s'', n # ns))))"

definition publish :: "'s event_bus \<Rightarrow> string \<Rightarrow> jobj option \<Rightarrow> 's \<Rightarrow> py_error option \<times> 's \<times> string list" where
  "publish b event_type data s =
     run_callbacks (dict_get_or (subscribers b) event_type []) (case data of None \<Rightarrow> [] | Some d \<Rightarrow> d) s"

text \<open>
  What becomes of an event published from any thread: no usable loop, a task on the running loop,
  the bound loop of another thread, or a loop that closed in the meantime.
\<close>

datatype spawned = NoLoop | CreatedTask nat | HandedOver nat | PublishDropped

definition spawn :: "nat \<Rightarrow> nat option \<Rightarrow> (nat \<Rightarrow> bool) \<Rightarrow> spawned" where
  "spawn loop running closing =
     (if running = Some loop then CreatedTask loop
      else if closing loop then PublishDropped
      else HandedOver loop)"

definition publish_threadsafe ::
  "'s event_bus \<Rightarrow> nat option \<Rightarrow> (nat \<Rightarrow> bool) \<Rightarrow> (nat \<Rightarrow> bool) \<Rightarrow> spawned" where
  "publish_threadsafe b running is_closed closing =
     (case (case bus_loop b of Some l \<Rightarrow> Some l | None \<Rightarrow> running) of
        None \<Rightarrow> NoLoop
      | Some target \<Rightarrow> if is_closed target then NoLoop else spawn target running closing)"

section \<open>The broadcaster\<close>

definition STREAMED_EVENTS :: "string list" where
  "STREAMED_EVENTS = [''alert.raised'', ''alert.resolved'', ''agent.run'', ''service.status'']"

record sse_event =
  ev_type :: string
  ev_data :: jobj
  ev_ts :: string

definition payload :: "sse_event \<Rightarrow> jobj" where
  "payload e = [(''event'', JStr (ev_type e)), (''data'', JObj (ev_data e)), (''ts'', JStr (ev_ts e))]"

text \<open>\<open>asyncio.Queue\<close>: a bound of zero or less means none.\<close>

record queue =
  q_maxsize :: int
  q_items :: "sse_event list"

definition queue_full :: "queue \<Rightarrow> bool" where
  "queue_full q \<longleftrightarrow> 0 < q_maxsize q \<and> q_maxsize q \<le> int (length (q_items q))"

definition get_nowait :: "queue \<Rightarrow> queue" where
  "get_nowait q = q\<lparr>q_items := tl (q_items q)\<rparr>"

definition put_nowait :: "sse_event \<Rightarrow> queue \<Rightarrow> queue" where
  "put_nowait e q = (if queue_full q then q else q\<lparr>q_items := q_items q @ [e]\<rparr>)"

text \<open>The set of queues, each under the identity of its object.\<close>

record broadcaster =
  br_queues :: "(nat \<times> queue) list"
  br_max_queue :: int
  br_attached :: "nat list"
  br_fresh :: nat

definition broadcaster_init :: "int \<Rightarrow> broadcaster" where
  "broadcaster_init max_queue = \<lparr>br_queues = [], br_max_queue = max_queue, br_attached = [], br_fresh = 0\<rparr>"

definition subscriber_count :: "broadcaster \<Rightarrow> nat" where
  "subscriber_count br = length (br_queues br)"

definition offer :: "sse_event \<Rightarrow> queue \<Rightarrow> queue" where
  "offer e q = put_nowait e (if queue_full q then get_nowait q else q)"

definition dispatch_event :: "sse_event \<Rightarrow> broadcaster \<Rightarrow> broadcaster" where
  "dispatch_event e br = br\<lparr>br_queues := map (map_prod id (offer e)) (br_queues br)\<rparr>"

text \<open>The state the bus callbacks work on: the broadcaster and the clock.\<close>

record world =
  w_broadcaster :: broadcaster
  w_now :: instant

definition on_event :: "string \<Rightarrow> jobj \<Rightarrow> world \<Rightarrow> world" where
  "on_event event_type data w =
     w\<lparr>w_broadcaster := dispatch_event
        \<lparr>ev_type = event_type, ev_data = data, ev_ts = isoformat (w_now w)\<rparr> (w_broadcaster w)\<rparr>"

definition sse_callback :: "string \<Rightarrow> world callback" where
  "sse_callback event_type = \<lparr>cb_name = None, cb_call = (\<lambda>data w. (None, on_event event_type data w))\<rparr>"

definition attach :: "world event_bus \<Rightarrow> broadcaster \<Rightarrow> world event_bus \<times> broadcaster" where
  "attach b br =
     (if bus_id b \<in> set (br_attached br) then (b, br)
      else (fold (\<lambda>t. bus_subscribe t (sse_callback t)) STREAMED_EVENTS b,
            br\<lparr>br_attached := bus_id b # br_attached br\<rparr>))"

section \<open>Streams\<close>

text \<open>
  \<open>subscribe\<close> and its \<open>finally\<close>; \<open>max_queue or self._max_queue\<close> takes the default for an explicit
  zero as well.
\<close>

definition sse_maxsize :: "int option \<Rightarrow> int \<Rightarrow> int" where
  "sse_maxsize max_queue otherwise = (case max_queue of None \<Rightarrow> otherwise | Some n \<Rightarrow> if n = 0 then otherwise else n)"

definition sse_subscribe :: "int option \<Rightarrow> broadcaster \<Rightarrow> nat \<times> broadcaster" where
  "sse_subscribe max_queue br =
     (br_fresh br, br\<lparr>br_queues := br_queues br @
        [(br_fresh br, \<lparr>q_maxsize = sse_maxsize max_queue (br_max_queue br), q_items = []\<rparr>)],
        br_fresh := Suc (br_fresh br)\<rparr>)"

definition sse_unsubscribe :: "nat \<Rightarrow> broadcaster \<Rightarrow> broadcaster" where
  "sse_unsubscribe c br = br\<lparr>br_queues := filter (\<lambda>(d, _). d \<noteq> c) (br_queues br)\<rparr>"

text \<open>
  What \<open>event_stream\<close> yields, and the text of it (\<open>dumps\<close> is \<open>json.dumps\<close>). A client's next frame
  is the oldest event of its queue; when the queue stays empty for the heartbeat, the comment
  line.
\<close>

datatype sse_item = Hello sse_event | Heartbeat | Streamed sse_event

definition HEARTBEAT :: string where
  "HEARTBEAT = '': keepalive'' @ newline @ newline"

definition format_sse :: "(jobj \<Rightarrow> string) \<Rightarrow> string \<Rightarrow> jobj \<Rightarrow> int option \<Rightarrow> string" where
  "format_sse dumps event_type data retry_ms =
     py_join newline
       ((case retry_ms of None \<Rightarrow> [] | Some n \<Rightarrow> [''retry: '' @ show_int n]) @
        [''event: '' @ event_type, ''data: '' @ dumps data]) @ newline @ newline"

fun frame_text :: "(jobj \<Rightarrow> string) \<Rightarrow> int \<Rightarrow> sse_item \<Rightarrow> string" where
  "frame_text dumps retry_ms (Hello e) = format_sse dumps (ev_type e) (payload e) (Some retry_ms)"
| "frame_text dumps retry_ms Heartbeat = HEARTBEAT"
| "frame_text dumps retry_ms (Streamed e) = format_sse dumps (ev_type e) (payload e) None"

text \<open>
  What can happen to the broadcaster: a client opens a stream at some moment, an event is
  dispatched, a client's generator is asked for its next frame, a client goes away.
\<close>

datatype sse_op = Connect "int option" instant | Dispatch sse_event | Next_frame nat | Close nat

definition hello_event :: "instant \<Rightarrow> sse_event" where
  "hello_event now = \<lparr>ev_type = ''connected'', ev_data = [], ev_ts = isoformat now\<rparr>"

definition next_frame :: "nat \<Rightarrow> broadcaster \<Rightarrow> broadcaster \<times> (nat \<times> sse_item) list" where
  "next_frame c br =
     (case map_of (br_queues br) c of
        None \<Rightarrow> (br, [])
      | Some q \<Rightarrow>
          (case q_items q of
             [] \<Rightarrow> (br, [(c, Heartbeat)])
           | e # _ \<Rightarrow> (br\<lparr>br_queues := map (\<lambda>(d, p). (d, if d = c then get_nowait p else p)) (br_queues br)\<rparr>,
                        [(c, Streamed e)])))"

fun sse_step :: "sse_op \<Rightarrow> broadcaster \<Rightarrow> broadcaster \<times> (nat \<times> sse_item) list" where
  "sse_step (Connect max_queue now) br =
     (case sse_subscribe max_queue br of (c, br') \<Rightarrow> (br', [(c, Hello (hello_event now))]))"
| "sse_step (Dispatch e) br = (dispatch_event e br, [])"
| "sse_step (Next_frame c) br = next_frame c br"
| "sse_step (Close c) br = (sse_unsubscribe c br, [])"

text \<open>A sequence of operations, with everything they put out.\<close>

primrec run_trace :: "('o \<Rightarrow> 'c \<Rightarrow> 'c \<times> 'out list) \<Rightarrow> 'o list \<Rightarrow> 'c \<Rightarrow> 'c \<times> 'out list" where
  "run_trace step [] c = (c, [])"
| "run_trace step (x # xs) c =
     (case step x c of (c', out) \<Rightarrow> (case run_trace step xs c' of (c'', outs) \<Rightarrow> (c'', out @ outs)))"

section \<open>The specification: a log per client\<close>

text \<open>
  A feed remembers every event dispatched since the client connected and how far it has been
  read; an event puts the position forward when the client would otherwise be more than the
  capacity behind.
\<close>

record feed =
  fd_cap :: int
  fd_log :: "sse_event list"
  fd_pos :: nat

definition feed_append :: "sse_event \<Rightarrow> feed \<Rightarrow> feed" where
  "feed_append e f =
     f\<lparr>fd_log := fd_log f @ [e],
       fd_pos := (if 0 < fd_cap f then max (fd_pos f) (Suc (length (fd_log f)) - nat (fd_cap f)) else fd_pos f)\<rparr>"

definition feed_unread :: "feed \<Rightarrow> sse_event list" where
  "feed_unread f = drop (fd_pos f) (fd_log f)"

record feeds =
  fs_feeds :: "(nat \<times> feed) list"
  fs_default :: int
  fs_fresh :: nat

definition feeds_init :: "int \<Rightarrow> feeds" where
  "feeds_init max_queue = \<lparr>fs_feeds = [], fs_default = max_queue, fs_fresh = 0\<rparr>"

fun feed_step :: "sse_op \<Rightarrow> feeds \<Rightarrow> feeds \<times> (nat \<times> sse_item) list" where
  "feed_step (Connect max_queue now) a =
     (a\<lparr>fs_feeds := fs_feeds a @
          [(fs_fresh a, \<lparr>fd_cap = sse_maxsize max_queue (fs_default a), fd_log = [], fd_pos = 0\<rparr>)],
        fs_fresh := Suc (fs_fresh a)\<rparr>, [(fs_fresh a, Hello (hello_event now))])"
| "feed_step (Dispatch e) a = (a\<lparr>fs_feeds := map (map_prod id (feed_append e)) (fs_feeds a)\<rparr>, [])"
| "feed_step (Next_frame c) a =
     (case map_of (fs_feeds a) c of
        None \<Rightarrow> (a, [])
      | Some f \<Rightarrow>
          if fd_pos f < length (fd_log f)
          then (a\<lparr>fs_feeds := map (\<lambda>(d, g). (d, if d = c then g\<lparr>fd_pos := Suc (fd_pos g)\<rparr> else g)) (fs_feeds a)\<rparr>,
                [(c, Streamed (fd_log f ! fd_pos f))])
          else (a, [(c, Heartbeat)]))"
| "feed_step (Close c) a = (a\<lparr>fs_feeds := filter (\<lambda>(d, _). d \<noteq> c) (fs_feeds a)\<rparr>, [])"

section \<open>Publishing\<close>

lemma dict_get_or_bus_subscribe:
  "dict_get_or (subscribers (bus_subscribe t cb b)) u [] =
     dict_get_or (subscribers b) u [] @ (if t = u then [cb] else [])"
  by (simp add: bus_subscribe_def)

text \<open>
  When every callback that can fail has a name, all of them run, in order, whatever the others
  raise, and nothing leaves \<open>publish\<close>.
\<close>

lemma run_callbacks_all:
  "(\<And>cb s. cb \<in> set cbs \<Longrightarrow> fst (cb_call cb data s) \<noteq> None \<Longrightarrow> cb_name cb \<noteq> None) \<Longrightarrow>
   fst (run_callbacks cbs data s) = None \<and>
   fst (snd (run_callbacks cbs data s)) = fold (\<lambda>cb s. snd (cb_call cb data s)) cbs s"
proof (induction cbs arbitrary: s)
  case (Cons cb cbs)
  obtain x s' where call: "cb_call cb data s = (x, s')" by (cases "cb_call cb data s")
  have rest: "fst (run_callbacks cbs data s') = None \<and>
      fst (snd (run_callbacks cbs data s')) = fold (\<lambda>cb s. snd (cb_call cb data s)) cbs s'"
    by (rule Cons.IH) (use Cons.prems in auto)
  show ?case
  proof (cases x)
    case None
    then show ?thesis using rest call by simp
  next
    case (Some e)
    then obtain n where "cb_name cb = Some n"
      using Cons.prems [of cb s] call by auto
    then show ?thesis using rest call Some by (simp add: split_beta)
  qed
qed simp

lemma attach_subscribers:
  assumes "bus_id b \<notin> set (br_attached br)"
  shows "dict_get_or (subscribers (fst (attach b br))) t [] =
     dict_get_or (subscribers b) t [] @ (if t \<in> set STREAMED_EVENTS then [sse_callback t] else [])"
  using assms
  by (simp add: attach_def STREAMED_EVENTS_def dict_get_or_bus_subscribe del: fold_Cons) (auto simp: dict_get_or_bus_subscribe)

lemma attach_twice: "attach (fst (attach b br)) (snd (attach b br)) = attach b br"
proof -
  have "bus_id (fold (\<lambda>t. bus_subscribe t (sse_callback t)) ts b) = bus_id b" for ts
    by (induction ts arbitrary: b) (simp_all add: bus_subscribe_def)
  then show ?thesis by (simp add: attach_def)
qed

section \<open>Simulation\<close>

text \<open>One operation at a time, the outputs equal and the states related: so are whole runs.\<close>

locale forward_simulation =
  fixes cstep :: "'o \<Rightarrow> 'c \<Rightarrow> 'c \<times> 'out list"
    and astep :: "'o \<Rightarrow> 'a \<Rightarrow> 'a \<times> 'out list"
    and R :: "'c \<Rightarrow> 'a \<Rightarrow> bool"
  assumes step_related: "R c a \<Longrightarrow> R (fst (cstep x c)) (fst (astep x a))"
    and step_output: "R c a \<Longrightarrow> snd (cstep x c) = snd (astep x a)"
begin

lemma runs_agree:
  "R c a \<Longrightarrow> R (fst (run_trace cstep xs c)) (fst (run_trace astep xs a)) \<and>
     snd (run_trace cstep xs c) = snd (run_trace astep xs a)"
proof (induction xs arbitrary: c a)
  case (Cons x xs)
  from Cons.IH [OF step_related [OF Cons.prems, of x]] step_output [OF Cons.prems, of x]
  show ?case by (auto simp: split_beta)
qed simp

end

definition queue_feed :: "nat \<times> queue \<Rightarrow> nat \<times> feed \<Rightarrow> bool" where
  "queue_feed cq cf \<longleftrightarrow> fst cq = fst cf \<and> q_maxsize (snd cq) = fd_cap (snd cf)
     \<and> q_items (snd cq) = feed_unread (snd cf) \<and> fd_pos (snd cf) \<le> length (fd_log (snd cf))
     \<and> (0 < fd_cap (snd cf) \<longrightarrow> int (length (feed_unread (snd cf))) \<le> fd_cap (snd cf))"

definition feeds_rel :: "broadcaster \<Rightarrow> feeds \<Rightarrow> bool" where
  "feeds_rel br a \<longleftrightarrow> list_all2 queue_feed (br_queues br) (fs_feeds a)
     \<and> distinct (map fst (br_queues br)) \<and> (\<forall>c \<in> fst ` set (br_queues br). c < br_fresh br)
     \<and> br_max_queue br = fs_default a \<and> br_fresh br = fs_fresh a"

lemma offer_items:
  assumes "0 < q_maxsize q \<longrightarrow> int (length (q_items q)) \<le> q_maxsize q"
  shows "q_items (offer e q) =
     (if queue_full q then tl (q_items q) else q_items q) @ [e]" "q_maxsize (offer e q) = q_maxsize q"
  using assms by (auto simp: offer_def put_nowait_def get_nowait_def queue_full_def)

lemma queue_feed_append:
  assumes "queue_feed cq cf"
  shows "queue_feed (map_prod id (offer e) cq) (map_prod id (feed_append e) cf)"
proof -
  obtain c q where cq: "cq = (c, q)" by (cases cq)
  obtain c' f where cf: "cf = (c', f)" by (cases cf)
  from assms cq cf have rel: "c = c'" "q_maxsize q = fd_cap f" "q_items q = drop (fd_pos f) (fd_log f)"
    "fd_pos f \<le> length (fd_log f)" "0 < fd_cap f \<longrightarrow> int (length (drop (fd_pos f) (fd_log f))) \<le> fd_cap f"
    by (auto simp: queue_feed_def feed_unread_def)
  have cap: "0 < q_maxsize q \<longrightarrow> int (length (q_items q)) \<le> q_maxsize q" using rel by simp
  show ?thesis
  proof (cases "queue_full q")
    case True
    with rel have "0 < fd_cap f" "Suc (length (fd_log f)) - nat (fd_cap f) = Suc (fd_pos f)"
      by (auto simp: queue_full_def)
    moreover from True rel have "fd_pos f < length (fd_log f)"
      by (auto simp: queue_full_def)
    ultimately show ?thesis
      using True rel cq cf offer_items [OF cap, of e]
      by (auto simp: queue_feed_def feed_unread_def feed_append_def tl_drop drop_Suc queue_full_def max_def)
  next
    case False
    with rel have "0 < fd_cap f \<longrightarrow> Suc (length (fd_log f)) - nat (fd_cap f) \<le> fd_pos f"
      by (auto simp: queue_full_def)
    then show ?thesis
      using False rel cq cf offer_items [OF cap, of e]
      by (auto simp: queue_feed_def feed_unread_def feed_append_def queue_full_def max_def)
  qed
qed

lemma feeds_map_of:
  "list_all2 queue_feed qs fs \<Longrightarrow>
     (map_of qs c = None \<and> map_of fs c = None) \<or>
     (\<exists>q f. map_of qs c = Some q \<and> map_of fs c = Some f \<and> queue_feed (c, q) (c, f))"
  by (induction rule: list_all2_induct) (auto simp: queue_feed_def)

lemma feeds_filter:
  "list_all2 queue_feed qs fs \<Longrightarrow>
     list_all2 queue_feed (filter (\<lambda>(d, _). d \<noteq> c) qs) (filter (\<lambda>(d, _). d \<noteq> c) fs)"
  by (induction rule: list_all2_induct) (auto simp: queue_feed_def)

lemma feeds_read:
  assumes "list_all2 queue_feed qs fs" "distinct (map fst qs)" "map_of fs c = Some f" "fd_pos f < length (fd_log f)"
  shows "list_all2 queue_feed (map (\<lambda>(d, p). (d, if d = c then get_nowait p else p)) qs)
     (map (\<lambda>(d, g). (d, if d = c then g\<lparr>fd_pos := Suc (fd_pos g)\<rparr> else g)) fs)"
  using assms
proof (induction rule: list_all2_induct)
  case (Cons x xs y ys)
  have other: "list_all2 queue_feed (map (\<lambda>(d, p). (d, if d = c then get_nowait p else p)) xs)
     (map (\<lambda>(d, g). (d, if d = c then g\<lparr>fd_pos := Suc (fd_pos g)\<rparr> else g)) ys)"
    if absent: "c \<notin> fst ` set xs"
  proof -
    have "fst ` set ys = fst ` set xs"
      using Cons.hyps(2) by (induction rule: list_all2_induct) (auto simp: queue_feed_def)
    with absent have "\<forall>x \<in> set xs. fst x \<noteq> c" "\<forall>y \<in> set ys. fst y \<noteq> c" by (metis imageI)+
    then have "map (\<lambda>(d, p). (d, if d = c then get_nowait p else p)) xs = xs"
      "map (\<lambda>(d, g). (d, if d = c then g\<lparr>fd_pos := Suc (fd_pos g)\<rparr> else g)) ys = ys"
      by (auto intro!: map_idI)
    then show ?thesis using Cons.hyps(2) by simp
  qed
  show ?case
  proof (cases "fst x = c")
    case True
    with Cons.hyps(1) Cons.prems have "y = (c, f)" by (cases y) (auto simp: queue_feed_def)
    moreover obtain q where "x = (c, q)" using True by (cases x) simp
    moreover have "queue_feed (c, get_nowait q) (c, f\<lparr>fd_pos := Suc (fd_pos f)\<rparr>)"
      if "queue_feed (c, q) (c, f)"
      using that Cons.prems
      by (auto simp: queue_feed_def feed_unread_def get_nowait_def tl_drop drop_Suc)
    ultimately show ?thesis using Cons.hyps(1) Cons.prems other by simp
  next
    case False
    with Cons show ?thesis by (cases x; cases y) (auto simp: queue_feed_def)
  qed
qed simp

lemma feeds_dispatch:
  "list_all2 queue_feed qs fs \<Longrightarrow>
     list_all2 queue_feed (map (map_prod id (offer e)) qs) (map (map_prod id (feed_append e)) fs)"
  by (auto simp: list_all2_conv_all_nth queue_feed_append)

lemma step_simulated:
  assumes rel: "feeds_rel br a"
  shows "feeds_rel (fst (sse_step x br)) (fst (feed_step x a)) \<and> snd (sse_step x br) = snd (feed_step x a)"
proof (cases x)
  case (Connect m now)
  with rel show ?thesis
    by (force simp: feeds_rel_def sse_subscribe_def queue_feed_def feed_unread_def intro!: list_all2_appendI)
next
  case (Dispatch e)
  with rel show ?thesis
    by (auto simp: feeds_rel_def dispatch_event_def feeds_dispatch o_def)
next
  case (Close c)
  with rel show ?thesis
    by (auto simp: feeds_rel_def sse_unsubscribe_def feeds_filter distinct_map_filter)
next
  case (Next_frame c)
  from rel have rel': "list_all2 queue_feed (br_queues br) (fs_feeds a)" by (simp add: feeds_rel_def)
  from feeds_map_of [OF this, of c] consider
    "map_of (br_queues br) c = None" "map_of (fs_feeds a) c = None"
  | q f where "map_of (br_queues br) c = Some q" "map_of (fs_feeds a) c = Some f" "queue_feed (c, q) (c, f)"
    by auto
  then show ?thesis
  proof cases
    case 1
    with Next_frame rel show ?thesis by (simp add: next_frame_def)
  next
    case (2 q f)
    then have items: "q_items q = drop (fd_pos f) (fd_log f)" by (simp add: queue_feed_def feed_unread_def)
    show ?thesis
    proof (cases "fd_pos f < length (fd_log f)")
      case True
      then have "q_items q = fd_log f ! fd_pos f # drop (Suc (fd_pos f)) (fd_log f)"
        using items by (simp add: Cons_nth_drop_Suc)
      with 2 True Next_frame rel feeds_read [OF rel' _ 2(2) True] show ?thesis
        by (auto simp: next_frame_def feeds_rel_def o_def split_beta)
    next
      case False
      with items 2 Next_frame rel show ?thesis by (simp add: next_frame_def)
    qed
  qed
qed

interpretation sse: forward_simulation sse_step feed_step feeds_rel
  by unfold_locales (simp_all add: step_simulated)

text \<open>
  C32: The bounded queues implement the log: whatever clients connect, read and disconnect and
  whatever is dispatched in between, in any order, every client is sent exactly the frames that
  an append-only log of the events since its connection would have sent it, where the read
  position is put forward only when the client is a whole queue behind. What waits in its queue is
  the unread end of that log, never more than the bound.
\<close>

theorem stream_refines_log:
  fixes ops and max_queue
  defines "conc \<equiv> run_trace sse_step ops (broadcaster_init max_queue)"
    and "spec \<equiv> run_trace feed_step ops (feeds_init max_queue)"
  shows "snd conc = snd spec
    \<and> map (map_prod id q_items) (br_queues (fst conc)) = map (map_prod id feed_unread) (fs_feeds (fst spec))
    \<and> (\<forall>(c, q) \<in> set (br_queues (fst conc)). 0 < q_maxsize q \<longrightarrow> int (length (q_items q)) \<le> q_maxsize q)"
proof -
  have "feeds_rel (broadcaster_init max_queue) (feeds_init max_queue)"
    by (simp add: feeds_rel_def broadcaster_init_def feeds_init_def)
  from sse.runs_agree [OF this, of ops] have rel: "feeds_rel (fst conc) (fst spec)" and out: "snd conc = snd spec"
    by (simp_all add: conc_def spec_def)
  from rel have all: "list_all2 queue_feed (br_queues (fst conc)) (fs_feeds (fst spec))"
    by (simp add: feeds_rel_def)
  then have "map (map_prod id q_items) (br_queues (fst conc)) = map (map_prod id feed_unread) (fs_feeds (fst spec))"
    by (induction rule: list_all2_induct) (auto simp: queue_feed_def)
  moreover from all have "\<forall>(c, q) \<in> set (br_queues (fst conc)). 0 < q_maxsize q \<longrightarrow> int (length (q_items q)) \<le> q_maxsize q"
    by (induction rule: list_all2_induct) (auto simp: queue_feed_def)
  ultimately show ?thesis using out by simp
qed

text \<open>A client with room for two that reads after the third event: the first one is lost.\<close>

definition demo_event :: "nat \<Rightarrow> sse_event" where
  "demo_event n = \<lparr>ev_type = ''agent.run'', ev_data = [(''run'', JNum (of_nat n))], ev_ts = []\<rparr>"

definition slow_reader :: "sse_op list" where
  "slow_reader = [Connect (Some 2) 0, Dispatch (demo_event 1), Dispatch (demo_event 2), Dispatch (demo_event 3),
     Next_frame 0, Dispatch (demo_event 4), Next_frame 0, Next_frame 0, Next_frame 0]"

theorem stream_refines_log_witness:
  "snd (run_trace sse_step slow_reader (broadcaster_init 100)) =
     [(0, Hello (hello_event 0)), (0, Streamed (demo_event 2)), (0, Streamed (demo_event 3)),
      (0, Streamed (demo_event 4)), (0, Heartbeat)]"
proof -
  have "snd (run_trace feed_step slow_reader (feeds_init 100)) =
     [(0, Hello (hello_event 0)), (0, Streamed (demo_event 2)), (0, Streamed (demo_event 3)),
      (0, Streamed (demo_event 4)), (0, Heartbeat)]"
    by (simp add: slow_reader_def feeds_init_def sse_maxsize_def feed_append_def)
  with stream_refines_log [of slow_reader 100] show ?thesis by simp
qed

text \<open>
  From the bus to the clients: on a bus the broadcaster is attached to, publishing one of the
  streamed types hands the clients exactly one event, stamped with the time, and no other type
  reaches them; nothing is raised.
\<close>

lemma publish_reaches_clients:
  assumes "bus_id b \<notin> set (br_attached br)" "subscribers b = []"
  shows "publish (fst (attach b br)) t d w =
     (None, if t \<in> set STREAMED_EVENTS then on_event t (case d of None \<Rightarrow> [] | Some d \<Rightarrow> d) w else w, [])"
proof -
  have "dict_get_or (subscribers b) t [] = []" using assms by (simp add: dict_get_or_def)
  then show ?thesis using assms by (simp add: publish_def attach_subscribers sse_callback_def)
qed

text \<open>
  A failing subscriber without a name, as every subscription of the broadcaster is one, is not
  logged: the handler raises, and the subscribers after it are not called.
\<close>

lemma nameless_failure_escapes:
  assumes "cb_call cb data s = (Some x, s')" "cb_name cb = None"
  shows "run_callbacks (cb # cbs) data s = (Some (OtherError ''AttributeError''), s', [])"
  using assms by simp

text \<open>An event goes to the bound loop when there is one, and is lost only if there is no open loop.\<close>

lemma publish_threadsafe_target:
  "publish_threadsafe b running is_closed is_closed =
     (case (case bus_loop b of Some l \<Rightarrow> Some l | None \<Rightarrow> running) of
        None \<Rightarrow> NoLoop
      | Some l \<Rightarrow> if is_closed l then NoLoop
                  else if running = Some l then CreatedTask l else HandedOver l)"
  by (simp add: publish_threadsafe_def spawn_def split: option.split)

end
