(* ===== verification/Retention.thy ===== *)
theory Retention
  imports Sys_Prelude
begin

text \<open>
  The nightly purge (\<open>core/retention.py\<close>, \<open>core/models/retention_config.py\<close>): which rows each
  table loses, one savepoint per table, the record of the last purge, and the thinning of the
  resource snapshots to one row an hour.
\<close>

section \<open>The tables\<close>

text \<open>
  A row as the purge sees it: its key, its timestamp columns, its text columns and, for an alert,
  whether it is resolved. The timestamp columns the purge uses are all \<open>NOT NULL\<close>; an entity
  column may be null.
\<close>

record table_row =
  tr_id :: nat
  tr_times :: "(string, instant) dict"
  tr_texts :: "(string, string) dict"
  tr_resolved :: bool

definition time_col :: "string \<Rightarrow> table_row \<Rightarrow> instant" where
  "time_col c r = dict_get_or (tr_times r) c 0"

definition TABLE_TIMESTAMP_MAP :: "(string, string) dict" where
  "TABLE_TIMESTAMP_MAP =
     [(''service_health'', ''checked_at''), (''resource_snapshots'', ''recorded_at''),
      (''log_entries'', ''ingested_at''), (''health_reviews'', ''generated_at''),
      (''log_reviews'', ''generated_at''), (''alerts'', ''created_at''),
      (''filesystem_audits'', ''scanned_at''), (''unit_audits'', ''scanned_at''),
      (''reliability_scores'', ''computed_at''), (''agent_runs'', ''started_at''),
      (''disk_reviews'', ''generated_at''), (''desktop_notifications'', ''last_spoken_at''),
      (''game_spans'', ''last_seen_at'')]"

text \<open>The tables that keep their newest row per entity; \<open>None\<close> is \<open>WHOLE_TABLE\<close>.\<close>

definition KEEP_LATEST_PER :: "(string, string option) dict" where
  "KEEP_LATEST_PER =
     [(''reliability_scores'', Some ''service_name''), (''unit_audits'', Some ''system_unit_dir''),
      (''filesystem_audits'', Some ''scan_root''), (''disk_reviews'', None),
      (''health_reviews'', None), (''log_reviews'', None)]"

section \<open>The statement\<close>

text \<open>
  The three shapes of the \<open>DELETE\<close>, with the table and the timestamp column; \<open>purge_text\<close> is the
  text the function returns.
\<close>

datatype purge_sql =
    Delete_resolved string string
  | Delete_but_latest string string "string option"
  | Delete_older string string

definition purge_statement :: "string \<Rightarrow> string \<Rightarrow> purge_sql" where
  "purge_statement table_name ts_col =
     (if table_name = ''alerts'' then Delete_resolved table_name ts_col
      else case dict_get KEEP_LATEST_PER table_name of
        Some entity \<Rightarrow> Delete_but_latest table_name ts_col entity
      | None \<Rightarrow> Delete_older table_name ts_col)"

fun keep_text :: "string \<Rightarrow> string \<Rightarrow> string option \<Rightarrow> string" where
  "keep_text t c None = ''SELECT id FROM sysadmin.'' @ t @ '' ORDER BY '' @ c @ '' DESC LIMIT 1''"
| "keep_text t c (Some e) =
     ''SELECT DISTINCT ON ('' @ e @ '') id FROM sysadmin.'' @ t @ '' ORDER BY '' @ e @ '', '' @ c @ '' DESC''"

fun purge_text :: "purge_sql \<Rightarrow> string" where
  "purge_text (Delete_resolved t c) =
     ''DELETE FROM sysadmin.'' @ t @ '' WHERE '' @ c @ '' < :cutoff AND resolved = TRUE''"
| "purge_text (Delete_but_latest t c e) =
     ''DELETE FROM sysadmin.'' @ t @ '' WHERE '' @ c @ '' < :cutoff AND id NOT IN ('' @ keep_text t c e @ '')''"
| "purge_text (Delete_older t c) = ''DELETE FROM sysadmin.'' @ t @ '' WHERE '' @ c @ '' < :cutoff''"

text \<open>
  \<open>SELECT DISTINCT ON (key)\<close>: the first row of each key, in the order given. The order of the
  keys among each other does not matter for which row that is; rows with equal timestamps come
  in the order of the table.
\<close>

fun distinct_on :: "('a \<Rightarrow> 'k) \<Rightarrow> 'a list \<Rightarrow> 'a list" where
  "distinct_on key [] = []"
| "distinct_on key (r # rs) = r # distinct_on key (filter (\<lambda>x. key x \<noteq> key r) rs)"

definition newest_first :: "string \<Rightarrow> table_row list \<Rightarrow> table_row list" where
  "newest_first c rows = sort_key (\<lambda>r. - time_col c r) rows"

definition latest_rows :: "string \<Rightarrow> string option \<Rightarrow> table_row list \<Rightarrow> table_row list" where
  "latest_rows c entity rows =
     (case entity of
        None \<Rightarrow> take 1 (newest_first c rows)
      | Some e \<Rightarrow> distinct_on (\<lambda>r. dict_get (tr_texts r) e) (newest_first c rows))"

text \<open>Which rows of the table the statement deletes.\<close>

fun purges :: "purge_sql \<Rightarrow> instant \<Rightarrow> table_row list \<Rightarrow> table_row \<Rightarrow> bool" where
  "purges (Delete_resolved _ c) cutoff rows r \<longleftrightarrow> time_col c r < cutoff \<and> tr_resolved r"
| "purges (Delete_but_latest _ c e) cutoff rows r \<longleftrightarrow>
     time_col c r < cutoff \<and> tr_id r \<notin> tr_id ` set (latest_rows c e rows)"
| "purges (Delete_older _ c) cutoff rows r \<longleftrightarrow> time_col c r < cutoff"

section \<open>One run\<close>

record retention_config =
  rc_table_name :: string
  rc_retention_days :: int
  rc_last_purged_at :: "instant option"

record retention_state =
  rt_tables :: "(string, table_row list) dict"
  rt_configs :: "retention_config list"

record retention_summary =
  total_deleted :: nat
  failed_tables :: "string list"

text \<open>
  What the run finds outside: the clock when a table's cutoff is taken and when its purge is
  recorded, the clock at the thinning, PostgreSQL's \<open>date_trunc('hour', _)\<close> in the session's
  time zone, and which statements the database refuses (a missing table or column, a row still
  referenced, a lost connection).
\<close>

record retention_env =
  re_now :: "string \<Rightarrow> instant"
  re_purged_at :: "string \<Rightarrow> instant"
  re_now_downsample :: instant
  re_hour :: "instant \<Rightarrow> instant"
  re_refuses :: "string \<Rightarrow> py_error option"

text \<open>
  \<open>datetime.now(UTC) - timedelta(days=...)\<close>: outside the years 1 to 9999 it raises.
\<close>

definition datetime_min :: instant where
  "datetime_min = - 62135596800000000"

definition datetime_max :: instant where
  "datetime_max = 253402300799999999"

definition days_before :: "instant \<Rightarrow> int \<Rightarrow> py_error + instant" where
  "days_before now days =
     (let c = now - days * 86400000000
      in if datetime_min \<le> c \<and> c \<le> datetime_max then Inr c else Inl (OtherError ''OverflowError''))"

definition exec_delete ::
  "(string \<Rightarrow> py_error option) \<Rightarrow> string \<Rightarrow> (table_row list \<Rightarrow> table_row \<Rightarrow> bool) \<Rightarrow> retention_state
     \<Rightarrow> py_error + nat \<times> retention_state" where
  "exec_delete refuses t gone s =
     (case refuses t of
        Some x \<Rightarrow> Inl x
      | None \<Rightarrow>
          let rows = dict_get_or (rt_tables s) t []
          in Inr (length (filter (gone rows) rows),
                  s\<lparr>rt_tables := dict_set t (filter (\<lambda>r. \<not> gone rows r) rows) (rt_tables s)\<rparr>))"

definition stamp_purged :: "string \<Rightarrow> instant \<Rightarrow> retention_state \<Rightarrow> retention_state" where
  "stamp_purged t now s =
     s\<lparr>rt_configs := map (\<lambda>c. if rc_table_name c = t then c\<lparr>rc_last_purged_at := Some now\<rparr> else c) (rt_configs s)\<rparr>"

text \<open>
  The turn of one configuration row. The savepoint makes a refused statement leave the state as it
  was; an error that is not the database's leaves the function.
\<close>

definition purge_table ::
  "retention_env \<Rightarrow> retention_config \<Rightarrow> retention_state \<times> retention_summary
     \<Rightarrow> py_error + retention_state \<times> retention_summary" where
  "purge_table env config st =
     (case st of (s, sm) \<Rightarrow>
        let t = rc_table_name config
        in case dict_get TABLE_TIMESTAMP_MAP t of
             None \<Rightarrow> Inr (s, sm)
           | Some ts_col \<Rightarrow>
               (case days_before (re_now env t) (rc_retention_days config) of
                  Inl x \<Rightarrow> Inl x
                | Inr cutoff \<Rightarrow>
                    (case exec_delete (re_refuses env) t (purges (purge_statement t ts_col) cutoff) s of
                       Inl x \<Rightarrow> if is_sqlalchemy_error x
                                 then Inr (s, sm\<lparr>failed_tables := failed_tables sm @ [t]\<rparr>)
                                 else Inl x
                     | Inr (deleted, s') \<Rightarrow>
                         Inr (stamp_purged t (re_purged_at env t) s',
                              sm\<lparr>total_deleted := total_deleted sm + deleted\<rparr>))))"

fun purge_tables ::
  "retention_env \<Rightarrow> retention_config list \<Rightarrow> retention_state \<times> retention_summary
     \<Rightarrow> py_error + retention_state \<times> retention_summary" where
  "purge_tables env [] st = Inr st"
| "purge_tables env (c # cs) st =
     (case purge_table env c st of Inl x \<Rightarrow> Inl x | Inr st' \<Rightarrow> purge_tables env cs st')"

text \<open>
  \<open>_downsample_resources\<close>: older than seven days, only the earliest row of every hour stays.
  The statement is refused under the name of the failed entry.
\<close>

definition DOWNSAMPLE :: string where
  "DOWNSAMPLE = ''resource_snapshots:downsample''"

definition hourly_rows :: "(instant \<Rightarrow> instant) \<Rightarrow> instant \<Rightarrow> table_row list \<Rightarrow> table_row list" where
  "hourly_rows hour cutoff rows =
     distinct_on (\<lambda>r. hour (time_col ''recorded_at'' r))
       (sort_key (time_col ''recorded_at'') (filter (\<lambda>r. time_col ''recorded_at'' r < cutoff) rows))"

definition thinned :: "(instant \<Rightarrow> instant) \<Rightarrow> instant \<Rightarrow> table_row list \<Rightarrow> table_row \<Rightarrow> bool" where
  "thinned hour cutoff rows r \<longleftrightarrow>
     time_col ''recorded_at'' r < cutoff \<and> tr_id r \<notin> tr_id ` set (hourly_rows hour cutoff rows)"

definition downsample_resources :: "retention_env \<Rightarrow> retention_state \<Rightarrow> py_error + retention_state" where
  "downsample_resources env s =
     (case days_before (re_now_downsample env) 7 of
        Inl x \<Rightarrow> Inl x
      | Inr cutoff \<Rightarrow>
          (case exec_delete (\<lambda>_. re_refuses env DOWNSAMPLE) ''resource_snapshots'' (thinned (re_hour env) cutoff) s of
             Inl x \<Rightarrow> Inl x
           | Inr (_, s') \<Rightarrow> Inr s'))"

text \<open>The whole run: the error that left it, with everything rolled back, or the committed state.\<close>

definition run_retention :: "retention_env \<Rightarrow> retention_state \<Rightarrow> py_error + retention_state \<times> retention_summary" where
  "run_retention env s =
     (case purge_tables env (rt_configs s) (s, \<lparr>total_deleted = 0, failed_tables = []\<rparr>) of
        Inl x \<Rightarrow> Inl x
      | Inr (s', sm) \<Rightarrow>
          (case downsample_resources env s' of
             Inl x \<Rightarrow> if is_sqlalchemy_error x
                       then Inr (s', sm\<lparr>failed_tables := failed_tables sm @ [DOWNSAMPLE]\<rparr>)
                       else Inl x
           | Inr s'' \<Rightarrow> Inr (s'', sm)))"

section \<open>What a purge may take\<close>

text \<open>The entity a row belongs to; without one, the whole table is a single entity.\<close>

fun entity_of :: "string option \<Rightarrow> table_row \<Rightarrow> string option" where
  "entity_of None r = None"
| "entity_of (Some e) r = dict_get (tr_texts r) e"

text \<open>
  The promise of a purge: rows leave only when they are older than the cutoff, an alert only when
  it is resolved, a row of a keep-latest table only when a row of its entity that is at least as
  new stays. And what should go is gone: an old row that stays is an open alert, or the newest
  row of its entity and the only one of it that stays.
\<close>

definition purge_contract :: "string \<Rightarrow> string \<Rightarrow> instant \<Rightarrow> table_row list \<Rightarrow> table_row list \<Rightarrow> bool" where
  "purge_contract t c cutoff old new \<longleftrightarrow>
     (\<exists>P. new = filter P old)
   \<and> (\<forall>r \<in> set old - set new. time_col c r < cutoff \<and> (t = ''alerts'' \<longrightarrow> tr_resolved r)
        \<and> (\<forall>e. dict_get KEEP_LATEST_PER t = Some e \<longrightarrow>
              (\<exists>k \<in> set new. entity_of e k = entity_of e r \<and> time_col c r \<le> time_col c k)))
   \<and> (\<forall>r \<in> set new. time_col c r < cutoff \<longrightarrow>
        (t = ''alerts'' \<and> \<not> tr_resolved r)
      \<or> (\<exists>e. dict_get KEEP_LATEST_PER t = Some e
           \<and> (\<forall>k \<in> set old. entity_of e k = entity_of e r \<longrightarrow> time_col c k \<le> time_col c r)
           \<and> (\<forall>k \<in> set new. entity_of e k = entity_of e r \<longrightarrow> k = r)))"

text \<open>The promise of the thinning: of the old rows of an hour exactly the earliest stays.\<close>

definition hourly_contract :: "(instant \<Rightarrow> instant) \<Rightarrow> instant \<Rightarrow> table_row list \<Rightarrow> table_row list \<Rightarrow> bool" where
  "hourly_contract hour cutoff old new \<longleftrightarrow>
     (\<exists>P. new = filter P old)
   \<and> (\<forall>r \<in> set old - set new. time_col ''recorded_at'' r < cutoff)
   \<and> (\<forall>r \<in> set old. time_col ''recorded_at'' r < cutoff \<longrightarrow>
        (\<exists>!k. k \<in> set new \<and> time_col ''recorded_at'' k < cutoff
           \<and> hour (time_col ''recorded_at'' k) = hour (time_col ''recorded_at'' r))
      \<and> (\<exists>k \<in> set new. hour (time_col ''recorded_at'' k) = hour (time_col ''recorded_at'' r)
           \<and> time_col ''recorded_at'' k \<le> time_col ''recorded_at'' r))"

lemma set_distinct_on: "set (distinct_on key xs) \<subseteq> set xs"
  by (induction key xs rule: distinct_on.induct) auto

lemma distinct_on_unique:
  "a \<in> set (distinct_on key xs) \<Longrightarrow> b \<in> set (distinct_on key xs) \<Longrightarrow> key a = key b \<Longrightarrow> a = b"
proof (induction key xs rule: distinct_on.induct)
  case (2 key r rs)
  have "key x \<noteq> key r" if "x \<in> set (distinct_on key (filter (\<lambda>x. key x \<noteq> key r) rs))" for x
    using set_distinct_on [of key "filter (\<lambda>x. key x \<noteq> key r) rs"] that by auto
  with 2 show ?case by (metis distinct_on.simps(2) set_ConsD)
qed simp

text \<open>In a list sorted by \<open>f\<close>, \<open>DISTINCT ON\<close> picks a row of least \<open>f\<close> for every key.\<close>

lemma distinct_on_least:
  "sorted (map f xs) \<Longrightarrow> x \<in> set xs \<Longrightarrow>
     \<exists>k \<in> set (distinct_on key xs). key k = key x \<and> f k \<le> f x"
proof (induction key xs rule: distinct_on.induct)
  case (2 key r rs)
  show ?case
  proof (cases "key x = key r")
    case True
    with 2(2,3) show ?thesis by auto
  next
    case False
    with 2(2,3) have "x \<in> set (filter (\<lambda>x. key x \<noteq> key r) rs)" by auto
    moreover have "sorted (map f (filter (\<lambda>x. key x \<noteq> key r) rs))"
      using 2(2) by (simp add: sorted_filter)
    ultimately show ?thesis using 2(1) by auto
  qed
qed simp

lemma take_1_distinct_on: "take 1 xs = distinct_on (\<lambda>_. u) xs"
  by (cases xs) auto

lemma latest_rows_alt: "latest_rows c e rows = distinct_on (entity_of e) (newest_first c rows)"
proof (cases e)
  case None
  have "entity_of None = (\<lambda>_. None)" by (rule ext) simp
  then show ?thesis using None by (simp only: latest_rows_def take_1_distinct_on [where u = None] option.case)
next
  case (Some x)
  have "entity_of (Some x) = (\<lambda>r. dict_get (tr_texts r) x)" by (rule ext) simp
  then show ?thesis using Some by (simp add: latest_rows_def)
qed

lemma latest_rows_sound:
  shows "set (latest_rows c e rows) \<subseteq> set rows"
    and "k \<in> set (latest_rows c e rows) \<Longrightarrow> k' \<in> set (latest_rows c e rows) \<Longrightarrow>
           entity_of e k = entity_of e k' \<Longrightarrow> k = k'"
    and "r \<in> set rows \<Longrightarrow>
           \<exists>k \<in> set (latest_rows c e rows). entity_of e k = entity_of e r \<and> time_col c r \<le> time_col c k"
proof -
  have same: "set (newest_first c rows) = set rows" by (simp add: newest_first_def)
  then show "set (latest_rows c e rows) \<subseteq> set rows"
    unfolding latest_rows_alt using set_distinct_on by metis
  show "k \<in> set (latest_rows c e rows) \<Longrightarrow> k' \<in> set (latest_rows c e rows) \<Longrightarrow>
      entity_of e k = entity_of e k' \<Longrightarrow> k = k'"
    unfolding latest_rows_alt by (rule distinct_on_unique)
  have "sorted (map (\<lambda>r. - time_col c r) (newest_first c rows))" by (simp add: newest_first_def)
  from distinct_on_least [OF this, of r "entity_of e"] same
  show "r \<in> set rows \<Longrightarrow>
      \<exists>k \<in> set (latest_rows c e rows). entity_of e k = entity_of e r \<and> time_col c r \<le> time_col c k"
    unfolding latest_rows_alt by auto
qed

lemma id_in_iff:
  "distinct (map tr_id rows) \<Longrightarrow> A \<subseteq> set rows \<Longrightarrow> r \<in> set rows \<Longrightarrow> tr_id r \<in> tr_id ` A \<longleftrightarrow> r \<in> A"
  by (auto simp: distinct_map inj_on_def)

lemma purge_meets_contract:
  assumes "distinct (map tr_id old)"
  shows "purge_contract t c cutoff old (filter (\<lambda>r. \<not> purges (purge_statement t c) cutoff old r) old)"
proof (cases "dict_get KEEP_LATEST_PER t")
  case None
  then show ?thesis by (auto simp: purge_contract_def purge_statement_def)
next
  case (Some e)
  then have no_alert: "t \<noteq> ''alerts''" by (auto simp: KEEP_LATEST_PER_def dict_get_def)
  let ?L = "set (latest_rows c e old)"
  have gone: "purges (purge_statement t c) cutoff old r \<longleftrightarrow> time_col c r < cutoff \<and> r \<notin> ?L" if "r \<in> set old" for r
    using that no_alert Some id_in_iff [OF assms latest_rows_sound(1)]
    by (simp add: purge_statement_def)
  let ?new = "filter (\<lambda>r. \<not> purges (purge_statement t c) cutoff old r) old"
  have new: "set ?new = {r \<in> set old. r \<in> ?L \<or> cutoff \<le> time_col c r}" using gone by auto
  have "\<exists>k \<in> set ?new. entity_of e k = entity_of e r \<and> time_col c r \<le> time_col c k" if "r \<in> set old" for r
    using latest_rows_sound(3) [OF that, of c e] latest_rows_sound(1) [of c e old] unfolding new by blast
  moreover have "(\<forall>k \<in> set old. entity_of e k = entity_of e r \<longrightarrow> time_col c k \<le> time_col c r)
      \<and> (\<forall>k \<in> set ?new. entity_of e k = entity_of e r \<longrightarrow> k = r)"
    if r: "r \<in> set ?new" and old: "time_col c r < cutoff" for r
  proof -
    from r old have "r \<in> ?L" unfolding new by auto
    have "time_col c k \<le> time_col c r" if k: "k \<in> set old" "entity_of e k = entity_of e r" for k
    proof -
      from latest_rows_sound(3) [OF k(1), of c e] obtain m where
        "m \<in> ?L" "entity_of e m = entity_of e k" "time_col c k \<le> time_col c m" by blast
      moreover from this have "m = r" using latest_rows_sound(2) [OF _ \<open>r \<in> ?L\<close>] k by auto
      ultimately show ?thesis by simp
    qed
    then show ?thesis
      using latest_rows_sound(2) [OF _ \<open>r \<in> ?L\<close>] old unfolding new by force
  qed
  ultimately show ?thesis
    using Some gone no_alert by (auto simp: purge_contract_def)
qed

lemma thinning_meets_contract:
  assumes "distinct (map tr_id old)"
  shows "hourly_contract hour cutoff old (filter (\<lambda>r. \<not> thinned hour cutoff old r) old)"
proof -
  let ?ts = "time_col ''recorded_at''"
  let ?old = "filter (\<lambda>r. ?ts r < cutoff) old"
  let ?H = "set (hourly_rows hour cutoff old)"
  let ?new = "filter (\<lambda>r. \<not> thinned hour cutoff old r) old"
  have sub: "?H \<subseteq> set ?old"
    unfolding hourly_rows_def by (rule order_trans [OF set_distinct_on]) simp
  then have "?H \<subseteq> set old" by auto
  then have gone: "thinned hour cutoff old r \<longleftrightarrow> ?ts r < cutoff \<and> r \<notin> ?H" if "r \<in> set old" for r
    using that id_in_iff [OF assms] by (simp add: thinned_def)
  then have new: "set ?new = {r \<in> set old. r \<in> ?H \<or> cutoff \<le> ?ts r}" by auto
  have "(\<exists>!k. k \<in> set ?new \<and> ?ts k < cutoff \<and> hour (?ts k) = hour (?ts r))
      \<and> (\<exists>k \<in> set ?new. hour (?ts k) = hour (?ts r) \<and> ?ts k \<le> ?ts r)"
    if r: "r \<in> set old" "?ts r < cutoff" for r
  proof -
    have "\<exists>k \<in> ?H. hour (?ts k) = hour (?ts r) \<and> ?ts k \<le> ?ts r"
      unfolding hourly_rows_def by (rule distinct_on_least) (use r in auto)
    then obtain k where k: "k \<in> ?H" "hour (?ts k) = hour (?ts r)" "?ts k \<le> ?ts r" by blast
    have "m = k" if "m \<in> ?H" "hour (?ts m) = hour (?ts r)" for m
      using that(1) k(1) unfolding hourly_rows_def
      by (rule distinct_on_unique) (use that(2) k(2) in simp)
    moreover have "m \<in> ?H" if "m \<in> set ?new" "?ts m < cutoff" for m
      using that unfolding new by simp
    moreover have "k \<in> set ?new" "?ts k < cutoff"
      using k(1) sub \<open>?H \<subseteq> set old\<close> unfolding new by auto
    ultimately show ?thesis using k(2,3) by blast
  qed
  with gone show ?thesis by (auto simp: hourly_contract_def)
qed

section \<open>A whole run\<close>

abbreviation rows_of :: "retention_state \<Rightarrow> string \<Rightarrow> table_row list" where
  "rows_of s t \<equiv> dict_get_or (rt_tables s) t []"

text \<open>The configuration rows whose table the run purges, and those whose statement is refused.\<close>

definition mapped :: "retention_config \<Rightarrow> bool" where
  "mapped c \<longleftrightarrow> dict_get TABLE_TIMESTAMP_MAP (rc_table_name c) \<noteq> None"

definition is_purged :: "retention_env \<Rightarrow> retention_config list \<Rightarrow> string \<Rightarrow> bool" where
  "is_purged env cs t \<longleftrightarrow> (\<exists>c \<in> set cs. rc_table_name c = t \<and> mapped c) \<and> re_refuses env t = None"

definition refused_tables :: "retention_env \<Rightarrow> retention_config list \<Rightarrow> string list" where
  "refused_tables env cs = map rc_table_name (filter (\<lambda>c. mapped c \<and> re_refuses env (rc_table_name c) \<noteq> None) cs)"

definition purged_rows :: "retention_env \<Rightarrow> retention_config \<Rightarrow> table_row list \<Rightarrow> table_row list" where
  "purged_rows env c rows =
     (case (dict_get TABLE_TIMESTAMP_MAP (rc_table_name c), days_before (re_now env (rc_table_name c)) (rc_retention_days c)) of
        (Some col, Inr cutoff) \<Rightarrow>
          filter (\<lambda>r. \<not> purges (purge_statement (rc_table_name c) col) cutoff rows r) rows
      | _ \<Rightarrow> rows)"

text \<open>The clock is one Python can subtract the configured days from.\<close>

definition cutoffs_ok :: "retention_env \<Rightarrow> retention_config list \<Rightarrow> bool" where
  "cutoffs_ok env cs \<longleftrightarrow>
     (\<forall>c \<in> set cs. mapped c \<longrightarrow> \<not> isl (days_before (re_now env (rc_table_name c)) (rc_retention_days c)))"

definition refusals_sql :: "retention_env \<Rightarrow> bool" where
  "refusals_sql env \<longleftrightarrow> (\<forall>t x. re_refuses env t = Some x \<longrightarrow> is_sqlalchemy_error x)"

lemma is_purged_single:
  "is_purged env [c] t \<longleftrightarrow> t = rc_table_name c \<and> mapped c \<and> re_refuses env t = None"
  by (auto simp: is_purged_def)

lemma refused_tables_Cons:
  "refused_tables env (c # cs) =
     (if mapped c \<and> re_refuses env (rc_table_name c) \<noteq> None then [rc_table_name c] else []) @ refused_tables env cs"
  by (simp add: refused_tables_def)

lemma refused_tables_Nil [simp]: "refused_tables env [] = []"
  by (simp add: refused_tables_def)

lemma purge_table_spec:
  assumes "cutoffs_ok env [c]" "refusals_sql env"
  obtains s' sm' where "purge_table env c (s, sm) = Inr (s', sm')"
    and "\<And>t. rows_of s' t = (if t = rc_table_name c \<and> is_purged env [c] t then purged_rows env c (rows_of s t) else rows_of s t)"
    and "rt_configs s' = map (\<lambda>d. if is_purged env [c] (rc_table_name d)
            then d\<lparr>rc_last_purged_at := Some (re_purged_at env (rc_table_name d))\<rparr> else d) (rt_configs s)"
    and "failed_tables sm' = failed_tables sm @ refused_tables env [c]"
proof (cases "dict_get TABLE_TIMESTAMP_MAP (rc_table_name c)")
  case None
  then show ?thesis
    by (intro that [of s sm]) (simp_all add: purge_table_def is_purged_single refused_tables_Cons mapped_def)
next
  case (Some col)
  with assms(1) obtain cutoff where cut:
    "days_before (re_now env (rc_table_name c)) (rc_retention_days c) = Inr cutoff"
    by (cases "days_before (re_now env (rc_table_name c)) (rc_retention_days c)")
      (auto simp: cutoffs_ok_def mapped_def)
  show ?thesis
  proof (cases "re_refuses env (rc_table_name c)")
    case None
    with Some cut have "purge_table env c (s, sm) = Inr
        (stamp_purged (rc_table_name c) (re_purged_at env (rc_table_name c))
           (s\<lparr>rt_tables := dict_set (rc_table_name c) (purged_rows env c (rows_of s (rc_table_name c))) (rt_tables s)\<rparr>),
         sm\<lparr>total_deleted := total_deleted sm + length (filter
           (purges (purge_statement (rc_table_name c) col) cutoff (rows_of s (rc_table_name c))) (rows_of s (rc_table_name c)))\<rparr>)"
      by (simp add: purge_table_def exec_delete_def Let_def purged_rows_def)
    then show ?thesis
      by (rule that)
        (use None Some in \<open>simp_all add: stamp_purged_def is_purged_single refused_tables_Cons mapped_def cong: conj_cong if_cong\<close>)
  next
    case (Some x)
    with assms(2) have "is_sqlalchemy_error x" by (auto simp: refusals_sql_def)
    with Some \<open>dict_get TABLE_TIMESTAMP_MAP (rc_table_name c) = Some col\<close> cut have
      "purge_table env c (s, sm) = Inr (s, sm\<lparr>failed_tables := failed_tables sm @ [rc_table_name c]\<rparr>)"
      by (simp add: purge_table_def exec_delete_def Let_def)
    moreover have none: "\<not> is_purged env [c] t" for t using Some by (auto simp: is_purged_single)
    moreover have named: "refused_tables env [c] = [rc_table_name c]"
      using Some \<open>dict_get TABLE_TIMESTAMP_MAP (rc_table_name c) = Some col\<close>
      by (simp add: refused_tables_Cons mapped_def)
    ultimately show ?thesis by (intro that [OF \<open>purge_table env c (s, sm) = _\<close>]) (simp_all add: none named)
  qed
qed

lemma purge_tables_spec:
  assumes "cutoffs_ok env cs" "refusals_sql env" "distinct (map rc_table_name cs)"
  obtains s' sm' where "purge_tables env cs (s, sm) = Inr (s', sm')"
    and "\<And>c. c \<in> set cs \<Longrightarrow> is_purged env cs (rc_table_name c) \<Longrightarrow>
           rows_of s' (rc_table_name c) = purged_rows env c (rows_of s (rc_table_name c))"
    and "\<And>t. \<not> is_purged env cs t \<Longrightarrow> rows_of s' t = rows_of s t"
    and "rt_configs s' = map (\<lambda>d. if is_purged env cs (rc_table_name d)
            then d\<lparr>rc_last_purged_at := Some (re_purged_at env (rc_table_name d))\<rparr> else d) (rt_configs s)"
    and "failed_tables sm' = failed_tables sm @ refused_tables env cs"
  using assms
proof (induction cs arbitrary: s sm thesis)
  case Nil
  show ?case by (rule Nil(1) [of s sm]) (simp_all add: is_purged_def)
next
  case (Cons c cs)
  have ok: "cutoffs_ok env [c]" "cutoffs_ok env cs" using Cons.prems(2) by (simp_all add: cutoffs_ok_def)
  obtain s1 sm1 where one: "purge_table env c (s, sm) = Inr (s1, sm1)"
    "\<And>t. rows_of s1 t = (if t = rc_table_name c \<and> is_purged env [c] t then purged_rows env c (rows_of s t) else rows_of s t)"
    "rt_configs s1 = map (\<lambda>d. if is_purged env [c] (rc_table_name d)
        then d\<lparr>rc_last_purged_at := Some (re_purged_at env (rc_table_name d))\<rparr> else d) (rt_configs s)"
    "failed_tables sm1 = failed_tables sm @ refused_tables env [c]"
    by (rule purge_table_spec [OF ok(1) Cons.prems(3), of s sm]) blast
  have "distinct (map rc_table_name cs)" using Cons.prems(4) by simp
  then obtain s' sm' where rest: "purge_tables env cs (s1, sm1) = Inr (s', sm')"
    "\<And>c. c \<in> set cs \<Longrightarrow> is_purged env cs (rc_table_name c) \<Longrightarrow>
       rows_of s' (rc_table_name c) = purged_rows env c (rows_of s1 (rc_table_name c))"
    "\<And>t. \<not> is_purged env cs t \<Longrightarrow> rows_of s' t = rows_of s1 t"
    "rt_configs s' = map (\<lambda>d. if is_purged env cs (rc_table_name d)
        then d\<lparr>rc_last_purged_at := Some (re_purged_at env (rc_table_name d))\<rparr> else d) (rt_configs s1)"
    "failed_tables sm' = failed_tables sm1 @ refused_tables env cs"
    using Cons.IH [OF _ ok(2) Cons.prems(3), of s1 sm1] by blast
  have split: "is_purged env (c # cs) t \<longleftrightarrow> is_purged env [c] t \<or> is_purged env cs t" for t
    by (auto simp: is_purged_def)
  have fresh: "rc_table_name c \<notin> rc_table_name ` set cs" using Cons.prems(4) by simp
  then have apart: "\<not> is_purged env cs (rc_table_name c)" by (auto simp: is_purged_def image_iff)
  have other: "rows_of s1 (rc_table_name d) = rows_of s (rc_table_name d)" if "d \<in> set cs" for d
  proof -
    have "rc_table_name d \<noteq> rc_table_name c" using fresh that by (metis imageI)
    then show ?thesis using one(2) [of "rc_table_name d"] by simp
  qed
  show ?case
  proof (rule Cons.prems(1))
    show "purge_tables env (c # cs) (s, sm) = Inr (s', sm')" using one(1) rest(1) by simp
    show "rows_of s' (rc_table_name d) = purged_rows env d (rows_of s (rc_table_name d))"
      if d: "d \<in> set (c # cs)" "is_purged env (c # cs) (rc_table_name d)" for d
    proof (cases "d = c")
      case True
      with d apart split have "is_purged env [c] (rc_table_name c)" by auto
      with one(2) [of "rc_table_name c"] rest(3) [OF apart] True show ?thesis by simp
    next
      case False
      with d(1) have mem: "d \<in> set cs" by simp
      then have "rc_table_name d \<noteq> rc_table_name c" using fresh by (metis imageI)
      with d(2) split have "is_purged env cs (rc_table_name d)" by (auto simp: is_purged_single)
      with rest(2) [OF mem] other [OF mem] show ?thesis by simp
    qed
    show "rows_of s' t = rows_of s t" if "\<not> is_purged env (c # cs) t" for t
      using that split [of t] rest(3) [of t] one(2) [of t] by simp
    show "rt_configs s' = map (\<lambda>d. if is_purged env (c # cs) (rc_table_name d)
        then d\<lparr>rc_last_purged_at := Some (re_purged_at env (rc_table_name d))\<rparr> else d) (rt_configs s)"
      unfolding rest(4) one(3) by (simp add: split o_def)
    show "failed_tables sm' = failed_tables sm @ refused_tables env (c # cs)"
      using rest(5) one(4) by (simp add: refused_tables_Cons)
  qed
qed

lemma purged_rows_contract:
  assumes "cutoffs_ok env cs" "c \<in> set cs" "mapped c" "distinct (map tr_id rows)"
  shows "\<exists>col cutoff. dict_get TABLE_TIMESTAMP_MAP (rc_table_name c) = Some col
    \<and> days_before (re_now env (rc_table_name c)) (rc_retention_days c) = Inr cutoff
    \<and> purge_contract (rc_table_name c) col cutoff rows (purged_rows env c rows)"
proof -
  obtain col where col: "dict_get TABLE_TIMESTAMP_MAP (rc_table_name c) = Some col"
    using assms(3) by (auto simp: mapped_def)
  obtain cutoff where cut: "days_before (re_now env (rc_table_name c)) (rc_retention_days c) = Inr cutoff"
    using assms(1-3) by (cases "days_before (re_now env (rc_table_name c)) (rc_retention_days c)")
      (auto simp: cutoffs_ok_def)
  show ?thesis using col cut purge_meets_contract [OF assms(4)] by (simp add: purged_rows_def)
qed

lemma distinct_ids_purged: "distinct (map tr_id rows) \<Longrightarrow> distinct (map tr_id (purged_rows env c rows))"
  by (simp add: purged_rows_def distinct_map_filter split: option.split sum.split)

lemma downsample_spec:
  assumes "days_before (re_now_downsample env) 7 = Inr cutoff" "distinct (map tr_id (rows_of s ''resource_snapshots''))"
  shows "case re_refuses env DOWNSAMPLE of
      Some x \<Rightarrow> downsample_resources env s = Inl x
    | None \<Rightarrow> \<exists>s'. downsample_resources env s = Inr s' \<and> rt_configs s' = rt_configs s
        \<and> (\<forall>t. t \<noteq> ''resource_snapshots'' \<longrightarrow> rows_of s' t = rows_of s t)
        \<and> hourly_contract (re_hour env) cutoff (rows_of s ''resource_snapshots'') (rows_of s' ''resource_snapshots'')"
  using assms thinning_meets_contract [OF assms(2), of "re_hour env" cutoff]
  by (auto simp: downsample_resources_def exec_delete_def Let_def split: option.split)


text \<open>
  A night with an open and a resolved old alert, two old scores of one service, and a log table
  the database refuses.
\<close>

definition night_env :: retention_env where
  "night_env = \<lparr>re_now = (\<lambda>_. 8640000000000), re_purged_at = (\<lambda>_. 8640000000001),
     re_now_downsample = 8640000000002, re_hour = (\<lambda>t. t div 3600000000),
     re_refuses = (\<lambda>t. if t = ''log_entries'' then Some OperationalError else None)\<rparr>"

definition night_state :: retention_state where
  "night_state =
     \<lparr>rt_tables =
       [(''alerts'', [\<lparr>tr_id = 1, tr_times = [(''created_at'', 0)], tr_texts = [], tr_resolved = False\<rparr>,
                     \<lparr>tr_id = 2, tr_times = [(''created_at'', 0)], tr_texts = [], tr_resolved = True\<rparr>]),
        (''reliability_scores'',
           [\<lparr>tr_id = 1, tr_times = [(''computed_at'', 5)], tr_texts = [(''service_name'', ''web'')], tr_resolved = False\<rparr>,
            \<lparr>tr_id = 2, tr_times = [(''computed_at'', 9)], tr_texts = [(''service_name'', ''web'')], tr_resolved = False\<rparr>]),
        (''log_entries'', [\<lparr>tr_id = 1, tr_times = [(''ingested_at'', 0)], tr_texts = [], tr_resolved = False\<rparr>])],
      rt_configs = [\<lparr>rc_table_name = ''log_entries'', rc_retention_days = 30, rc_last_purged_at = None\<rparr>,
                    \<lparr>rc_table_name = ''alerts'', rc_retention_days = 90, rc_last_purged_at = None\<rparr>,
                    \<lparr>rc_table_name = ''reliability_scores'', rc_retention_days = 90, rc_last_purged_at = None\<rparr>]\<rparr>"


end
