(* ===== verification/Reliability.thy ===== *)
theory Reliability
  imports Services
begin

text \<open>
  The reliability score of a service over its recorded health checks (\<open>monitor/reliability.py\<close>)
  and the daily snapshot of all scores (\<open>compute_reliability\<close> and \<open>record_reliability_snapshot\<close> of
  \<open>monitor/reliability_history.py\<close>, the table of \<open>monitor/models/reliability_score.py\<close>). The
  window is taken to lie within the years a \<open>datetime\<close> can hold.
\<close>

section \<open>The score\<close>

definition DOWNTIME_CAP :: int where "DOWNTIME_CAP = 60"

definition INSTABILITY_PER_EPISODE :: int where "INSTABILITY_PER_EPISODE = 5"

definition INSTABILITY_CAP :: int where "INSTABILITY_CAP = 25"

definition UNMEASURED_STATUSES :: "string list" where "UNMEASURED_STATUSES = [''error'', ''skipped'']"

definition DOWN_STATUSES :: "string list" where
  "DOWN_STATUSES = [''degraded'', ''warning'', ''critical'', ''unreachable'']"

definition LOW_COVERAGE_FRACTION :: rat where "LOW_COVERAGE_FRACTION = 1/2"

definition MIN_CONFIDENT_HISTORY_DAYS :: rat where "MIN_CONFIDENT_HISTORY_DAYS = 2"

record health_point =
  hp_checked_at :: instant
  hp_status :: string

definition is_down :: "health_point \<Rightarrow> bool" where
  "is_down p \<longleftrightarrow> hp_status p \<in> set DOWN_STATUSES"

definition is_measured :: "health_point \<Rightarrow> bool" where
  "is_measured p \<longleftrightarrow> hp_status p \<notin> set UNMEASURED_STATUSES"

record deduction =
  dd_kind :: string
  dd_points :: int
  dd_detail :: string
  dd_waived :: bool

record reliability_score =
  rs_service :: string
  rs_score :: int
  rs_grade :: string
  rs_uptime_percent :: rat
  rs_checks_recorded :: nat
  rs_checks_measured :: nat
  rs_failed_checks :: nat
  rs_error_checks :: nat
  rs_skipped_checks :: nat
  rs_outage_episodes :: nat
  rs_longest_outage_minutes :: rat
  rs_mean_hours_between_incidents :: "rat option"
  rs_episode_starts :: "instant list"
  rs_checks_expected :: int
  rs_coverage_percent :: rat
  rs_observed_days :: rat
  rs_confidence :: string
  rs_confidence_reason :: "string option"
  rs_window_days :: int
  rs_window_start :: instant
  rs_first_check_at :: "instant option"
  rs_last_check_at :: "instant option"
  rs_muted :: bool
  rs_waived_points :: int
  rs_deductions :: "deduction list"

text \<open>The loop of \<open>_outage_episodes\<close>, with \<open>start\<close> and \<open>last_bad\<close>.\<close>

fun episodes_from :: "(instant \<times> instant) option \<Rightarrow> health_point list \<Rightarrow> (instant \<times> instant) list" where
  "episodes_from run [] = (case run of None \<Rightarrow> [] | Some ep \<Rightarrow> [ep])"
| "episodes_from run (p # ps) =
     (if is_down p
      then episodes_from
             (case run of None \<Rightarrow> Some (hp_checked_at p, hp_checked_at p)
                        | Some (start, _) \<Rightarrow> Some (start, hp_checked_at p)) ps
      else case run of None \<Rightarrow> episodes_from None ps | Some ep \<Rightarrow> ep # episodes_from None ps)"

definition outage_episodes :: "health_point list \<Rightarrow> (instant \<times> instant) list" where
  "outage_episodes measured = episodes_from None measured"

definition confidence :: "reliability_score \<Rightarrow> string \<times> string option" where
  "confidence result =
     (if rs_observed_days result < MIN_CONFIDENT_HISTORY_DAYS
      then (''low'', Some (''only '' @ show_g (rs_observed_days result) @ '' days of history '' @ em_dash
              @ '' the service was added recently or checks have only just started''))
      else if rs_coverage_percent result < LOW_COVERAGE_FRACTION * 100
      then (''low'', Some (show_g (rs_coverage_percent result) @ ''% of expected checks recorded '' @ em_dash
              @ '' the monitor was down for much of the window''))
      else (''high'', None))"

definition downtime_points :: "reliability_score \<Rightarrow> int" where
  "downtime_points result = min DOWNTIME_CAP (py_round (100 - rs_uptime_percent result))"

definition instability_points :: "reliability_score \<Rightarrow> int" where
  "instability_points result = min INSTABILITY_CAP (INSTABILITY_PER_EPISODE * int (rs_outage_episodes result))"

definition downtime_detail :: "reliability_score \<Rightarrow> string" where
  "downtime_detail result =
     show_g (rs_uptime_percent result) @ ''% uptime across '' @ show_nat (rs_checks_measured result)
     @ '' measured checks '' @ em_dash @ '' '' @ show_nat (rs_failed_checks result) @ '' failed''
     @ (if downtime_points result = DOWNTIME_CAP then '' (capped)'' else []) @ ''.''"

definition instability_detail :: "reliability_score \<Rightarrow> string" where
  "instability_detail result =
     show_nat (rs_outage_episodes result) @ '' separate outage'' @ (if rs_outage_episodes result \<noteq> 1 then ''s'' else [])
     @ (if rs_longest_outage_minutes result \<noteq> 0
        then '', longest '' @ show_g (rs_longest_outage_minutes result) @ '' min'' else [])
     @ '' '' @ em_dash @ '' '' @ show_int INSTABILITY_PER_EPISODE @ '' points each''
     @ (if instability_points result < INSTABILITY_PER_EPISODE * int (rs_outage_episodes result)
        then '' (capped)'' else []) @ ''.''"

definition deductions_of :: "reliability_score \<Rightarrow> bool \<Rightarrow> deduction list" where
  "deductions_of result muted =
     sort_key (\<lambda>d. (- dd_points d, dd_kind d))
       ((if 0 < downtime_points result
         then [\<lparr>dd_kind = ''downtime'', dd_points = downtime_points result,
                dd_detail = downtime_detail result, dd_waived = muted\<rparr>] else []) @
        (if 0 < rs_outage_episodes result
         then [\<lparr>dd_kind = ''instability'', dd_points = instability_points result,
                dd_detail = instability_detail result, dd_waived = muted\<rparr>] else []))"

definition grade_of :: "int \<Rightarrow> int \<times> int \<times> int \<Rightarrow> string" where
  "grade_of score bands =
     (case bands of (reliable_min, degraded_min, unreliable_min) \<Rightarrow>
        if reliable_min \<le> score then ''reliable''
        else if degraded_min \<le> score then ''degraded''
        else if unreliable_min \<le> score then ''unreliable''
        else ''failing'')"

text \<open>The record as its constructor leaves it, before anything is measured.\<close>

definition blank_score :: "string \<Rightarrow> nat \<Rightarrow> int \<Rightarrow> int \<Rightarrow> instant \<Rightarrow> bool \<Rightarrow> reliability_score" where
  "blank_score service recorded window_days check_interval_seconds window_start muted =
     \<lparr>rs_service = service, rs_score = 100, rs_grade = ''reliable'', rs_uptime_percent = 100,
      rs_checks_recorded = recorded, rs_checks_measured = 0, rs_failed_checks = 0, rs_error_checks = 0,
      rs_skipped_checks = 0, rs_outage_episodes = 0, rs_longest_outage_minutes = 0,
      rs_mean_hours_between_incidents = None, rs_episode_starts = [],
      rs_checks_expected =
        max 1 (py_trunc (of_int (window_days * 86400) / of_int (max 1 check_interval_seconds))),
      rs_coverage_percent = 0, rs_observed_days = 0, rs_confidence = ''high'', rs_confidence_reason = None,
      rs_window_days = window_days, rs_window_start = window_start, rs_first_check_at = None,
      rs_last_check_at = None, rs_muted = muted, rs_waived_points = 0, rs_deductions = []\<rparr>"

definition unmeasured_reason :: "nat \<Rightarrow> nat \<Rightarrow> string" where
  "unmeasured_reason skipped errors =
     (if skipped \<noteq> 0 \<and> errors = 0
      then ''not monitored '' @ em_dash @ '' services.yaml declares monitor: false, so all '' @ show_nat skipped
           @ '' checks in the window recorded no evidence either way''
      else ''every check in the window was unmeasurable'')"

text \<open>The rates of a window with at least one measured check.\<close>

definition mean_gap_hours :: "instant list \<Rightarrow> rat option" where
  "mean_gap_hours starts =
     (if 1 < length starts
      then (let gaps = map2 (\<lambda>earlier later. total_seconds (later - earlier)) (butlast starts) (tl starts)
            in Some (py_round_to 1 (sum_list gaps / of_nat (length gaps) / 3600)))
      else None)"

definition longest_minutes :: "(instant \<times> instant) list \<Rightarrow> rat" where
  "longest_minutes episodes =
     (case episodes of [] \<Rightarrow> 0
      | ep # eps \<Rightarrow> py_round_to 1 (total_seconds (fold (\<lambda>(s, e). max (e - s)) eps (snd ep - fst ep)) / 60))"

definition rated :: "health_point list \<Rightarrow> reliability_score \<Rightarrow> reliability_score" where
  "rated measured result =
     (let failed = length (filter is_down measured); episodes = outage_episodes measured
      in result\<lparr>rs_failed_checks := failed,
                rs_uptime_percent := py_round_to 2 (100 * of_nat (length measured - failed) / of_nat (length measured)),
                rs_outage_episodes := length episodes,
                rs_episode_starts := map fst episodes,
                rs_longest_outage_minutes := longest_minutes episodes,
                rs_mean_hours_between_incidents := mean_gap_hours (map fst episodes)\<rparr>)"

definition settle_score :: "(int \<times> int \<times> int) \<Rightarrow> bool \<Rightarrow> reliability_score \<Rightarrow> reliability_score" where
  "settle_score bands muted result =
     (let ds = deductions_of result muted;
          applied = sum_list (map dd_points (filter (\<lambda>d. \<not> dd_waived d) ds));
          score = max 0 (100 - applied)
      in result\<lparr>rs_confidence := fst (confidence result), rs_confidence_reason := snd (confidence result),
                rs_deductions := ds,
                rs_waived_points := sum_list (map dd_points (filter dd_waived ds)),
                rs_score := score, rs_grade := grade_of score bands\<rparr>)"

definition inside_window :: "instant \<Rightarrow> health_point list \<Rightarrow> health_point list" where
  "inside_window window_start points =
     sort_key hp_checked_at (filter (\<lambda>p. window_start \<le> hp_checked_at p) points)"

definition score_service ::
  "string \<Rightarrow> health_point list \<Rightarrow> int \<Rightarrow> int \<Rightarrow> instant \<Rightarrow> bool \<Rightarrow> int \<times> int \<times> int \<Rightarrow> reliability_score" where
  "score_service service points window_days check_interval_seconds now muted bands =
     (let window_start = now - window_days * 86400000000;
          inside = inside_window window_start points;
          result = blank_score service (length inside) window_days check_interval_seconds window_start muted
      in if inside = []
         then result\<lparr>rs_confidence := ''low'', rs_confidence_reason := Some ''no checks recorded in the window'',
                     rs_grade := grade_of (rs_score result) bands\<rparr>
         else
           let first = hp_checked_at (hd inside); final = hp_checked_at (List.last inside);
               measured = filter is_measured inside;
               errors = length (filter (\<lambda>p. hp_status p = ''error'') inside);
               skipped = length (filter (\<lambda>p. hp_status p = ''skipped'') inside);
               result = result\<lparr>rs_first_check_at := Some first, rs_last_check_at := Some final,
                  rs_observed_days := py_round_to 2 (total_seconds (final - first) / 86400),
                  rs_coverage_percent := py_round_to 2
                    (100 * of_nat (rs_checks_recorded result) / of_int (rs_checks_expected result)),
                  rs_error_checks := errors, rs_skipped_checks := skipped,
                  rs_checks_measured := length measured\<rparr>
           in if measured = []
              then result\<lparr>rs_confidence := ''low'', rs_confidence_reason := Some (unmeasured_reason skipped errors),
                          rs_grade := grade_of (rs_score result) bands\<rparr>
              else settle_score bands muted (rated measured result))"

definition score_services ::
  "(string, health_point list) dict \<Rightarrow> string list \<Rightarrow> int \<Rightarrow> int \<Rightarrow> instant \<Rightarrow> int \<times> int \<times> int
     \<Rightarrow> reliability_score list" where
  "score_services series muted window_days check_interval_seconds now bands =
     sort_key (\<lambda>s. (rs_score s, rs_service s))
       (map (\<lambda>(name, points). score_service name points window_days check_interval_seconds now
                (name \<in> set muted) bands) series)"

section \<open>The daily snapshot\<close>

text \<open>A row of \<open>service_health\<close> as the query of \<open>compute_reliability\<close> selects it.\<close>

record health_reading =
  hr_service_name :: string
  hr_status :: string
  hr_checked_at :: instant

record reliability_config =
  rl_enabled :: bool
  rl_window_days :: int
  rl_bands :: "int \<times> int \<times> int"
  rl_check_interval_seconds :: int
  rl_mute_services :: "string list"

definition muted_service_names :: "service_entry list \<Rightarrow> reliability_config \<Rightarrow> string list" where
  "muted_service_names services cfg = map svc_name (filter svc_mute services) @ rl_mute_services cfg"

text \<open>
  The rows of the window, and the dict the partitions are collected in: one series per declared
  service, in the order of the file, each with its points in the order of the rows.
\<close>

definition readings_query :: "instant \<Rightarrow> string list \<Rightarrow> health_reading list \<Rightarrow> health_reading list" where
  "readings_query window_start names checks =
     filter (\<lambda>r. window_start \<le> hr_checked_at r \<and> hr_service_name r \<in> set names) checks"

definition collect_reading :: "health_reading \<Rightarrow> (string, health_point list) dict \<Rightarrow> (string, health_point list) dict" where
  "collect_reading r series =
     (case dict_get series (hr_service_name r) of
        None \<Rightarrow> series
      | Some ps \<Rightarrow> dict_set (hr_service_name r)
          (ps @ [\<lparr>hp_checked_at = hr_checked_at r, hp_status = hr_status r\<rparr>]) series)"

definition compute_reliability ::
  "service_entry list \<Rightarrow> reliability_config \<Rightarrow> health_reading list \<Rightarrow> instant \<Rightarrow> reliability_score list" where
  "compute_reliability services cfg checks now =
     (let window_start = now - rl_window_days cfg * 86400000000; names = map svc_name services
      in if names = [] then []
         else score_services
                (fold collect_reading (readings_query window_start names checks)
                   (fold (\<lambda>n. dict_set n []) names []))
                (muted_service_names services cfg) (rl_window_days cfg) (rl_check_interval_seconds cfg) now
                (rl_bands cfg))"

text \<open>The table: its checks, and what its numeric and text columns hold.\<close>

definition numeric_fits :: "nat \<Rightarrow> nat \<Rightarrow> rat \<Rightarrow> bool" where
  "numeric_fits precision scale x \<longleftrightarrow> \<bar>of_int (py_round (x * 10 ^ scale))\<bar> < (10 ^ precision :: rat)"

definition reliability_row_ok :: "reliability_score \<Rightarrow> bool" where
  "reliability_row_ok r \<longleftrightarrow>
     0 \<le> rs_score r \<and> rs_score r \<le> 100
   \<and> rs_grade r \<in> set [''reliable'', ''degraded'', ''unreliable'', ''failing'']
   \<and> rs_confidence r \<in> set [''high'', ''low'']
   \<and> py_len (rs_service r) \<le> 100
   \<and> numeric_fits 5 2 (rs_uptime_percent r)
   \<and> numeric_fits 6 2 (rs_coverage_percent r)
   \<and> numeric_fits 6 2 (rs_observed_days r)
   \<and> numeric_fits 10 1 (rs_longest_outage_minutes r)
   \<and> (case rs_mean_hours_between_incidents r of None \<Rightarrow> True | Some h \<Rightarrow> numeric_fits 10 1 h)"

text \<open>
  The job: nothing when it is switched off, otherwise one row per score, all in one transaction,
  so a single row the table refuses loses the whole snapshot. The result is the number of rows.
\<close>

definition record_reliability_snapshot ::
  "service_entry list \<Rightarrow> reliability_config \<Rightarrow> health_reading list \<Rightarrow> instant
     \<Rightarrow> (instant \<times> reliability_score) list \<Rightarrow> py_error + nat \<times> (instant \<times> reliability_score) list" where
  "record_reliability_snapshot services cfg checks now table =
     (if \<not> rl_enabled cfg then Inr (0, table)
      else let scores = compute_reliability services cfg checks now
           in if list_all reliability_row_ok scores
              then Inr (length scores, table @ map (Pair now) scores)
              else Inl (DataError ''reliability_scores''))"

section \<open>Outages\<close>

text \<open>An outage begins at a check that is down and does not follow one that is.\<close>

definition onsets :: "health_point list \<Rightarrow> nat" where
  "onsets ps = length (filter (\<lambda>i. is_down (ps ! i) \<and> (i = 0 \<or> \<not> is_down (ps ! (i - 1)))) [0..<length ps])"

lemma onsets_Nil [simp]: "onsets [] = 0"
  by (simp add: onsets_def)

lemma onsets_snoc:
  "onsets (ps @ [p]) = onsets ps + (if is_down p \<and> (ps = [] \<or> \<not> is_down (List.last ps)) then 1 else 0)"
proof -
  have "filter (\<lambda>i. is_down ((ps @ [p]) ! i) \<and> (i = 0 \<or> \<not> is_down ((ps @ [p]) ! (i - 1)))) [0..<length ps]
      = filter (\<lambda>i. is_down (ps ! i) \<and> (i = 0 \<or> \<not> is_down (ps ! (i - 1)))) [0..<length ps]"
    by (rule filter_cong) (auto simp: nth_append)
  then show ?thesis by (cases "ps = []") (auto simp: onsets_def nth_append last_conv_nth)
qed

lemma episodes_from_onsets:
  "(run \<noteq> None \<longleftrightarrow> past \<noteq> [] \<and> is_down (List.last past)) \<Longrightarrow>
     length (episodes_from run ps) + onsets past = onsets (past @ ps) + (if run \<noteq> None then 1 else 0)"
proof (induction run ps arbitrary: past rule: episodes_from.induct)
  case (1 run)
  then show ?case by (auto split: option.splits)
next
  case (2 run p ps)
  have step: "onsets ((past @ [p]) @ ps) = onsets (past @ p # ps)" by simp
  show ?case
  proof (cases "is_down p")
    case True
    have "length (episodes_from (case run of None \<Rightarrow> Some (hp_checked_at p, hp_checked_at p)
        | Some (start, _) \<Rightarrow> Some (start, hp_checked_at p)) ps) + onsets (past @ [p])
        = onsets ((past @ [p]) @ ps) + 1"
      using 2(1) [OF True, of "past @ [p]"] True by (auto split: option.splits)
    with True 2(4) show ?thesis unfolding step by (auto simp: onsets_snoc split: option.splits)
  next
    case False
    show ?thesis
    proof (cases run)
      case None
      from 2(2) [OF False None, of "past @ [p]"] False None show ?thesis unfolding step by (simp add: onsets_snoc)
    next
      case (Some ep)
      from 2(3) [OF False Some, of "past @ [p]"] False Some show ?thesis unfolding step by (simp add: onsets_snoc)
    qed
  qed
qed

lemma length_outage_episodes: "length (outage_episodes ps) = onsets ps"
  using episodes_from_onsets [of None "[]" ps] by (simp add: outage_episodes_def)

lemma onsets_pos: "0 < onsets ps \<longleftrightarrow> filter is_down ps \<noteq> []"
  by (induction ps rule: rev_induct) (auto simp: onsets_snoc filter_empty_conv)

section \<open>Points\<close>

lemma py_round_mono: "x \<le> y \<Longrightarrow> py_round x \<le> py_round y"
proof -
  assume le: "x \<le> y"
  then have fl: "\<lfloor>x\<rfloor> \<le> \<lfloor>y\<rfloor>" by (rule floor_mono)
  show ?thesis
  proof (cases "\<lfloor>x\<rfloor> = \<lfloor>y\<rfloor>")
    case True
    with le show ?thesis by (auto simp: py_round_def Let_def)
  next
    case False
    with fl have "\<lfloor>x\<rfloor> + 1 \<le> \<lfloor>y\<rfloor>" by simp
    moreover have "py_round x \<le> \<lfloor>x\<rfloor> + 1" "\<lfloor>y\<rfloor> \<le> py_round y" by (auto simp: py_round_def Let_def)
    ultimately show ?thesis by linarith
  qed
qed

lemma py_round_to_mono: "x \<le> y \<Longrightarrow> py_round_to n x \<le> py_round_to n y"
  by (simp add: py_round_to_def py_round_mono divide_right_mono mult_right_mono)

lemma py_round_to_nat [simp]: "py_round_to n (of_nat k) = of_nat k"
proof -
  have "(of_nat k * 10 ^ n :: rat) = of_int (int k * 10 ^ n)" by simp
  then show ?thesis unfolding py_round_to_def by (simp only: py_round_of_int) simp
qed

text \<open>The uptime as \<open>score_service\<close> computes it lies between 0 and 100.\<close>

definition uptime :: "health_point list \<Rightarrow> rat" where
  "uptime measured =
     py_round_to 2 (100 * of_nat (length measured - length (filter is_down measured)) / of_nat (length measured))"

lemma uptime_range: "0 \<le> uptime ps" "uptime ps \<le> 100"
proof -
  let ?x = "100 * of_nat (length ps - length (filter is_down ps)) / of_nat (length ps) :: rat"
  have "0 \<le> ?x" by simp
  from py_round_to_mono [OF this, of 2] show "0 \<le> uptime ps"
    using py_round_to_nat [of 2 0] by (simp add: uptime_def)
  have "(of_nat (length ps - length (filter is_down ps)) :: rat) \<le> of_nat (length ps)" by simp
  then have "?x \<le> of_nat 100" by (cases "ps = []") (simp_all add: divide_le_eq)
  from py_round_to_mono [OF this, of 2] show "uptime ps \<le> 100"
    unfolding uptime_def py_round_to_nat by simp
qed

definition lost_points :: "health_point list \<Rightarrow> int" where
  "lost_points measured = min 60 (py_round (100 - uptime measured)) + min 25 (5 * int (onsets measured))"

lemma lost_points_range: "0 \<le> lost_points ps" "lost_points ps \<le> 85"
  using py_round_nonneg [of "100 - uptime ps"] uptime_range [of ps] by (simp_all add: lost_points_def)

lemma points_rated:
  "downtime_points (rated ps r) = min 60 (py_round (100 - uptime ps))"
  "instability_points (rated ps r) = min 25 (5 * int (onsets ps))"
  "rs_outage_episodes (rated ps r) = onsets ps"
  by (simp_all add: downtime_points_def instability_points_def rated_def Let_def uptime_def DOWNTIME_CAP_def
      INSTABILITY_CAP_def INSTABILITY_PER_EPISODE_def length_outage_episodes)

lemma deductions_waived: "d \<in> set (deductions_of r muted) \<Longrightarrow> dd_waived d = muted"
  by (auto simp: deductions_of_def split: if_splits)

lemma deductions_sum: "sum_list (map dd_points (deductions_of (rated ps r) muted)) = lost_points ps"
proof -
  have "0 \<le> py_round (100 - uptime ps)" using py_round_nonneg uptime_range(2) [of ps] by simp
  then show ?thesis
    by (auto simp: deductions_of_def points_rated lost_points_def)
qed

lemma settled_score:
  "rs_score (settle_score bands muted (rated ps r)) = (if muted then 100 else 100 - lost_points ps)"
proof -
  have "filter (\<lambda>d. \<not> dd_waived d) (deductions_of (rated ps r) muted) =
      (if muted then [] else deductions_of (rated ps r) muted)"
    using deductions_waived by (auto simp: filter_empty_conv filter_id_conv)
  then show ?thesis
    using deductions_sum [of ps r muted] lost_points_range(2) [of ps] by (auto simp: settle_score_def Let_def)
qed

lemma settled_grade: "rs_grade (settle_score bands muted r) = grade_of (rs_score (settle_score bands muted r)) bands"
  by (simp add: settle_score_def Let_def)

lemma lost_points_none: "filter is_down ps = [] \<Longrightarrow> ps \<noteq> [] \<Longrightarrow> lost_points ps = 0"
proof -
  assume no: "filter is_down ps = []" and ne: "ps \<noteq> []"
  have "uptime ps = 100" using ne py_round_to_nat [of 2 100] by (simp add: uptime_def no)
  then show ?thesis using onsets_pos [of ps] no py_round_of_int [of 0] by (simp add: lost_points_def)
qed

lemma lost_points_some: "filter is_down ps \<noteq> [] \<Longrightarrow> 5 \<le> lost_points ps"
  using onsets_pos [of ps] py_round_nonneg [of "100 - uptime ps"] uptime_range(2) [of ps]
  by (simp add: lost_points_def)

text \<open>
  C34: The score is a function of the checks in the window that measured something: 100 without any,
  or for a service declared expected-down; otherwise 100 less the rounded downtime (at most 60)
  and five points for every outage (at most 25), where an outage begins at a down check that
  follows none. So a score lies between 15 and 100 and is 100 exactly when no check was down.
\<close>

theorem score_service_exact:
  fixes service points window_days interval now muted bands
  defines "measured \<equiv> filter is_measured (inside_window (now - window_days * 86400000000) points)"
    and "r \<equiv> score_service service points window_days interval now muted bands"
  shows "rs_score r = (if muted \<or> measured = [] then 100 else 100 - lost_points measured)
    \<and> rs_grade r = grade_of (rs_score r) bands
    \<and> 15 \<le> rs_score r \<and> rs_score r \<le> 100
    \<and> (rs_score r = 100 \<longleftrightarrow> muted \<or> filter is_down measured = [])"
proof -
  let ?in = "inside_window (now - window_days * 86400000000) points"
  have score: "rs_score r = (if muted \<or> measured = [] then 100 else 100 - lost_points measured)"
    by (simp_all add: r_def measured_def score_service_def Let_def settled_score blank_score_def)
  moreover have "rs_grade r = grade_of (rs_score r) bands"
    by (simp add: r_def score_service_def Let_def settled_grade)
  moreover have "rs_score r = 100 \<longleftrightarrow> muted \<or> filter is_down measured = []"
    using score lost_points_none [of measured] lost_points_some [of measured]
    by (cases "measured = []"; cases "filter is_down measured = []") auto
  ultimately show ?thesis using lost_points_range [of measured] by auto
qed

text \<open>A week of four measured checks, two of them down in a row, and an error that counts for nothing.\<close>

definition week_points :: "health_point list" where
  "week_points =
     [\<lparr>hp_checked_at = 40, hp_status = ''ok''\<rparr>, \<lparr>hp_checked_at = 10, hp_status = ''ok''\<rparr>,
      \<lparr>hp_checked_at = 20, hp_status = ''unreachable''\<rparr>, \<lparr>hp_checked_at = 25, hp_status = ''error''\<rparr>,
      \<lparr>hp_checked_at = 30, hp_status = ''degraded''\<rparr>]"

theorem score_service_exact_witness:
  "rs_score (score_service ''web'' week_points 7 300 100 False (95, 85, 60)) = 45
   \<and> rs_grade (score_service ''web'' week_points 7 300 100 False (95, 85, 60)) = ''failing''"
proof -
  have "filter is_measured (inside_window (100 - 7 * 86400000000) week_points) =
      [\<lparr>hp_checked_at = 10, hp_status = ''ok''\<rparr>, \<lparr>hp_checked_at = 20, hp_status = ''unreachable''\<rparr>,
       \<lparr>hp_checked_at = 30, hp_status = ''degraded''\<rparr>, \<lparr>hp_checked_at = 40, hp_status = ''ok''\<rparr>]"
    by code_simp
  moreover have "lost_points
      [\<lparr>hp_checked_at = 10, hp_status = ''ok''\<rparr>, \<lparr>hp_checked_at = 20, hp_status = ''unreachable''\<rparr>,
       \<lparr>hp_checked_at = 30, hp_status = ''degraded''\<rparr>, \<lparr>hp_checked_at = 40, hp_status = ''ok''\<rparr>] = 55"
    by code_simp
  ultimately show ?thesis
    using score_service_exact [of "''web''" week_points 7 300 100 False "(95, 85, 60)"]
    by (simp add: grade_of_def)
qed

section \<open>The rows of the snapshot\<close>

lemma py_round_to_bound: "\<bar>x\<bar> \<le> of_nat B \<Longrightarrow> \<bar>py_round_to n x\<bar> \<le> of_nat B"
proof -
  assume b: "\<bar>x\<bar> \<le> of_nat B"
  have "(- of_nat B * 10 ^ n :: rat) = of_int (- int B * 10 ^ n)" by simp
  then have "py_round_to n (- of_nat B) = - of_nat B"
    unfolding py_round_to_def by (simp only: py_round_of_int) simp
  moreover have "py_round_to n (- of_nat B) \<le> py_round_to n x"
    by (rule py_round_to_mono) (use b in \<open>simp add: abs_le_iff\<close>)
  moreover have "py_round_to n x \<le> py_round_to n (of_nat B)"
    by (rule py_round_to_mono) (use b in \<open>simp add: abs_le_iff\<close>)
  ultimately show ?thesis by (simp add: abs_le_iff)
qed

lemma numeric_fits_bound:
  assumes "\<bar>x\<bar> \<le> of_nat B" "B * 10 ^ scale < 10 ^ precision"
  shows "numeric_fits precision scale x"
proof -
  have "of_int (py_round (x * 10 ^ scale)) = py_round_to scale x * 10 ^ scale" by (simp add: py_round_to_def)
  then have "\<bar>of_int (py_round (x * 10 ^ scale))\<bar> = \<bar>py_round_to scale x\<bar> * (10 ^ scale :: rat)"
    by (simp add: abs_mult)
  also have "\<dots> \<le> of_nat B * 10 ^ scale"
    by (intro mult_right_mono py_round_to_bound assms(1)) simp
  also have "\<dots> = of_nat (B * 10 ^ scale)" by simp
  also have "\<dots> < of_nat (10 ^ precision)" using assms(2) by (simp only: of_nat_less_iff)
  finally show ?thesis by (simp add: numeric_fits_def)
qed

text \<open>Every moment of a list of points, and so every length of time between two of them.\<close>

definition in_span :: "instant \<Rightarrow> instant \<Rightarrow> instant \<Rightarrow> bool" where
  "in_span lo hi t \<longleftrightarrow> lo \<le> t \<and> t \<le> hi"

lemma episodes_within:
  "list_all (in_span lo hi \<circ> hp_checked_at) ps \<Longrightarrow>
   (\<And>a b. run = Some (a, b) \<Longrightarrow> in_span lo hi a \<and> in_span lo hi b) \<Longrightarrow>
   (s, e) \<in> set (episodes_from run ps) \<Longrightarrow> in_span lo hi s \<and> in_span lo hi e"
proof (induction run ps rule: episodes_from.induct)
  case (1 run)
  then show ?case by (auto split: option.splits)
next
  case (2 run p ps)
  show ?case
  proof (cases "is_down p")
    case True
    show ?thesis
      by (rule 2(1) [OF True]) (use True 2(4-6) in \<open>auto split: option.splits\<close>)
  next
    case False
    with 2(2-6) show ?thesis by (cases run) auto
  qed
qed

lemma gap_seconds_bound:
  assumes "in_span lo hi a" "in_span lo hi b" "hi - lo = int days * 86400000000"
  shows "\<bar>total_seconds (b - a)\<bar> \<le> of_nat (days * 86400)"
proof -
  have "\<bar>b - a\<bar> \<le> int (days * 86400) * 1000000" using assms by (auto simp: in_span_def)
  then have "of_int \<bar>b - a\<bar> \<le> (of_int (int (days * 86400) * 1000000) :: rat)" by (simp only: of_int_le_iff)
  then show ?thesis by (simp add: total_seconds_def abs_divide divide_le_eq)
qed

lemma longest_minutes_bound:
  assumes all: "\<And>s e. (s, e) \<in> set eps \<Longrightarrow> in_span lo hi s \<and> in_span lo hi e"
    and window: "hi - lo = int days * 86400000000"
  shows "\<bar>longest_minutes eps\<bar> \<le> of_nat (days * 1440)"
proof (cases eps)
  case Nil
  then show ?thesis by (simp add: longest_minutes_def)
next
  case (Cons ep rest)
  have "\<exists>(a, b) \<in> set (ep' # xs). fold (\<lambda>(s, e). max (e - s)) xs (snd ep' - fst ep') = b - a"
    for ep' :: "instant \<times> instant" and xs
  proof (induction xs arbitrary: ep')
    case (Cons x xs)
    from Cons.IH [of x] Cons.IH [of ep'] show ?case
      by (cases "snd ep' - fst ep' \<le> snd x - fst x") (auto simp: split_beta max_def)
  qed (cases ep', auto)
  then obtain a b where ab: "(a, b) \<in> set eps"
    "fold (\<lambda>(s, e). max (e - s)) rest (snd ep - fst ep) = b - a"
    using Cons by fastforce
  have "\<bar>total_seconds (b - a) / 60\<bar> \<le> of_nat (days * 1440)"
    using gap_seconds_bound [OF _ _ window, of a b] all [OF ab(1)] by (simp add: abs_divide divide_le_eq)
  from py_round_to_bound [OF this] show ?thesis using Cons ab(2) by (simp add: longest_minutes_def)
qed

lemma average_bound:
  fixes xs :: "rat list"
  assumes "\<And>x. x \<in> set xs \<Longrightarrow> \<bar>x\<bar> \<le> B" "0 \<le> B"
  shows "\<bar>sum_list xs / of_nat (length xs)\<bar> \<le> B"
proof -
  have "\<bar>sum_list xs\<bar> \<le> of_nat (length xs) * B"
    using assms(1) by (induction xs) (force simp: algebra_simps)+
  then show ?thesis using assms(2) by (cases "xs = []") (simp_all add: abs_divide divide_le_eq mult.commute)
qed

lemma mean_gap_bound:
  assumes all: "\<And>s. s \<in> set starts \<Longrightarrow> in_span lo hi s" and window: "hi - lo = int days * 86400000000"
    and h: "mean_gap_hours starts = Some h"
  shows "\<bar>h\<bar> \<le> of_nat (days * 24)"
proof -
  let ?gaps = "map2 (\<lambda>earlier later. total_seconds (later - earlier)) (butlast starts) (tl starts)"
  have "\<bar>x\<bar> \<le> of_nat (days * 86400)" if "x \<in> set ?gaps" for x
  proof -
    from that obtain a b where ab: "(a, b) \<in> set (zip (butlast starts) (tl starts))" "x = total_seconds (b - a)"
      by auto
    have "a \<in> set starts" using set_zip_leftD [OF ab(1)] by (rule in_set_butlastD)
    moreover have "b \<in> set starts" using set_zip_rightD [OF ab(1)] by (cases starts) auto
    ultimately show ?thesis using gap_seconds_bound [OF all all window] ab(2) by simp
  qed
  then have "\<bar>sum_list ?gaps / of_nat (length ?gaps)\<bar> \<le> of_nat (days * 86400)"
    by (intro average_bound) auto
  moreover have "\<bar>y\<bar> \<le> of_nat (days * 86400) \<Longrightarrow> \<bar>y / 3600\<bar> \<le> of_nat (days * 24)" for y :: rat
    by (simp add: abs_divide divide_le_eq)
  ultimately have "\<bar>sum_list ?gaps / of_nat (length ?gaps) / 3600\<bar> \<le> of_nat (days * 24)" by blast
  from py_round_to_bound [OF this, of 1] h show ?thesis
    by (auto simp: mean_gap_hours_def Let_def split: if_splits)
qed

text \<open>What the caller of the score has to see to for the row to fit its table.\<close>

definition scorable :: "string \<Rightarrow> health_point list \<Rightarrow> nat \<Rightarrow> int \<Rightarrow> instant \<Rightarrow> bool" where
  "scorable service points days interval now \<longleftrightarrow>
     py_len service \<le> 100 \<and> days \<le> 9999 \<and> list_all (\<lambda>p. hp_checked_at p \<le> now) points
   \<and> 100 * int (length (inside_window (now - int days * 86400000000) points))
       \<le> 9999 * max 1 (py_trunc (of_int (int days * 86400) / of_int (max 1 interval)))"

lemma coverage_bound:
  assumes "100 * int n \<le> 9999 * e" "1 \<le> e"
  shows "\<bar>py_round_to 2 (100 * of_nat n / of_int e)\<bar> \<le> of_nat 9999"
proof (rule py_round_to_bound)
  have "(of_int (100 * int n) :: rat) \<le> of_int (9999 * e)" using assms(1) by (simp only: of_int_le_iff)
  then show "\<bar>100 * of_nat n / of_int e\<bar> \<le> (of_nat 9999 :: rat)"
    using assms(2) by (simp add: abs_divide abs_of_nonneg divide_le_eq)
qed

lemma inside_window_span:
  "list_all (\<lambda>p. hp_checked_at p \<le> now) points \<Longrightarrow> p \<in> set (inside_window lo points) \<Longrightarrow> in_span lo now (hp_checked_at p)"
  by (auto simp: inside_window_def in_span_def list_all_iff)

lemma grade_of_known: "grade_of score bands \<in> set [''reliable'', ''degraded'', ''unreliable'', ''failing'']"
  by (simp add: grade_of_def split_beta)

lemma confidence_known: "fst (confidence r) \<in> set [''high'', ''low'']"
  by (simp add: confidence_def)

lemma uptime_fits: "numeric_fits 5 2 (uptime ps)"
  by (rule numeric_fits_bound [where B = 100]) (use uptime_range [of ps] in simp_all)

text \<open>A measured window: the fields the row constraints speak of, after the last step.\<close>

lemma settled_fields:
  "rs_service (settle_score bands muted (rated ps r)) = rs_service r"
  "rs_uptime_percent (settle_score bands muted (rated ps r)) = uptime ps"
  "rs_coverage_percent (settle_score bands muted (rated ps r)) = rs_coverage_percent r"
  "rs_observed_days (settle_score bands muted (rated ps r)) = rs_observed_days r"
  "rs_longest_outage_minutes (settle_score bands muted (rated ps r)) = longest_minutes (outage_episodes ps)"
  "rs_mean_hours_between_incidents (settle_score bands muted (rated ps r)) = mean_gap_hours (map fst (outage_episodes ps))"
  "rs_confidence (settle_score bands muted (rated ps r)) = fst (confidence (rated ps r))"
  by (simp_all add: settle_score_def rated_def Let_def uptime_def)

lemma settled_row_ok:
  assumes ps: "\<And>p. p \<in> set ps \<Longrightarrow> in_span lo hi (hp_checked_at p)" and window: "hi - lo = int days * 86400000000"
    and days: "days \<le> 9999" and name: "py_len (rs_service r) \<le> 100"
    and fits: "numeric_fits 6 2 (rs_coverage_percent r)" "numeric_fits 6 2 (rs_observed_days r)"
  shows "reliability_row_ok (settle_score bands muted (rated ps r))"
proof -
  have "list_all (in_span lo hi \<circ> hp_checked_at) ps" using ps by (simp add: list_all_iff)
  then have eps: "in_span lo hi s \<and> in_span lo hi e" if "(s, e) \<in> set (outage_episodes ps)" for s e
    by (rule episodes_within [where run = None and s = s]) (use that in \<open>simp_all add: outage_episodes_def\<close>)
  have "numeric_fits 10 1 (longest_minutes (outage_episodes ps))"
    by (rule numeric_fits_bound [OF longest_minutes_bound [OF eps window]]) (use days in simp_all)
  moreover have "numeric_fits 10 1 h" if "mean_gap_hours (map fst (outage_episodes ps)) = Some h" for h
    by (rule numeric_fits_bound [OF mean_gap_bound [OF _ window that]]) (use eps days in auto)
  moreover have "0 \<le> rs_score (settle_score bands muted (rated ps r))" "rs_score (settle_score bands muted (rated ps r)) \<le> 100"
    using lost_points_range [of ps] by (auto simp: settled_score)
  ultimately show ?thesis
    unfolding reliability_row_ok_def settled_fields settled_grade
    using name fits grade_of_known confidence_known uptime_fits by (simp split: option.split)
qed

lemma score_service_row_ok:
  assumes ok: "scorable service points days interval now"
  shows "reliability_row_ok (score_service service points (int days) interval now muted bands)"
proof -
  let ?lo = "now - int days * 86400000000"
  let ?in = "inside_window ?lo points"
  let ?e = "max 1 (py_trunc (of_int (int days * 86400) / of_int (max 1 interval)))"
  have zero: "numeric_fits p s 0" for p s by (rule numeric_fits_bound [where B = 0]) simp_all
  have hundred: "numeric_fits 5 2 100" by (rule numeric_fits_bound [where B = 100]) simp_all
  have span: "in_span ?lo now (hp_checked_at p)" if "p \<in> set ?in" for p
    using inside_window_span [OF _ that] ok by (simp add: scorable_def)
  have days: "days \<le> 9999" and name: "py_len service \<le> 100" using ok by (simp_all add: scorable_def)
  have cover: "numeric_fits 6 2 (py_round_to 2 (100 * of_nat (length ?in) / of_int ?e))"
    by (rule numeric_fits_bound [OF coverage_bound]) (use ok in \<open>simp_all add: scorable_def\<close>)
  have days_seen: "numeric_fits 6 2 (py_round_to 2 (total_seconds (hp_checked_at (List.last ?in) - hp_checked_at (hd ?in)) / 86400))"
    if "?in \<noteq> []"
  proof (rule numeric_fits_bound [where B = days, OF py_round_to_bound])
    show "\<bar>total_seconds (hp_checked_at (List.last ?in) - hp_checked_at (hd ?in)) / 86400\<bar> \<le> of_nat days"
      using gap_seconds_bound [OF span span, of "hd ?in" "List.last ?in" days] that
      by (simp add: abs_divide divide_le_eq)
  qed (use days in simp)
  show ?thesis
  proof (cases "?in = [] \<or> filter is_measured ?in = []")
    case True
    then show ?thesis
      using zero hundred cover days_seen name grade_of_known [of 100 bands]
      by (auto simp: score_service_def Let_def blank_score_def reliability_row_ok_def)
  next
    case False
    then obtain r where r: "score_service service points (int days) interval now muted bands =
        settle_score bands muted (rated (filter is_measured ?in) r)" "rs_service r = service"
      "rs_coverage_percent r = py_round_to 2 (100 * of_nat (length ?in) / of_int ?e)"
      "rs_observed_days r = py_round_to 2 (total_seconds (hp_checked_at (List.last ?in) - hp_checked_at (hd ?in)) / 86400)"
      by (simp add: score_service_def Let_def blank_score_def)
    show ?thesis unfolding r(1)
      by (rule settled_row_ok [where lo = ?lo and hi = now and days = days])
        (use span days name cover days_seen False r in \<open>simp_all add: r\<close>)
  qed
qed

text \<open>The series the query is collected into.\<close>

definition points_of :: "string \<Rightarrow> health_reading list \<Rightarrow> health_point list" where
  "points_of n rs = map (\<lambda>r. \<lparr>hp_checked_at = hr_checked_at r, hp_status = hr_status r\<rparr>)
     (filter (\<lambda>r. hr_service_name r = n) rs)"

lemma collect_readings:
  "dict_get (fold collect_reading rs series) n = map_option (\<lambda>ps. ps @ points_of n rs) (dict_get series n)"
proof (induction rs arbitrary: series)
  case Nil
  then show ?case by (simp add: points_of_def option.map_id [unfolded id_def])
next
  case (Cons r rs)
  show ?case unfolding fold.simps comp_apply Cons.IH
    by (cases "dict_get series (hr_service_name r)") (auto simp: collect_reading_def points_of_def)
qed

lemma collect_wf: "dict_wf series \<Longrightarrow> dict_wf (fold collect_reading rs series)"
  by (induction rs arbitrary: series) (simp_all add: collect_reading_def split: option.split)

lemma blank_series:
  "dict_get (fold (\<lambda>n. dict_set n []) names d) n = (if n \<in> set names then Some [] else dict_get d n)"
  by (induction names arbitrary: d) auto

lemma blank_series_wf: "dict_wf d \<Longrightarrow> dict_wf (fold (\<lambda>n. dict_set n []) names d)"
  by (induction names arbitrary: d) simp_all

lemma rs_service_score [simp]: "rs_service (score_service service ps w i now m b) = service"
  by (simp add: score_service_def Let_def settle_score_def rated_def blank_score_def)

lemma sorted_by_score: "sorted (map rs_score (sort_key (\<lambda>s. (rs_score s, rs_service s)) xs))"
proof -
  have "sorted (map (\<lambda>s. (rs_score s, rs_service s)) (sort_key (\<lambda>s. (rs_score s, rs_service s)) xs))"
    by (rule sorted_sort_key)
  then show ?thesis
    unfolding sorted_map by (rule sorted_wrt_mono_rel [rotated]) (auto simp: less_eq_prod_def)
qed

text \<open>The series of each declared service, as the partitions leave them.\<close>

definition reading_series :: "instant \<Rightarrow> string list \<Rightarrow> health_reading list \<Rightarrow> (string, health_point list) dict" where
  "reading_series lo names checks =
     fold collect_reading (readings_query lo names checks) (fold (\<lambda>n. dict_set n []) names [])"

lemma reading_series_wf: "dict_wf (reading_series lo names checks)"
  unfolding reading_series_def by (intro collect_wf blank_series_wf) simp

lemma reading_series_get:
  "dict_get (reading_series lo names checks) n =
     (if n \<in> set names then Some (points_of n (readings_query lo names checks)) else None)"
  unfolding reading_series_def collect_readings by (simp only: blank_series) simp

lemma reading_series_entry:
  "(n, ps) \<in> set (reading_series lo names checks) \<Longrightarrow> n \<in> set names \<and> ps = points_of n (readings_query lo names checks)"
  using reading_series_wf [of lo names checks] reading_series_get [of lo names checks n]
  by (auto simp: dict_wf_def dict_get_def split: if_splits)

lemma reading_series_keys: "fst ` set (reading_series lo names checks) = set names"
proof -
  have "n \<in> fst ` set (reading_series lo names checks) \<longleftrightarrow> n \<in> set names" for n
  proof -
    have "n \<in> fst ` set (reading_series lo names checks) \<longleftrightarrow> dict_get (reading_series lo names checks) n \<noteq> None"
      by (simp add: dict_get_def map_of_eq_None_iff)
    then show ?thesis unfolding reading_series_get by simp
  qed
  then show ?thesis by blast
qed

lemma compute_reliability_series:
  "services \<noteq> [] \<Longrightarrow> compute_reliability services cfg checks now =
     score_services (reading_series (now - rl_window_days cfg * 86400000000) (map svc_name services) checks)
       (muted_service_names services cfg) (rl_window_days cfg) (rl_check_interval_seconds cfg) now (rl_bands cfg)"
  by (simp add: compute_reliability_def reading_series_def Let_def)

text \<open>The points of one service in the window are its checks in the window.\<close>

lemma scorable_reading:
  assumes n: "n \<in> set names" "py_len n \<le> 100" and days: "days \<le> 9999"
    and past: "\<forall>c \<in> set checks. hr_checked_at c \<le> now"
    and dense: "100 * int (length (filter (\<lambda>c. hr_service_name c = n \<and> now - int days * 86400000000 \<le> hr_checked_at c) checks))
        \<le> 9999 * max 1 (py_trunc (of_int (int days * 86400) / of_int (max 1 interval)))"
  shows "scorable n (points_of n (readings_query (now - int days * 86400000000) names checks)) days interval now"
proof -
  let ?lo = "now - int days * 86400000000"
  have "filter (\<lambda>c. ?lo \<le> hr_checked_at c \<and> hr_service_name c = n) (readings_query ?lo names checks) =
      filter (\<lambda>c. hr_service_name c = n \<and> ?lo \<le> hr_checked_at c) checks"
    unfolding readings_query_def filter_filter by (rule filter_cong) (use n in auto)
  then have "length (inside_window ?lo (points_of n (readings_query ?lo names checks))) =
      length (filter (\<lambda>c. hr_service_name c = n \<and> ?lo \<le> hr_checked_at c) checks)"
    by (simp add: inside_window_def points_of_def filter_map o_def conj_commute)
  with dense show ?thesis
    using n days past by (auto simp: scorable_def list_all_iff points_of_def readings_query_def)
qed

lemma score_services_rows:
  assumes "dict_wf series" "\<And>n ps. (n, ps) \<in> set series \<Longrightarrow> scorable n ps days interval now"
  shows "list_all reliability_row_ok (score_services series muted (int days) interval now bands)
    \<and> set (map rs_service (score_services series muted (int days) interval now bands)) = fst ` set series
    \<and> distinct (map rs_service (score_services series muted (int days) interval now bands))
    \<and> sorted (map rs_score (score_services series muted (int days) interval now bands))"
proof (intro conjI)
  let ?score = "\<lambda>(name, points). score_service name points (int days) interval now (name \<in> set muted) bands"
  show "list_all reliability_row_ok (score_services series muted (int days) interval now bands)"
    unfolding score_services_def list_all_iff set_sort set_map
    using assms(2) by (auto intro: score_service_row_ok)
  show "set (map rs_service (score_services series muted (int days) interval now bands)) = fst ` set series"
    by (simp add: score_services_def image_image split_beta)
  have "distinct (map rs_service (map ?score series))"
    using assms(1) by (simp add: o_def split_beta dict_wf_def)
  then show "distinct (map rs_service (score_services series muted (int days) interval now bands))"
    unfolding score_services_def by (simp only: distinct_map distinct_sort set_sort)
qed (simp add: score_services_def sorted_by_score)

text \<open>
  C33: The daily snapshot never writes a row its table refuses: given services whose names fit,
  a window of at most 9999 days, checks that are not in the future and at most 99 times as many
  as expected, the job stores exactly one row per declared service, worst first, and every row
  meets the score, grade and confidence checks of the table and fits its numeric columns.
\<close>

theorem snapshot_rows_typed:
  assumes on: "rl_enabled cfg" and window: "rl_window_days cfg = int days" "days \<le> 9999"
    and names: "\<forall>s \<in> set services. py_len (svc_name s) \<le> 100"
    and past: "\<forall>c \<in> set checks. hr_checked_at c \<le> now"
    and dense: "\<forall>s \<in> set services.
        100 * int (length (filter (\<lambda>c. hr_service_name c = svc_name s \<and> now - int days * 86400000000 \<le> hr_checked_at c) checks))
          \<le> 9999 * max 1 (py_trunc (of_int (int days * 86400) / of_int (max 1 (rl_check_interval_seconds cfg))))"
  shows "\<exists>new. record_reliability_snapshot services cfg checks now table
             = Inr (length new, table @ map (Pair now) new)
    \<and> list_all reliability_row_ok new
    \<and> set (map rs_service new) = set (map svc_name services) \<and> distinct (map rs_service new)
    \<and> sorted (map rs_score new)"
proof -
  let ?series = "reading_series (now - int days * 86400000000) (map svc_name services) checks"
  define new where "new = compute_reliability services cfg checks now"
  have rows: "list_all reliability_row_ok new \<and> set (map rs_service new) = set (map svc_name services)
      \<and> distinct (map rs_service new) \<and> sorted (map rs_score new)"
  proof (cases "services = []")
    case True
    then show ?thesis by (simp add: new_def compute_reliability_def)
  next
    case False
    have "scorable n ps days (rl_check_interval_seconds cfg) now" if e: "(n, ps) \<in> set ?series" for n ps
    proof -
      from reading_series_entry [OF e] obtain s where s: "s \<in> set services" "n = svc_name s"
        and ps: "ps = points_of n (readings_query (now - int days * 86400000000) (map svc_name services) checks)" by auto
      show ?thesis unfolding ps by (rule scorable_reading) (use s names window past dense in auto)
    qed
    from score_services_rows [OF reading_series_wf this] show ?thesis
      using compute_reliability_series [OF False] window reading_series_keys by (simp add: new_def)
  qed
  then have "record_reliability_snapshot services cfg checks now table = Inr (length new, table @ map (Pair now) new)"
    using on by (simp add: record_reliability_snapshot_def Let_def new_def)
  with rows show ?thesis by blast
qed

text \<open>One declared service with one recorded check, and the daily job over it.\<close>

definition one_service :: "service_entry list" where
  "one_service = [ex_http_entry]"

definition weekly_config :: reliability_config where
  "weekly_config = \<lparr>rl_enabled = True, rl_window_days = 7, rl_bands = (95, 85, 60),
     rl_check_interval_seconds = 300, rl_mute_services = []\<rparr>"

theorem snapshot_rows_typed_witness:
  "\<exists>new. record_reliability_snapshot one_service weekly_config
       [\<lparr>hr_service_name = ''api'', hr_status = ''degraded'', hr_checked_at = 50\<rparr>] 100 []
       = Inr (length new, map (Pair 100) new)
     \<and> list_all reliability_row_ok new \<and> set (map rs_service new) = {''api''}"
proof -
  have "py_trunc (of_int (int 7 * 86400) / of_int (max 1 (rl_check_interval_seconds weekly_config))) = 2016"
    by (simp add: weekly_config_def py_trunc_def)
  moreover have "py_len ''api'' \<le> 100" by (simp add: py_len_def)
  ultimately show ?thesis
    using snapshot_rows_typed [of weekly_config 7 one_service
        "[\<lparr>hr_service_name = ''api'', hr_status = ''degraded'', hr_checked_at = 50\<rparr>]" 100 "[]"]
    by (auto simp: one_service_def ex_http_entry_def weekly_config_def)
qed

end
