(* ===== verification/Dnd.thy ===== *)
theory Dnd
  imports Sys_Prelude
begin

text \<open>
  Do Not Disturb (\<open>monitor/dnd.py\<close>): the windows of the schedule, the manual override, and whether
  a notification of a severity is held back. A time of day is its microseconds since midnight.
\<close>

section \<open>Reading a time\<close>

text \<open>
  \<open>int(s)\<close> for a text: blanks around it, a sign, and digits that single underscores may group;
  anything else is a \<open>ValueError\<close>. Digits beyond ASCII are not modelled.
\<close>

definition digit_value :: "char \<Rightarrow> nat" where
  "digit_value c = of_char c - 48"

definition is_ascii_digit :: "char \<Rightarrow> bool" where
  "is_ascii_digit c \<longleftrightarrow> 48 \<le> (of_char c :: nat) \<and> (of_char c :: nat) \<le> 57"

definition strip_blanks :: "string \<Rightarrow> string" where
  "strip_blanks s = rev (dropWhile is_space (rev (dropWhile is_space s)))"

definition digits_value :: "string \<Rightarrow> nat" where
  "digits_value ds = foldl (\<lambda>n c. 10 * n + digit_value c) 0 ds"

definition unsigned_int :: "string \<Rightarrow> nat option" where
  "unsigned_int s =
     (if list_all (\<lambda>w. w \<noteq> [] \<and> list_all is_ascii_digit w) (split_on (CHR ''_'') s)
      then Some (digits_value (filter is_ascii_digit s)) else None)"

definition py_int :: "string \<Rightarrow> py_error + int" where
  "py_int s =
     (case (case strip_blanks s of
              [] \<Rightarrow> None
            | c # cs \<Rightarrow> if c = CHR ''-'' then map_option (\<lambda>n. - int n) (unsigned_int cs)
                        else if c = CHR ''+'' then map_option int (unsigned_int cs)
                        else map_option int (unsigned_int (c # cs))) of
        None \<Rightarrow> Inl (OtherError ''ValueError'')
      | Some n \<Rightarrow> Inr n)"

text \<open>\<open>time(hour, minute)\<close>, which refuses what is not on the clock.\<close>

definition time_of_day :: "int \<Rightarrow> int \<Rightarrow> py_error + int" where
  "time_of_day hour minute =
     (if 0 \<le> hour \<and> hour < 24 \<and> 0 \<le> minute \<and> minute < 60
      then Inr ((hour * 60 + minute) * 60000000) else Inl (OtherError ''ValueError''))"

definition parse_time :: "string \<Rightarrow> py_error + int" where
  "parse_time hhmm =
     (case split_on (CHR '':'') (strip_blanks hhmm) of
        h # m # _ \<Rightarrow>
          (case py_int h of
             Inl x \<Rightarrow> Inl x
           | Inr hour \<Rightarrow> (case py_int m of Inl x \<Rightarrow> Inl x | Inr minute \<Rightarrow> time_of_day hour minute))
      | [h] \<Rightarrow> (case py_int h of Inl x \<Rightarrow> Inl x | Inr _ \<Rightarrow> Inl (OtherError ''IndexError''))
      | [] \<Rightarrow> Inl (OtherError ''IndexError''))"

section \<open>The manager\<close>

definition in_window :: "int \<Rightarrow> int \<Rightarrow> int \<Rightarrow> bool" where
  "in_window now_time start end_time =
     (if start \<le> end_time then start \<le> now_time \<and> now_time \<le> end_time
      else start \<le> now_time \<or> now_time \<le> end_time)"

record dnd_config =
  dnd_enabled :: bool
  dnd_schedule :: "(string \<times> string) list"
  dnd_allow_critical :: bool

record dnd_manager =
  manual_override :: "bool option"

definition set_manual_override :: "bool option \<Rightarrow> dnd_manager \<Rightarrow> dnd_manager" where
  "set_manual_override enabled m = m\<lparr>manual_override := enabled\<rparr>"

fun any_window :: "int \<Rightarrow> (string \<times> string) list \<Rightarrow> py_error + bool" where
  "any_window now_time [] = Inr False"
| "any_window now_time ((s, e) # ws) =
     (case parse_time s of
        Inl x \<Rightarrow> Inl x
      | Inr start \<Rightarrow>
          (case parse_time e of
             Inl x \<Rightarrow> Inl x
           | Inr end_time \<Rightarrow> if in_window now_time start end_time then Inr True else any_window now_time ws))"

definition is_active :: "dnd_config \<Rightarrow> dnd_manager \<Rightarrow> int \<Rightarrow> py_error + bool" where
  "is_active cfg m now_time =
     (case manual_override m of
        Some b \<Rightarrow> Inr b
      | None \<Rightarrow>
          (case any_window now_time (dnd_schedule cfg) of
             Inl x \<Rightarrow> Inl x
           | Inr True \<Rightarrow> Inr True
           | Inr False \<Rightarrow> Inr (dnd_enabled cfg)))"

definition should_suppress :: "dnd_config \<Rightarrow> dnd_manager \<Rightarrow> string \<Rightarrow> int \<Rightarrow> py_error + bool" where
  "should_suppress cfg m severity now_time =
     (case is_active cfg m now_time of
        Inl x \<Rightarrow> Inl x
      | Inr False \<Rightarrow> Inr False
      | Inr True \<Rightarrow> if severity = ''critical'' \<and> dnd_allow_critical cfg then Inr False else Inr True)"

definition get_status :: "dnd_config \<Rightarrow> dnd_manager \<Rightarrow> int \<Rightarrow> py_error + jobj" where
  "get_status cfg m now_time =
     (case is_active cfg m now_time of
        Inl x \<Rightarrow> Inl x
      | Inr active \<Rightarrow> Inr
          [(''active'', JBool active), (''manual_override'', jopt JBool (manual_override m)),
           (''config_enabled'', JBool (dnd_enabled cfg)), (''allow_critical'', JBool (dnd_allow_critical cfg)),
           (''schedule'', JArr (map (\<lambda>(s, e). JObj [(''start'', JStr s), (''end'', JStr e)]) (dnd_schedule cfg)))])"

section \<open>The time written as \<open>HH:MM\<close>\<close>

definition two_digits :: "nat \<Rightarrow> string" where
  "two_digits n = [char_of (48 + n div 10), char_of (48 + n mod 10)]"

definition hhmm :: "nat \<Rightarrow> nat \<Rightarrow> string" where
  "hhmm h m = two_digits h @ '':'' @ two_digits m"

lemma digit_char:
  fixes d :: nat
  assumes "d < 10"
  shows "is_ascii_digit (char_of (48 + d))" "digit_value (char_of (48 + d)) = d"
    "char_of (48 + d) \<noteq> CHR '':''" "char_of (48 + d) \<noteq> CHR ''_''" "char_of (48 + d) \<noteq> CHR ''-''"
    "char_of (48 + d) \<noteq> CHR ''+''" "\<not> is_space (char_of (48 + d))"
proof -
  have "d = 0 \<or> d = 1 \<or> d = 2 \<or> d = 3 \<or> d = 4 \<or> d = 5 \<or> d = 6 \<or> d = 7 \<or> d = 8 \<or> d = 9" using assms by presburger
  then show "is_ascii_digit (char_of (48 + d))" "digit_value (char_of (48 + d)) = d"
    "char_of (48 + d) \<noteq> CHR '':''" "char_of (48 + d) \<noteq> CHR ''_''" "char_of (48 + d) \<noteq> CHR ''-''"
    "char_of (48 + d) \<noteq> CHR ''+''" "\<not> is_space (char_of (48 + d))"
    by (elim disjE; simp add: is_ascii_digit_def digit_value_def is_space_def; code_simp)+
qed

lemma strip_blanks_id: "list_all (\<lambda>c. \<not> is_space c) s \<Longrightarrow> strip_blanks s = s"
proof -
  assume s: "list_all (\<lambda>c. \<not> is_space c) s"
  have id: "dropWhile is_space xs = xs" if "list_all (\<lambda>c. \<not> is_space c) xs" for xs
    using that by (cases xs) auto
  from s have "list_all (\<lambda>c. \<not> is_space c) (rev s)" by simp
  then show ?thesis by (simp add: strip_blanks_def id s)
qed

lemma py_int_two_digits: "n < 60 \<Longrightarrow> py_int (two_digits n) = Inr (int n)"
proof -
  assume "n < 60"
  then have d: "n div 10 < 10" "n mod 10 < 10" by auto
  have "strip_blanks (two_digits n) = two_digits n"
    by (rule strip_blanks_id) (simp add: two_digits_def digit_char(7) [OF d(1)] digit_char(7) [OF d(2)])
  then show ?thesis
    by (simp add: py_int_def unsigned_int_def two_digits_def digits_value_def digit_char [OF d(1)] digit_char [OF d(2)])
qed

text \<open>The microsecond of the day a clock time stands for.\<close>

definition clock :: "nat \<times> nat \<Rightarrow> int" where
  "clock hm = (int (fst hm) * 60 + int (snd hm)) * 60000000"

lemma parse_time_hhmm: "h < 24 \<Longrightarrow> m < 60 \<Longrightarrow> parse_time (hhmm h m) = Inr (clock (h, m))"
proof -
  assume hm: "h < 24" "m < 60"
  then have d: "h div 10 < 10" "h mod 10 < 10" "m div 10 < 10" "m mod 10 < 10" by auto
  note ds = digit_char [OF d(1)] digit_char [OF d(2)] digit_char [OF d(3)] digit_char [OF d(4)]
  have "\<not> is_space (CHR '':'')" by code_simp
  then have "strip_blanks (hhmm h m) = hhmm h m"
    by (intro strip_blanks_id) (simp add: hhmm_def two_digits_def ds)
  moreover have "split_on (CHR '':'') (hhmm h m) = [two_digits h, two_digits m]"
    by (simp add: hhmm_def two_digits_def ds)
  ultimately show ?thesis
    using hm by (simp add: parse_time_def py_int_two_digits time_of_day_def clock_def)
qed

text \<open>A window seen on the dial: how far past its start the moment is, against how long it lasts.\<close>

definition day_us :: int where
  "day_us = 86400000000"

lemma in_window_dial:
  assumes "0 \<le> t" "t < day_us" "0 \<le> s" "s < day_us" "0 \<le> e" "e < day_us"
  shows "in_window t s e \<longleftrightarrow> (t - s) mod day_us \<le> (e - s) mod day_us"
proof -
  have wrap: "x mod day_us = (if 0 \<le> x then x else x + day_us)" if "- day_us < x" "x < day_us" for x
  proof (cases "0 \<le> x")
    case False
    have "x mod day_us = (x + day_us) mod day_us" by simp
    also have "\<dots> = x + day_us" using that False by (intro mod_pos_pos_trivial) auto
    finally show ?thesis using False by simp
  qed (use that in simp)
  show ?thesis using assms by (auto simp: in_window_def wrap)
qed

section \<open>The schedule\<close>

abbreviation clock_time :: "nat \<times> nat \<Rightarrow> bool" where
  "clock_time hm \<equiv> fst hm < 24 \<and> snd hm < 60"

definition written :: "(nat \<times> nat) \<times> (nat \<times> nat) \<Rightarrow> string \<times> string" where
  "written w = (hhmm (fst (fst w)) (snd (fst w)), hhmm (fst (snd w)) (snd (snd w)))"

definition on_dial :: "int \<Rightarrow> (nat \<times> nat) \<times> (nat \<times> nat) \<Rightarrow> bool" where
  "on_dial t w \<longleftrightarrow> (t - clock (fst w)) mod day_us \<le> (clock (snd w) - clock (fst w)) mod day_us"

lemma clock_range: "clock_time hm \<Longrightarrow> 0 \<le> clock hm \<and> clock hm < day_us"
  by (auto simp: clock_def day_us_def)

lemma any_window_written:
  assumes "0 \<le> t" "t < day_us" "\<forall>w \<in> set ws. clock_time (fst w) \<and> clock_time (snd w)"
  shows "any_window t (map written ws) = Inr (list_ex (on_dial t) ws)"
  using assms(3)
proof (induction ws)
  case (Cons w ws)
  then have w: "clock_time (fst w)" "clock_time (snd w)" by auto
  have "in_window t (clock (fst w)) (clock (snd w)) \<longleftrightarrow> on_dial t w"
    unfolding on_dial_def using clock_range [OF w(1)] clock_range [OF w(2)] assms(1,2)
    by (intro in_window_dial) auto
  with Cons w show ?case
    by (auto simp: written_def parse_time_hhmm)
qed simp

text \<open>
  C38: The schedule means what is written in it. A time written as \<open>HH:MM\<close> is read back as that
  time of the day; and with no manual override a notification is held back exactly when Do Not
  Disturb is on by default or the moment lies, on the dial of the clock and so across midnight
  too, in one of the windows, unless it is critical and those may break through. An override
  decides alone.
\<close>

theorem schedule_as_written:
  assumes now: "0 \<le> t" "t < day_us"
    and windows: "\<forall>w \<in> set ws. clock_time (fst w) \<and> clock_time (snd w)"
    and cfg: "dnd_schedule cfg = map written ws"
  shows "(\<forall>w \<in> set ws. parse_time (fst (written w)) = Inr (clock (fst w))
            \<and> parse_time (snd (written w)) = Inr (clock (snd w)))
    \<and> should_suppress cfg \<lparr>manual_override = over\<rparr> severity t =
        Inr ((case over of Some b \<Rightarrow> b | None \<Rightarrow> list_ex (on_dial t) ws \<or> dnd_enabled cfg)
             \<and> \<not> (severity = ''critical'' \<and> dnd_allow_critical cfg))"
proof -
  have "\<forall>w \<in> set ws. parse_time (fst (written w)) = Inr (clock (fst w))
      \<and> parse_time (snd (written w)) = Inr (clock (snd w))"
    using windows by (simp add: written_def parse_time_hhmm)
  moreover have "is_active cfg \<lparr>manual_override = over\<rparr> t =
      Inr (case over of Some b \<Rightarrow> b | None \<Rightarrow> list_ex (on_dial t) ws \<or> dnd_enabled cfg)"
    using any_window_written [OF now windows] by (simp add: is_active_def cfg split: option.split bool.split)
  ultimately show ?thesis by (auto simp: should_suppress_def split: bool.splits)
qed

text \<open>Half past two in the night, in the window from 23:00 to 07:00.\<close>

theorem schedule_as_written_witness:
  "should_suppress \<lparr>dnd_enabled = False, dnd_schedule = [(''23:00'', ''07:00'')], dnd_allow_critical = True\<rparr>
     \<lparr>manual_override = None\<rparr> ''warning'' 9000000000 = Inr True
   \<and> should_suppress \<lparr>dnd_enabled = False, dnd_schedule = [(''23:00'', ''07:00'')], dnd_allow_critical = True\<rparr>
     \<lparr>manual_override = None\<rparr> ''critical'' 9000000000 = Inr False"
proof -
  have w: "map written [((23, 0), (7, 0))] = [(''23:00'', ''07:00'')]" by code_simp
  have d: "list_ex (on_dial 9000000000) [((23, 0), (7, 0))]" by (simp add: on_dial_def clock_def day_us_def)
  show ?thesis
    using d schedule_as_written [of 9000000000 "[((23, 0), (7, 0))]"
        "\<lparr>dnd_enabled = False, dnd_schedule = [(''23:00'', ''07:00'')], dnd_allow_critical = True\<rparr>" None]
    unfolding w by (simp add: day_us_def)
qed

text \<open>One window that is no time makes every question raise, for critical alerts too.\<close>

lemma malformed_window_raises:
  assumes "dnd_schedule cfg = (s, e) # ws" "parse_time s = Inl x"
  shows "should_suppress cfg \<lparr>manual_override = None\<rparr> severity t = Inl x"
  using assms by (simp add: should_suppress_def is_active_def)

end
