(* ===== verification/Desktop.thy ===== *)
theory Desktop
  imports Alerts Dnd
begin

text \<open>
  The daemon's own desktop notifications (\<open>monitor/desktop.py\<close>, the table of
  \<open>monitor/models/desktop_notification.py\<close>): the understudy that speaks when the tray is not
  watching. It announces an alert that opens a new incident, restates what stays open, adopts a
  few faults nobody announced, and says when a fault it spoke about has recovered.

  A clock reading is a number of seconds (\<open>time.time()\<close>, \<open>time.monotonic()\<close>); a column holds it
  rounded to the microsecond.
\<close>

section \<open>Presence of the tray\<close>

record tray_presence =
  tp_last_seen :: "rat option"
  tp_started_at :: rat

definition mark_seen :: "rat \<Rightarrow> tray_presence \<Rightarrow> tray_presence" where
  "mark_seen tick p = p\<lparr>tp_last_seen := Some tick\<rparr>"

definition seconds_since_seen :: "rat \<Rightarrow> tray_presence \<Rightarrow> rat option" where
  "seconds_since_seen tick p = map_option (\<lambda>t. tick - t) (tp_last_seen p)"

definition is_watching :: "rat \<Rightarrow> tray_presence \<Rightarrow> rat \<Rightarrow> bool" where
  "is_watching tick p grace =
     (case seconds_since_seen tick p of None \<Rightarrow> False | Some elapsed \<Rightarrow> elapsed \<le> grace)"

definition absent_for :: "rat \<Rightarrow> tray_presence \<Rightarrow> rat" where
  "absent_for tick p =
     (case seconds_since_seen tick p of Some elapsed \<Rightarrow> elapsed | None \<Rightarrow> tick - tp_started_at p)"

section \<open>Sending\<close>

definition SEVERITY_LEVELS :: "(string, int) dict" where
  "SEVERITY_LEVELS = [(''info'', 0), (''warning'', 1), (''critical'', 2)]"

definition URGENCY :: "(string, string) dict" where
  "URGENCY = [(''info'', ''low''), (''warning'', ''normal''), (''critical'', ''critical'')]"

definition TIMEOUT_MS :: "(string, int) dict" where
  "TIMEOUT_MS = [(''info'', 5000), (''warning'', 10000), (''critical'', 0)]"

definition APP_NAME :: string where "APP_NAME = ''SysAdmin Monitor''"

definition ROLLUP_THRESHOLD :: nat where "ROLLUP_THRESHOLD = 2"

definition MAX_LISTED_TITLES :: nat where "MAX_LISTED_TITLES = 5"

definition RECOVERY_RUNG :: string where "RECOVERY_RUNG = ''warning''"

definition MAX_ADOPTED_TITLES :: nat where "MAX_ADOPTED_TITLES = MAX_LISTED_TITLES"

definition level_of :: "string \<Rightarrow> int" where
  "level_of severity = dict_get_or SEVERITY_LEVELS severity 0"

definition threshold_of :: "string \<Rightarrow> int" where
  "threshold_of min_severity = dict_get_or SEVERITY_LEVELS min_severity 1"

text \<open>\<open>max(severities, key=..., default="info")\<close>: the first of the loudest.\<close>

fun loudest :: "string list \<Rightarrow> string" where
  "loudest [] = ''info''"
| "loudest [s] = s"
| "loudest (s # t # ss) = loudest ((if level_of t \<le> level_of s then s else t) # ss)"

text \<open>
  What sending finds: \<open>notify-send\<close>, the address of the session bus, and how the command ends
  (an exception, or an exit code).
\<close>

record send_env =
  se_binary :: "string option"
  se_dbus_env :: "string option"
  se_uid :: int
  se_socket_exists :: bool
  se_run :: "string list \<Rightarrow> string \<Rightarrow> py_error + int"

definition session_bus_address :: "send_env \<Rightarrow> string option" where
  "session_bus_address se =
     (if given (se_dbus_env se) then se_dbus_env se
      else if se_socket_exists se then Some (''unix:path=/run/user/'' @ show_int (se_uid se) @ ''/bus'') else None)"

definition notify_argv :: "string \<Rightarrow> string \<Rightarrow> string \<Rightarrow> string \<Rightarrow> string list" where
  "notify_argv binary severity title body =
     [binary, ''--app-name'', APP_NAME, ''--urgency'', dict_get_or URGENCY severity ''normal'',
      ''--expire-time'', show_int (dict_get_or TIMEOUT_MS severity 5000), ''--'', title, body]"

definition send_blocking :: "send_env \<Rightarrow> string \<Rightarrow> string \<Rightarrow> string \<Rightarrow> bool" where
  "send_blocking se severity title body =
     (case se_binary se of
        None \<Rightarrow> False
      | Some binary \<Rightarrow>
          (case session_bus_address se of
             None \<Rightarrow> False
           | Some address \<Rightarrow>
               (case se_run se (notify_argv binary severity title body) address of
                  Inl _ \<Rightarrow> False
                | Inr code \<Rightarrow> code = 0)))"

section \<open>What has been spoken\<close>

record spoken_fault =
  sf_title :: string
  sf_severity :: string
  sf_episode_started_at :: rat
  sf_last_spoken_at :: rat
  sf_reminders_sent :: nat
  sf_adopted :: bool

definition mark_spoken :: "rat \<Rightarrow> spoken_fault \<Rightarrow> spoken_fault" where
  "mark_spoken now f = f\<lparr>sf_last_spoken_at := now, sf_reminders_sent := Suc (sf_reminders_sent f)\<rparr>"

record desktop_notification =
  dr_title :: string
  dr_severity :: string
  dr_episode_started_at :: instant
  dr_last_spoken_at :: instant
  dr_reminders_sent :: nat
  dr_adopted :: bool

text \<open>\<open>datetime.fromtimestamp(t, UTC)\<close> and \<open>.timestamp()\<close>.\<close>

definition from_timestamp :: "rat \<Rightarrow> instant" where
  "from_timestamp t = py_round (t * 1000000)"

definition to_timestamp :: "instant \<Rightarrow> rat" where
  "to_timestamp i = of_int i / 1000000"

definition row_of :: "spoken_fault \<Rightarrow> desktop_notification" where
  "row_of f = \<lparr>dr_title = sf_title f, dr_severity = sf_severity f,
     dr_episode_started_at = from_timestamp (sf_episode_started_at f),
     dr_last_spoken_at = from_timestamp (sf_last_spoken_at f),
     dr_reminders_sent = sf_reminders_sent f, dr_adopted = sf_adopted f\<rparr>"

definition fault_of :: "desktop_notification \<Rightarrow> spoken_fault" where
  "fault_of r = \<lparr>sf_title = dr_title r, sf_severity = dr_severity r,
     sf_episode_started_at = to_timestamp (dr_episode_started_at r),
     sf_last_spoken_at = to_timestamp (dr_last_spoken_at r),
     sf_reminders_sent = dr_reminders_sent r, sf_adopted = dr_adopted r\<rparr>"

text \<open>
  The notifier with the table it keeps its memory in, the latter under its unique column, and the
  notifications that went out: severity, title and body.
\<close>

record desk =
  dk_spoken :: "(string, spoken_fault) dict"
  dk_loaded :: bool
  dk_looked_at :: rat
  dk_table :: "(string, desktop_notification) dict"
  dk_sent :: "(string \<times> string \<times> string) list"

text \<open>A process starts with an empty memory; the table stays.\<close>

definition restart_desk :: "rat \<Rightarrow> desk \<Rightarrow> desk" where
  "restart_desk now d = d\<lparr>dk_spoken := [], dk_loaded := False, dk_looked_at := now\<rparr>"

text \<open>
  What a call meets: the clocks, the tray, the configuration, Do Not Disturb, the alerts table,
  how sending goes, and which of the database calls fail.
\<close>

record desktop_config =
  dc_enabled :: bool
  dc_min_severity :: string
  dc_tray_grace_seconds :: rat
  dc_reminder_hours :: rat

record desk_env =
  de_now :: rat
  de_mono :: rat
  de_presence :: tray_presence
  de_config :: desktop_config
  de_suppress :: "string \<Rightarrow> py_error + bool"
  de_alerts :: "alert list"
  de_send :: "string \<Rightarrow> string \<Rightarrow> string \<Rightarrow> bool"
  de_db_incident :: bool
  de_db_load :: bool
  de_db_open :: bool
  de_db_forget :: bool
  de_db_closed :: bool
  de_db_adopt :: bool
  de_db_remember_adopted :: bool
  de_db_remember :: bool

definition send :: "desk_env \<Rightarrow> string \<Rightarrow> string \<Rightarrow> string \<Rightarrow> desk \<Rightarrow> bool \<times> desk" where
  "send env severity title body d =
     (if de_send env severity title body then (True, d\<lparr>dk_sent := dk_sent d @ [(severity, title, body)]\<rparr>)
      else (False, d))"

definition remember :: "bool \<Rightarrow> spoken_fault list \<Rightarrow> desk \<Rightarrow> desk" where
  "remember db_ok faults d =
     (if faults = [] \<or> \<not> db_ok then d
      else d\<lparr>dk_table := fold (\<lambda>f. dict_set (sf_title f) (row_of f)) faults (dk_table d)\<rparr>)"

definition forget :: "bool \<Rightarrow> string list \<Rightarrow> desk \<Rightarrow> desk" where
  "forget db_ok titles d =
     (if titles = [] \<or> \<not> db_ok then d else d\<lparr>dk_table := fold dict_del titles (dk_table d)\<rparr>)"

definition load_spoken :: "desk_env \<Rightarrow> desk \<Rightarrow> bool \<times> desk" where
  "load_spoken env d =
     (if dk_loaded d then (True, d)
      else if \<not> de_db_load env then (False, d)
      else (True, d\<lparr>dk_spoken := fold (\<lambda>(t, r) spoken. case dict_get spoken t of
                        Some _ \<Rightarrow> spoken | None \<Rightarrow> dict_set t (fault_of r) spoken) (dk_table d) (dk_spoken d),
                   dk_loaded := True\<rparr>))"

section \<open>An alert is raised\<close>

record raised_event =
  ra_agent :: "string option"
  ra_severity :: "string option"
  ra_title :: "string option"

definition middle_dot :: string where
  "middle_dot = [char_of (0xC2 :: nat), char_of (0xB7 :: nat)]"

text \<open>A database that cannot answer counts as an incident already under way.\<close>

definition is_new_incident :: "desk_env \<Rightarrow> string \<Rightarrow> bool" where
  "is_new_incident env title \<longleftrightarrow>
     de_db_incident env \<and> length (filter (\<lambda>a. al_title a = title \<and> unresolved a) (de_alerts env)) \<le> 1"

definition handle_raised :: "desk_env \<Rightarrow> raised_event \<Rightarrow> desk \<Rightarrow> (py_error + unit) \<times> desk" where
  "handle_raised env ev d =
     (let config = de_config env;
          severity = (case ra_severity ev of Some s \<Rightarrow> s | None \<Rightarrow> ''info'')
      in if \<not> dc_enabled config then (Inr (), d)
         else if level_of severity < threshold_of (dc_min_severity config) then (Inr (), d)
         else case de_suppress env severity of
           Inl x \<Rightarrow> (Inl x, d)
         | Inr True \<Rightarrow> (Inr (), d)
         | Inr False \<Rightarrow>
             if is_watching (de_mono env) (de_presence env) (dc_tray_grace_seconds config) then (Inr (), d)
             else let title = (case ra_title ev of Some t \<Rightarrow> if t = [] then ''SysAdmin alert'' else t
                                                | None \<Rightarrow> ''SysAdmin alert'')
               in if \<not> is_new_incident env title then (Inr (), d)
                  else (case send env severity title
                          ((case ra_agent ev of Some a \<Rightarrow> a | None \<Rightarrow> ''sysadmin'') @ '' '' @ middle_dot @ '' '' @ severity) d of
                     (False, d') \<Rightarrow> (Inr (), d')
                   | (True, d') \<Rightarrow>
                       let fault = \<lparr>sf_title = title, sf_severity = severity, sf_episode_started_at = de_now env,
                             sf_last_spoken_at = de_now env, sf_reminders_sent = 0, sf_adopted = False\<rparr>
                       in (Inr (), remember (de_db_remember env) [fault]
                             (d'\<lparr>dk_spoken := dict_set title fault (dk_spoken d')\<rparr>))))"

text \<open>The subscription swallows whatever is raised.\<close>

definition on_alert_raised :: "desk_env \<Rightarrow> raised_event \<Rightarrow> desk \<Rightarrow> desk" where
  "on_alert_raised env ev d = snd (handle_raised env ev d)"

section \<open>The sweep\<close>

text \<open>\<open>_still_open\<close>: the loudest open rung of each title that is still open.\<close>

definition open_rung :: "alert \<Rightarrow> (string, string) dict \<Rightarrow> (string, string) dict" where
  "open_rung a current =
     dict_set (al_title a)
       (loudest (case dict_get current (al_title a) of Some s \<Rightarrow> [al_severity a, s] | None \<Rightarrow> [al_severity a]))
       current"

definition still_open :: "desk_env \<Rightarrow> string list \<Rightarrow> (string, string) dict option" where
  "still_open env titles =
     (if de_db_open env
      then Some (fold open_rung (filter (\<lambda>a. al_title a \<in> set titles \<and> unresolved a) (de_alerts env)) [])
      else None)"

text \<open>A comprehension whose last condition asks Do Not Disturb, in order; what that raises ends it.\<close>

fun audible_faults :: "(string \<Rightarrow> py_error + bool) \<Rightarrow> spoken_fault list \<Rightarrow> py_error + spoken_fault list" where
  "audible_faults suppress [] = Inr []"
| "audible_faults suppress (f # fs) =
     (case suppress (sf_severity f) of
        Inl x \<Rightarrow> Inl x
      | Inr s \<Rightarrow> (case audible_faults suppress fs of
                     Inl x \<Rightarrow> Inl x
                   | Inr gs \<Rightarrow> Inr (if s then gs else f # gs)))"

definition listed :: "spoken_fault list \<Rightarrow> string" where
  "listed fs = py_join newline
     (map (\<lambda>f. bullet @ '' '' @ sf_title f) (take MAX_LISTED_TITLES fs) @
      (if MAX_LISTED_TITLES < length fs
       then [ellipsis @ ''and '' @ show_nat (length fs - MAX_LISTED_TITLES) @ '' more''] else []))"

definition age_since :: "rat \<Rightarrow> spoken_fault \<Rightarrow> string" where
  "age_since now f = humanise_hours (max 0 (now - sf_episode_started_at f) / 3600)"

definition closed_since :: "desk_env \<Rightarrow> string list \<Rightarrow> rat \<Rightarrow> string list" where
  "closed_since env titles since =
     (if de_db_closed env
      then remdups (map al_title (filter (\<lambda>a. al_title a \<in> set titles
             \<and> (case al_resolved_at a of None \<Rightarrow> False | Some t \<Rightarrow> from_timestamp since \<le> t)) (de_alerts env)))
      else [])"

definition recovery_text :: "rat \<Rightarrow> spoken_fault list \<Rightarrow> string \<times> string" where
  "recovery_text now recovered =
     (if ROLLUP_THRESHOLD \<le> length recovered
      then (show_nat (length recovered) @ '' faults recovered'', listed recovered)
      else (''Recovered: '' @ sf_title (hd recovered),
            ''Cleared within '' @ age_since now (hd recovered) @ '' of the first alert''))"

definition announce_recoveries :: "desk_env \<Rightarrow> spoken_fault list \<Rightarrow> rat \<Rightarrow> desk \<Rightarrow> (py_error + nat) \<times> desk" where
  "announce_recoveries env cleared since d =
     (case audible_faults (de_suppress env)
             (filter (\<lambda>f. (\<not> sf_adopted f \<or> 0 < sf_reminders_sent f)
                \<and> threshold_of (dc_min_severity (de_config env)) \<le> level_of (sf_severity f))
                (sort_key sf_title cleared)) of
        Inl x \<Rightarrow> (Inl x, d)
      | Inr candidates \<Rightarrow>
          if candidates = [] then (Inr 0, d)
          else
            let fresh = closed_since env (map sf_title candidates) since;
                recovered = filter (\<lambda>f. sf_title f \<in> set fresh) candidates
            in if recovered = [] then (Inr 0, d)
               else (case recovery_text (de_now env) recovered of (title, body) \<Rightarrow>
                 (case send env RECOVERY_RUNG title body d of
                    (False, d') \<Rightarrow> (Inr 0, d')
                  | (True, d') \<Rightarrow> (Inr (length recovered), d'))))"

text \<open>
  \<open>_adopt\<close>: the oldest open titles nobody has spoken for, up to the room that is left. Alerts
  opened at the same moment come in the order of the table.
\<close>

record candidate =
  cd_title :: string
  cd_opened :: instant
  cd_rungs :: "string list"

definition adoptable :: "int \<Rightarrow> (string, spoken_fault) dict \<Rightarrow> alert list \<Rightarrow> alert list" where
  "adoptable threshold spoken table =
     filter (\<lambda>a. unresolved a
        \<and> al_severity a \<in> set (map fst (filter (\<lambda>(_, level). threshold \<le> level) SEVERITY_LEVELS))
        \<and> dict_get spoken (al_title a) = None) table"

definition candidates_of :: "alert list \<Rightarrow> candidate list" where
  "candidates_of table =
     map (\<lambda>t. let mine = filter (\<lambda>a. al_title a = t) table
              in \<lparr>cd_title = t, cd_opened = Min (set (map al_created_at mine)),
                  cd_rungs = remdups (map al_severity mine)\<rparr>)
       (remdups (map al_title table))"

definition adopted_fault :: "rat \<Rightarrow> rat \<Rightarrow> candidate \<Rightarrow> spoken_fault" where
  "adopted_fault now silence c =
     \<lparr>sf_title = cd_title c, sf_severity = loudest (cd_rungs c), sf_episode_started_at = to_timestamp (cd_opened c),
      sf_last_spoken_at = now - silence, sf_reminders_sent = 0, sf_adopted = True\<rparr>"

definition adopted_count :: "(string, spoken_fault) dict \<Rightarrow> nat" where
  "adopted_count spoken = length (filter (\<lambda>(_, f). sf_adopted f) spoken)"

definition adopt :: "desk_env \<Rightarrow> int \<Rightarrow> rat \<Rightarrow> desk \<Rightarrow> desk" where
  "adopt env threshold interval d =
     (if MAX_ADOPTED_TITLES \<le> adopted_count (dk_spoken d) \<or> \<not> de_db_adopt env then d
      else
        let room = MAX_ADOPTED_TITLES - adopted_count (dk_spoken d);
            candidates = take room (sort_key cd_opened
              (candidates_of (adoptable threshold (dk_spoken d) (de_alerts env))));
            silence = min (absent_for (de_mono env) (de_presence env)) interval;
            fresh = map (adopted_fault (de_now env) silence) candidates
        in remember (de_db_remember_adopted env) fresh
             (d\<lparr>dk_spoken := fold (\<lambda>f. dict_set (sf_title f) f) fresh (dk_spoken d)\<rparr>))"

text \<open>\<open>_restate\<close>: one notification for all that is due; only a sent one counts.\<close>

definition reminder_text :: "rat \<Rightarrow> spoken_fault list \<Rightarrow> string \<times> string \<times> string" where
  "reminder_text now due =
     (if ROLLUP_THRESHOLD \<le> length due
      then (loudest (map sf_severity due), show_nat (length due) @ '' faults still open'', listed due)
      else (sf_severity (hd due), sf_title (hd due),
            ''Still open '' @ age_since now (hd due) @ '' after the first alert''))"

definition restate :: "desk_env \<Rightarrow> spoken_fault list \<Rightarrow> desk \<Rightarrow> nat \<times> desk" where
  "restate env due d =
     (case reminder_text (de_now env) due of (severity, title, body) \<Rightarrow>
        (case send env severity title body d of
           (False, d') \<Rightarrow> (0, d')
         | (True, d') \<Rightarrow>
             let said = map (mark_spoken (de_now env)) due
             in (length due, remember (de_db_remember env) said
                   (d'\<lparr>dk_spoken := fold (\<lambda>f. dict_set (sf_title f) f) said (dk_spoken d')\<rparr>))))"

definition is_due :: "desk_env \<Rightarrow> spoken_fault \<Rightarrow> bool" where
  "is_due env f \<longleftrightarrow> dc_reminder_hours (de_config env) * 3600 \<le> de_now env - sf_last_spoken_at f
     \<and> threshold_of (dc_min_severity (de_config env)) \<le> level_of (sf_severity f)"

definition remind :: "desk_env \<Rightarrow> desk \<Rightarrow> (py_error + nat) \<times> desk" where
  "remind env d =
     (case audible_faults (de_suppress env) (filter (is_due env) (map snd (sort_key fst (dk_spoken d)))) of
        Inl x \<Rightarrow> (Inl x, d)
      | Inr due \<Rightarrow> if due = [] then (Inr 0, d) else (case restate env due d of (n, d') \<Rightarrow> (Inr n, d')))"

text \<open>
  Dropping what is no longer open: from the memory, from the table, and with a word when it is
  worth one. The rungs of the rest follow their rows.
\<close>

definition drop_cleared :: "desk_env \<Rightarrow> (string, string) dict \<Rightarrow> desk \<Rightarrow> (py_error + unit) \<times> desk" where
  "drop_cleared env current d =
     (let cleared = map snd (filter (\<lambda>(t, _). dict_get current t = None) (dk_spoken d));
          d1 = forget (de_db_forget env) (map sf_title cleared)
                 (d\<lparr>dk_spoken := filter (\<lambda>(t, _). dict_get current t \<noteq> None) (dk_spoken d)\<rparr>)
      in case (if cleared = [] then (Inr 0, d1) else announce_recoveries env cleared (dk_looked_at d) d1) of
           (Inl x, d2) \<Rightarrow> (Inl x, d2)
         | (Inr _, d2) \<Rightarrow>
             (Inr (), d2\<lparr>dk_spoken := map (\<lambda>(t, f). (t, case dict_get current t of
                            Some rung \<Rightarrow> f\<lparr>sf_severity := rung\<rparr> | None \<Rightarrow> f)) (dk_spoken d2)\<rparr>))"

definition sweep_open :: "desk_env \<Rightarrow> bool \<Rightarrow> desk \<Rightarrow> (py_error + nat) \<times> desk" where
  "sweep_open env loaded d =
     (let d1 = d\<lparr>dk_looked_at := de_now env\<rparr>; interval = dc_reminder_hours (de_config env) * 3600
      in if interval \<le> 0 then (Inr 0, d1)
         else remind env (if loaded then adopt env (threshold_of (dc_min_severity (de_config env))) interval d1 else d1))"

definition sweep :: "desk_env \<Rightarrow> desk \<Rightarrow> (py_error + nat) \<times> desk" where
  "sweep env d =
     (if \<not> dc_enabled (de_config env) then (Inr 0, d\<lparr>dk_looked_at := de_now env\<rparr>)
      else case load_spoken env d of (loaded, d1) \<Rightarrow>
        if is_watching (de_mono env) (de_presence env) (dc_tray_grace_seconds (de_config env))
        then (Inr 0, d1\<lparr>dk_spoken := map (\<lambda>(t, f). (t, f\<lparr>sf_last_spoken_at := de_now env\<rparr>)) (dk_spoken d1),
                       dk_looked_at := de_now env\<rparr>)
        else if dk_spoken d1 = [] then sweep_open env loaded d1
        else case still_open env (map fst (dk_spoken d1)) of
          None \<Rightarrow> (Inr 0, d1)
        | Some current \<Rightarrow>
            (case drop_cleared env current d1 of
               (Inl x, d2) \<Rightarrow> (Inl x, d2)
             | (Inr _, d2) \<Rightarrow> sweep_open env loaded d2))"

definition sweep_reminders :: "desk_env \<Rightarrow> desk \<Rightarrow> nat \<times> desk" where
  "sweep_reminders env d = (case sweep env d of (Inl _, d') \<Rightarrow> (0, d') | (Inr n, d') \<Rightarrow> (n, d'))"

section \<open>What the notifier keeps true\<close>

definition adopted_titles :: "(string, spoken_fault) dict \<Rightarrow> string set" where
  "adopted_titles spoken = {t. \<exists>f. dict_get spoken t = Some f \<and> sf_adopted f}"

definition adopted_rows :: "(string, desktop_notification) dict \<Rightarrow> string set" where
  "adopted_rows table = {t. \<exists>r. dict_get table t = Some r \<and> dr_adopted r}"

text \<open>
  The memory and the table are dicts under the titles of what they hold, neither holds more than
  five adopted faults, and once the table has been read it holds nothing the memory does not.
\<close>

definition desk_inv :: "desk \<Rightarrow> bool" where
  "desk_inv d \<longleftrightarrow>
     dict_wf (dk_spoken d) \<and> dict_wf (dk_table d)
   \<and> (\<forall>t f. dict_get (dk_spoken d) t = Some f \<longrightarrow> sf_title f = t)
   \<and> (\<forall>t r. dict_get (dk_table d) t = Some r \<longrightarrow> dr_title r = t)
   \<and> card (adopted_titles (dk_spoken d)) \<le> MAX_ADOPTED_TITLES
   \<and> card (adopted_rows (dk_table d)) \<le> MAX_ADOPTED_TITLES
   \<and> (\<forall>t r f. dict_get (dk_table d) t = Some r \<longrightarrow> dict_get (dk_spoken d) t = Some f \<longrightarrow> sf_adopted f = dr_adopted r)
   \<and> (if dk_loaded d then \<forall>t. dict_get (dk_spoken d) t = None \<longrightarrow> dict_get (dk_table d) t = None
      else adopted_titles (dk_spoken d) = {})"

lemma desk_inv_cong:
  "dk_spoken d = dk_spoken e \<Longrightarrow> dk_table d = dk_table e \<Longrightarrow> dk_loaded d = dk_loaded e \<Longrightarrow> desk_inv d = desk_inv e"
  by (simp add: desk_inv_def)

lemma finite_keys [simp]: "finite {t. \<exists>f. dict_get m t = Some f \<and> P f}"
  by (rule finite_subset [of _ "fst ` set m"]) (force simp: dict_get_def dest: map_of_SomeD)+

lemma finite_adopted [simp]: "finite (adopted_titles spoken)" "finite (adopted_rows table)"
  by (simp_all add: adopted_titles_def adopted_rows_def)

lemma adopted_count_card: "dict_wf spoken \<Longrightarrow> adopted_count spoken = card (adopted_titles spoken)"
proof -
  assume wf: "dict_wf spoken"
  let ?A = "filter (\<lambda>(_, f). sf_adopted f) spoken"
  have "adopted_titles spoken = fst ` set ?A"
    using wf by (force simp: adopted_titles_def dict_get_def dict_wf_def dest: map_of_SomeD)
  moreover have "distinct (map fst ?A)"
    using wf by (simp add: dict_wf_def distinct_map_filter)
  ultimately show ?thesis
    unfolding adopted_count_def by (metis distinct_card length_map list.set_map)
qed

text \<open>Writing one fault to the memory and to the table.\<close>

definition store :: "spoken_fault \<Rightarrow> desk \<Rightarrow> desk" where
  "store f d = d\<lparr>dk_spoken := dict_set (sf_title f) f (dk_spoken d),
                 dk_table := dict_set (sf_title f) (row_of f) (dk_table d)\<rparr>"

lemma row_of_simps [simp]: "dr_adopted (row_of f) = sf_adopted f" "dr_title (row_of f) = sf_title f"
  by (simp_all add: row_of_def)

lemma fault_of_simps [simp]: "sf_adopted (fault_of r) = dr_adopted r" "sf_title (fault_of r) = dr_title r"
  by (simp_all add: fault_of_def)

lemma fold_store:
  "fold store fs d = d\<lparr>dk_spoken := fold (\<lambda>f. dict_set (sf_title f) f) fs (dk_spoken d),
     dk_table := fold (\<lambda>f. dict_set (sf_title f) (row_of f)) fs (dk_table d)\<rparr>"
  by (induction fs arbitrary: d) (simp_all add: store_def)

lemma remember_fold_store:
  "remember True fs (d\<lparr>dk_spoken := fold (\<lambda>f. dict_set (sf_title f) f) fs (dk_spoken d)\<rparr>) = fold store fs d"
  by (cases "fs = []") (simp_all add: remember_def fold_store)

lemma adopted_titles_set:
  "adopted_titles (dict_set t f spoken) =
     (if sf_adopted f then insert t (adopted_titles spoken) else adopted_titles spoken - {t})"
  by (auto simp: adopted_titles_def)

lemma adopted_rows_set:
  "adopted_rows (dict_set t r table) =
     (if dr_adopted r then insert t (adopted_rows table) else adopted_rows table - {t})"
  by (auto simp: adopted_rows_def)

lemma store_inv:
  assumes inv: "desk_inv d"
    and ok: "sf_adopted f \<longrightarrow> dk_loaded d \<and>
       (sf_title f \<in> adopted_titles (dk_spoken d) \<or> card (adopted_titles (dk_spoken d)) < MAX_ADOPTED_TITLES)"
  shows "desk_inv (store f d)"
proof -
  have mirror: "adopted_rows (dk_table d) \<subseteq> adopted_titles (dk_spoken d)" if "dk_loaded d"
    using inv that by (force simp: desk_inv_def adopted_titles_def adopted_rows_def)
  have mem: "card (adopted_titles (dk_spoken (store f d))) \<le> MAX_ADOPTED_TITLES"
    using inv ok card_Diff1_le [of "adopted_titles (dk_spoken d)" "sf_title f"]
    by (auto simp: store_def adopted_titles_set desk_inv_def card_insert_if)
  have "card (adopted_rows (dk_table (store f d))) \<le> MAX_ADOPTED_TITLES"
  proof (cases "sf_adopted f")
    case True
    have "adopted_rows (dk_table (store f d)) \<subseteq> adopted_titles (dk_spoken (store f d))"
      using True ok mirror by (auto simp: store_def adopted_titles_set adopted_rows_set)
    then have "card (adopted_rows (dk_table (store f d))) \<le> card (adopted_titles (dk_spoken (store f d)))"
      by (intro card_mono) simp_all
    with mem show ?thesis by simp
  next
    case False
    then have "adopted_rows (dk_table (store f d)) = adopted_rows (dk_table d) - {sf_title f}"
      by (simp add: store_def adopted_rows_set)
    then show ?thesis
      using inv card_Diff1_le [of "adopted_rows (dk_table d)" "sf_title f"] by (simp add: desk_inv_def)
  qed
  with inv ok mem show ?thesis
    by (simp add: desk_inv_def store_def adopted_titles_set)
qed

lemma fold_store_same:
  assumes "desk_inv d" "\<forall>f \<in> set fs. \<exists>g. dict_get (dk_spoken d) (sf_title f) = Some g \<and> sf_adopted g = sf_adopted f"
  shows "desk_inv (fold store fs d)"
  using assms
proof (induction fs arbitrary: d)
  case (Cons f fs)
  then obtain g where g: "dict_get (dk_spoken d) (sf_title f) = Some g" "sf_adopted g = sf_adopted f" by auto
  have "desk_inv (store f d)"
  proof (rule store_inv [OF Cons.prems(1)])
    show "sf_adopted f \<longrightarrow> dk_loaded d \<and> (sf_title f \<in> adopted_titles (dk_spoken d) \<or>
        card (adopted_titles (dk_spoken d)) < MAX_ADOPTED_TITLES)"
      using g Cons.prems(1) by (auto simp: adopted_titles_def desk_inv_def split: if_splits)
  qed
  moreover have "\<forall>h \<in> set fs. \<exists>g. dict_get (dk_spoken (store f d)) (sf_title h) = Some g \<and> sf_adopted g = sf_adopted h"
    using Cons.prems(2) g by (fastforce simp: store_def)
  ultimately show ?case using Cons.IH by simp
qed simp

lemma fold_store_new:
  assumes "desk_inv d" "dk_loaded d" "card (adopted_titles (dk_spoken d)) + length fs \<le> MAX_ADOPTED_TITLES"
  shows "desk_inv (fold store fs d)"
  using assms
proof (induction fs arbitrary: d)
  case (Cons f fs)
  have "desk_inv (store f d)" by (rule store_inv) (use Cons.prems in auto)
  moreover have "card (adopted_titles (dk_spoken (store f d))) \<le> Suc (card (adopted_titles (dk_spoken d)))"
    using card_Diff1_le [of "adopted_titles (dk_spoken d)" "sf_title f"]
    by (auto simp: store_def adopted_titles_set card_insert_if)
  ultimately show ?case using Cons by (simp add: store_def)
qed simp

text \<open>The pieces of a sweep.\<close>

lemma load_get:
  "dict_get (fold (\<lambda>(t, r) spoken. case dict_get spoken t of
       Some _ \<Rightarrow> spoken | None \<Rightarrow> dict_set t (fault_of r) spoken) table spoken) t =
     (case dict_get spoken t of Some f \<Rightarrow> Some f | None \<Rightarrow> map_option fault_of (dict_get table t))"
proof (induction table arbitrary: spoken)
  case Nil
  then show ?case by (simp split: option.split)
next
  case (Cons x table)
  obtain u r where x: "x = (u, r)" by (cases x)
  show ?case
    unfolding fold.simps comp_apply Cons.IH
    by (cases "dict_get spoken u"; cases "u = t") (auto simp: x dict_get_def [of "(u, r) # table" for u r table] dict_get_def [of table] split: option.split)
qed

lemma load_wf:
  "dict_wf spoken \<Longrightarrow> dict_wf (fold (\<lambda>(t, r) spoken. case dict_get spoken t of
       Some _ \<Rightarrow> spoken | None \<Rightarrow> dict_set t (fault_of r) spoken) table spoken)"
  by (induction table arbitrary: spoken) (auto split: option.split prod.split)

lemma load_spoken_inv:
  assumes inv: "desk_inv d"
  shows "desk_inv (snd (load_spoken env d))"
proof (cases "dk_loaded d \<or> \<not> de_db_load env")
  case True
  with inv show ?thesis by (auto simp: load_spoken_def)
next
  case False
  let ?new = "fold (\<lambda>(t, r) spoken. case dict_get spoken t of
       Some _ \<Rightarrow> spoken | None \<Rightarrow> dict_set t (fault_of r) spoken) (dk_table d) (dk_spoken d)"
  have none: "adopted_titles (dk_spoken d) = {}" using inv False by (simp add: desk_inv_def)
  then have sub: "adopted_titles ?new \<subseteq> adopted_rows (dk_table d)"
    by (auto simp: adopted_titles_def adopted_rows_def load_get split: option.splits)
  obtain d' where d': "snd (load_spoken env d) = d'" "dk_spoken d' = ?new" "dk_table d' = dk_table d" "dk_loaded d'"
    using False by (simp add: load_spoken_def)
  have "card (adopted_titles ?new) \<le> MAX_ADOPTED_TITLES"
    using card_mono [OF _ sub] inv by (simp add: desk_inv_def)
  moreover have "dict_wf ?new" using inv by (intro load_wf) (simp add: desk_inv_def)
  moreover have "sf_title f = t" if "dict_get ?new t = Some f" for t f
    using that inv by (auto simp: load_get desk_inv_def split: option.splits)
  moreover have "sf_adopted f = dr_adopted r" if "dict_get ?new t = Some f" "dict_get (dk_table d) t = Some r" for t f r
    using that inv by (auto simp: load_get desk_inv_def split: option.splits)
  moreover have "dict_get (dk_table d) t = None" if "dict_get ?new t = None" for t
    using that by (auto simp: load_get split: option.splits)
  ultimately show ?thesis
    using inv unfolding d' by (simp add: desk_inv_def d')
qed

lemma dict_get_mem: "dict_wf m \<Longrightarrow> (t, f) \<in> set m \<longleftrightarrow> dict_get m t = Some f"
  by (auto simp: dict_wf_def dict_get_def dest: map_of_SomeD)

lemma dict_get_filter: "dict_get (filter (\<lambda>(t, _). P t) m) t = (if P t then dict_get m t else None)"
  by (induction m) (auto simp: dict_get_def)

lemma dict_get_map_val: "dict_get (map (\<lambda>(t, f). (t, g t f)) m) t = map_option (g t) (dict_get m t)"
  by (induction m) (auto simp: dict_get_def)

lemma dict_get_fold_dels: "dict_get (fold dict_del ts m) t = (if t \<in> set ts then None else dict_get m t)"
  by (induction ts arbitrary: m) auto

lemma dict_wf_fold_dels: "dict_wf m \<Longrightarrow> dict_wf (fold dict_del ts m)"
  by (induction ts arbitrary: m) simp_all

lemma dict_wf_filter: "dict_wf m \<Longrightarrow> dict_wf (filter P m)"
  by (simp add: dict_wf_def distinct_map_filter)

lemma dict_wf_map_val: "dict_wf m \<Longrightarrow> dict_wf (map (\<lambda>(t, f). (t, g t f)) m)"
  by (simp add: dict_wf_def o_def split_beta)

text \<open>Changing severities and times in the memory only.\<close>

lemma retouch_inv:
  assumes "desk_inv d" "\<And>t f. sf_adopted (g t f) = sf_adopted f" "\<And>t f. sf_title (g t f) = sf_title f"
  shows "desk_inv (d\<lparr>dk_spoken := map (\<lambda>(t, f). (t, g t f)) (dk_spoken d)\<rparr>)"
proof -
  have "adopted_titles (map (\<lambda>(t, f). (t, g t f)) (dk_spoken d)) = adopted_titles (dk_spoken d)"
    using assms(2) by (auto simp: adopted_titles_def dict_get_map_val)
  with assms show ?thesis by (auto simp: desk_inv_def dict_get_map_val dict_wf_map_val)
qed

lemma announce_frame:
  "dk_spoken (snd (announce_recoveries env cleared since d)) = dk_spoken d"
  "dk_table (snd (announce_recoveries env cleared since d)) = dk_table d"
  "dk_loaded (snd (announce_recoveries env cleared since d)) = dk_loaded d"
  "dk_looked_at (snd (announce_recoveries env cleared since d)) = dk_looked_at d"
  by (simp_all add: announce_recoveries_def send_def Let_def split_beta split: sum.splits)

lemma cleared_inv:
  fixes current
  defines "kept \<equiv> \<lambda>d. filter (\<lambda>(t, _). dict_get current t \<noteq> None) (dk_spoken d)"
    and "gone \<equiv> \<lambda>d. map sf_title (map snd (filter (\<lambda>(t, _). dict_get current t = None) (dk_spoken d)))"
  assumes inv: "desk_inv d"
  shows "desk_inv (forget True (gone d) (d\<lparr>dk_spoken := kept d\<rparr>))"
proof -
  have titles: "t \<in> set (gone d) \<longleftrightarrow> dict_get (dk_spoken d) t \<noteq> None \<and> dict_get current t = None" for t
  proof -
    have "t \<in> set (gone d) \<longleftrightarrow> (\<exists>u f. (u, f) \<in> set (dk_spoken d) \<and> dict_get current u = None \<and> sf_title f = t)"
      by (auto simp: gone_def image_iff Bex_def)
    also have "\<dots> \<longleftrightarrow> (\<exists>u f. dict_get (dk_spoken d) u = Some f \<and> dict_get current u = None \<and> sf_title f = t)"
      using dict_get_mem [of "dk_spoken d"] inv by (simp add: desk_inv_def)
    also have "\<dots> \<longleftrightarrow> dict_get (dk_spoken d) t \<noteq> None \<and> dict_get current t = None"
      using inv by (auto simp: desk_inv_def)
    finally show ?thesis .
  qed
  have d': "forget True (gone d) (d\<lparr>dk_spoken := kept d\<rparr>) =
      d\<lparr>dk_spoken := kept d, dk_table := fold dict_del (gone d) (dk_table d)\<rparr>"
    by (cases "gone d = []") (simp_all add: forget_def)
  have spoken: "dict_get (kept d) t = (if dict_get current t \<noteq> None then dict_get (dk_spoken d) t else None)" for t
    unfolding kept_def by (rule dict_get_filter)
  have "adopted_titles (kept d) \<subseteq> adopted_titles (dk_spoken d)"
    by (auto simp: adopted_titles_def spoken split: if_splits)
  moreover have "adopted_rows (fold dict_del (gone d) (dk_table d)) \<subseteq> adopted_rows (dk_table d)"
    by (auto simp: adopted_rows_def dict_get_fold_dels split: if_splits)
  ultimately have "card (adopted_titles (kept d)) \<le> card (adopted_titles (dk_spoken d))"
    "card (adopted_rows (fold dict_del (gone d) (dk_table d))) \<le> card (adopted_rows (dk_table d))"
    "adopted_titles (dk_spoken d) = {} \<Longrightarrow> adopted_titles (kept d) = {}"
    by (simp_all add: card_mono)
  moreover have "dict_wf (kept d)" using inv by (simp add: kept_def desk_inv_def dict_wf_filter)
  ultimately show ?thesis
    using inv unfolding d'
    by (auto simp: desk_inv_def spoken dict_get_fold_dels dict_wf_fold_dels titles split: if_splits)
qed

lemma drop_cleared_inv:
  assumes inv: "desk_inv d" and db: "de_db_forget env"
  shows "desk_inv (snd (drop_cleared env current d))"
proof -
  let ?cleared = "map snd (filter (\<lambda>(t, _). dict_get current t = None) (dk_spoken d))"
  let ?d1 = "forget (de_db_forget env) (map sf_title ?cleared)
      (d\<lparr>dk_spoken := filter (\<lambda>(t, _). dict_get current t \<noteq> None) (dk_spoken d)\<rparr>)"
  let ?r = "if ?cleared = [] then (Inr 0, ?d1) else announce_recoveries env ?cleared (dk_looked_at d) ?d1"
  have "desk_inv ?d1" using cleared_inv [OF inv, of current] db by simp
  then have r: "desk_inv (snd ?r)"
    by (cases "?cleared = []") (simp_all add: desk_inv_cong [OF announce_frame(1-3)])
  have shape: "snd (drop_cleared env current d) = snd ?r \<or>
      snd (drop_cleared env current d) = (snd ?r)\<lparr>dk_spoken := map (\<lambda>(t, f). (t, case dict_get current t of
          Some rung \<Rightarrow> f\<lparr>sf_severity := rung\<rparr> | None \<Rightarrow> f)) (dk_spoken (snd ?r))\<rparr>"
  proof -
    have eq: "drop_cleared env current d = (case ?r of (Inl x, d2) \<Rightarrow> (Inl x, d2)
        | (Inr _, d2) \<Rightarrow> (Inr (), d2\<lparr>dk_spoken := map (\<lambda>(t, f). (t, case dict_get current t of
              Some rung \<Rightarrow> f\<lparr>sf_severity := rung\<rparr> | None \<Rightarrow> f)) (dk_spoken d2)\<rparr>))"
      unfolding drop_cleared_def Let_def by (rule refl)
    obtain x e where r: "?r = (x, e)" by (rule prod.exhaust)
    show ?thesis unfolding eq r by (cases x) simp_all
  qed
  have touched: "desk_inv ((snd ?r)\<lparr>dk_spoken := map (\<lambda>(t, f). (t, case dict_get current t of
          Some rung \<Rightarrow> f\<lparr>sf_severity := rung\<rparr> | None \<Rightarrow> f)) (dk_spoken (snd ?r))\<rparr>)"
    by (rule retouch_inv [OF r]) (simp_all split: option.split)
  from shape show ?thesis
  proof
    assume "snd (drop_cleared env current d) = snd ?r"
    then show ?thesis by (rule ssubst) (rule r)
  qed (rule ssubst, assumption, rule touched)
qed

lemma adopt_inv:
  assumes inv: "desk_inv d" "dk_loaded d" and db: "de_db_remember_adopted env"
  shows "desk_inv (adopt env threshold interval d)"
proof (cases "MAX_ADOPTED_TITLES \<le> adopted_count (dk_spoken d) \<or> \<not> de_db_adopt env")
  case False
  have "adopted_count (dk_spoken d) = card (adopted_titles (dk_spoken d))"
    using inv by (intro adopted_count_card) (simp add: desk_inv_def)
  with False inv db show ?thesis
    by (auto simp: adopt_def Let_def remember_fold_store intro!: fold_store_new)
qed (use inv in \<open>simp add: adopt_def\<close>)

lemma audible_faults_sub: "audible_faults suppress fs = Inr gs \<Longrightarrow> set gs \<subseteq> set fs"
  by (induction fs arbitrary: gs) (auto split: sum.splits if_splits)

lemma remind_inv:
  assumes inv: "desk_inv d" and db: "de_db_remember env"
  shows "desk_inv (snd (remind env d))"
proof (cases "audible_faults (de_suppress env) (filter (is_due env) (map snd (sort_key fst (dk_spoken d))))")
  case (Inr due)
  have known: "\<exists>g. dict_get (dk_spoken d) (sf_title f) = Some g \<and> sf_adopted g = sf_adopted f"
    if "f \<in> set (map (mark_spoken (de_now env)) due)" for f
  proof -
    from that obtain g where g: "g \<in> set due" "f = mark_spoken (de_now env) g" by auto
    then obtain t where "(t, g) \<in> set (dk_spoken d)" using audible_faults_sub [OF Inr] by auto
    then have "dict_get (dk_spoken d) t = Some g" using inv dict_get_mem [of "dk_spoken d" t g] by (simp add: desk_inv_def)
    with inv g show ?thesis by (auto simp: desk_inv_def mark_spoken_def)
  qed
  define d1 where "d1 = snd (send env (fst (reminder_text (de_now env) due)) (fst (snd (reminder_text (de_now env) due)))
      (snd (snd (reminder_text (de_now env) due))) d)"
  have same: "dk_spoken d1 = dk_spoken d" "dk_table d1 = dk_table d" "dk_loaded d1 = dk_loaded d"
    by (simp_all add: d1_def send_def)
  then have d1: "desk_inv d1" using inv desk_inv_cong by metis
  have "desk_inv (fold store (map (mark_spoken (de_now env)) due) d1)"
    by (rule fold_store_same [OF d1]) (use known same in simp)
  then have "desk_inv (snd (restate env due d))"
    using d1 db unfolding restate_def
    by (simp add: split_beta d1_def [symmetric] Let_def remember_fold_store split: bool.split)
  then show ?thesis using Inr inv by (simp add: remind_def split_beta)
qed (use inv in \<open>simp add: remind_def\<close>)

definition writes_ok :: "desk_env \<Rightarrow> bool" where
  "writes_ok env \<longleftrightarrow> de_db_forget env \<and> de_db_remember env \<and> de_db_remember_adopted env"

lemma sweep_open_inv:
  assumes "desk_inv d" "loaded \<longrightarrow> dk_loaded d" "writes_ok env"
  shows "desk_inv (snd (sweep_open env loaded d))"
proof -
  have "desk_inv (d\<lparr>dk_looked_at := de_now env\<rparr>)" using assms(1) desk_inv_cong [of "d\<lparr>dk_looked_at := de_now env\<rparr>" d] by simp
  with assms show ?thesis
    by (auto simp: sweep_open_def Let_def writes_ok_def intro!: remind_inv adopt_inv)
qed

lemma drop_cleared_loaded: "dk_loaded (snd (drop_cleared env current d)) = dk_loaded d"
proof -
  have "dk_loaded (forget b ts e) = dk_loaded e" for b ts e by (simp add: forget_def)
  then show ?thesis
    by (simp add: drop_cleared_def Let_def split_beta announce_frame split: sum.split)
qed

lemma sweep_inv:
  assumes inv: "desk_inv d" and db: "writes_ok env"
  shows "desk_inv (snd (sweep env d))"
proof (cases "dc_enabled (de_config env)")
  case False
  then show ?thesis using inv desk_inv_cong [of "d\<lparr>dk_looked_at := de_now env\<rparr>" d] by (simp add: sweep_def)
next
  case True
  obtain loaded d1 where l: "load_spoken env d = (loaded, d1)" by (cases "load_spoken env d")
  have d1: "desk_inv d1" using load_spoken_inv [OF inv, of env] l by simp
  have loaded: "loaded \<longrightarrow> dk_loaded d1" using l by (auto simp: load_spoken_def split: if_splits)
  have stamped: "desk_inv (d1\<lparr>dk_spoken := map (\<lambda>(t, f). (t, f\<lparr>sf_last_spoken_at := de_now env\<rparr>)) (dk_spoken d1),
      dk_looked_at := de_now env\<rparr>)"
    using retouch_inv [OF d1, of "\<lambda>_ f. f\<lparr>sf_last_spoken_at := de_now env\<rparr>"]
    by (rule iffD1 [OF desk_inv_cong, rotated -1]) simp_all
  have dropped: "desk_inv (snd (drop_cleared env current d1))" for current
    using drop_cleared_inv [OF d1] db by (simp add: writes_ok_def)
  have opened: "desk_inv (snd (sweep_open env loaded (snd (drop_cleared env current d1))))" for current
    by (rule sweep_open_inv [OF dropped _ db]) (simp add: drop_cleared_loaded loaded)
  show ?thesis
    using True d1 stamped dropped opened sweep_open_inv [OF d1 loaded db]
    by (simp add: sweep_def l split_beta split: option.split sum.split)
qed

lemma handle_raised_inv:
  assumes inv: "desk_inv d" and db: "writes_ok env"
  shows "desk_inv (snd (handle_raised env ev d))"
proof -
  have stored: "desk_inv (remember True [f] (e\<lparr>dk_spoken := dict_set (sf_title f) f (dk_spoken e)\<rparr>))"
    if "desk_inv e" "\<not> sf_adopted f" for e f
    using remember_fold_store [of "[f]" e] store_inv [OF that(1), of f] that(2) by simp
  have sent: "desk_inv (d\<lparr>dk_sent := x\<rparr>)" for x using inv desk_inv_cong [of "d\<lparr>dk_sent := x\<rparr>" d] by simp
  have new: "desk_inv (remember True [\<lparr>sf_title = t, sf_severity = s, sf_episode_started_at = a, sf_last_spoken_at = b,
      sf_reminders_sent = 0, sf_adopted = False\<rparr>] (d\<lparr>dk_sent := x, dk_spoken := dict_set t \<lparr>sf_title = t, sf_severity = s,
      sf_episode_started_at = a, sf_last_spoken_at = b, sf_reminders_sent = 0, sf_adopted = False\<rparr> (dk_spoken d)\<rparr>))" for t s a b x
    using stored [OF sent, of "\<lparr>sf_title = t, sf_severity = s, sf_episode_started_at = a, sf_last_spoken_at = b,
      sf_reminders_sent = 0, sf_adopted = False\<rparr>" x] by simp
  show ?thesis
    using inv new db
    by (auto simp: handle_raised_def Let_def send_def writes_ok_def split: sum.split bool.split option.split)
qed

section \<open>Every history\<close>

definition desk_fresh :: "rat \<Rightarrow> desk" where
  "desk_fresh now = \<lparr>dk_spoken = [], dk_loaded = False, dk_looked_at = now, dk_table = [], dk_sent = []\<rparr>"

text \<open>What the notifier can come to, as long as the database takes what it writes.\<close>

inductive desk_reachable :: "desk \<Rightarrow> bool" where
  fresh: "desk_reachable (desk_fresh now)"
| raised: "desk_reachable d \<Longrightarrow> writes_ok env \<Longrightarrow> desk_reachable (on_alert_raised env ev d)"
| swept: "desk_reachable d \<Longrightarrow> writes_ok env \<Longrightarrow> desk_reachable (snd (sweep_reminders env d))"
| restarted: "desk_reachable d \<Longrightarrow> desk_reachable (restart_desk now d)"

lemma snd_sweep_reminders: "snd (sweep_reminders env d) = snd (sweep env d)"
  by (simp add: sweep_reminders_def split_beta split: sum.split)

lemma desk_reachable_inv: "desk_reachable d \<Longrightarrow> desk_inv d"
proof (induction rule: desk_reachable.induct)
  case (fresh now)
  show ?case by (simp add: desk_inv_def desk_fresh_def adopted_titles_def adopted_rows_def)
next
  case (raised d env ev)
  then show ?case by (simp add: on_alert_raised_def handle_raised_inv)
next
  case (swept d env)
  then show ?case by (simp add: snd_sweep_reminders sweep_inv)
next
  case (restarted d now)
  then show ?case by (simp add: desk_inv_def restart_desk_def adopted_titles_def)
qed

lemma adopted_rows_card: "dict_wf table \<Longrightarrow> length (filter (\<lambda>(_, r). dr_adopted r) table) = card (adopted_rows table)"
proof -
  assume wf: "dict_wf table"
  let ?A = "filter (\<lambda>(_, r). dr_adopted r) table"
  have "adopted_rows table = fst ` set ?A"
    using wf by (force simp: adopted_rows_def dict_get_def dict_wf_def dest: map_of_SomeD)
  moreover have "distinct (map fst ?A)" using wf by (simp add: dict_wf_def distinct_map_filter)
  ultimately show ?thesis by (metis distinct_card length_map list.set_map)
qed


text \<open>A first sweep, with the tray away, over seven open warnings.\<close>

definition warning_row :: "nat \<Rightarrow> alert" where
  "warning_row n = \<lparr>al_id = n, al_agent = ''sysadmin'', al_severity = ''warning'', al_title = show_nat n,
     al_message = None, al_details = [], al_acknowledged = False, al_acknowledged_at = None,
     al_resolved = False, al_resolved_at = None, al_created_at = int n\<rparr>"

definition night_desk_env :: desk_env where
  "night_desk_env = \<lparr>de_now = 100000, de_mono = 90000, de_presence = \<lparr>tp_last_seen = None, tp_started_at = 0\<rparr>,
     de_config = \<lparr>dc_enabled = True, dc_min_severity = ''warning'', dc_tray_grace_seconds = 180, dc_reminder_hours = 24\<rparr>,
     de_suppress = (\<lambda>_. Inr False), de_alerts = map warning_row [1, 2, 3, 4, 5, 6, 7], de_send = (\<lambda>_ _ _. True),
     de_db_incident = True, de_db_load = True, de_db_open = True, de_db_forget = True, de_db_closed = True,
     de_db_adopt = True, de_db_remember_adopted = True, de_db_remember = True\<rparr>"


section \<open>Reminders\<close>

lemma fold_set_get:
  "dict_get (fold (\<lambda>f. dict_set (sf_title f) f) fs m) t = Some g \<Longrightarrow>
     (dict_get m t = Some g \<and> (\<forall>f \<in> set fs. sf_title f \<noteq> t)) \<or> (g \<in> set fs \<and> sf_title g = t)"
proof (induction fs arbitrary: m)
  case (Cons f fs)
  from Cons.IH [of "dict_set (sf_title f) f m"] Cons.prems show ?case by (auto split: if_splits)
qed simp

lemma fold_set_other:
  "(\<forall>f \<in> set fs. sf_title f \<noteq> t) \<Longrightarrow> dict_get (fold (\<lambda>f. dict_set (sf_title f) f) fs m) t = dict_get m t"
  by (induction fs arbitrary: m) auto

lemma open_rung_get:
  "dict_get (fold open_rung as current) t = None \<longleftrightarrow> dict_get current t = None \<and> (\<forall>a \<in> set as. al_title a \<noteq> t)"
  by (induction as arbitrary: current) (auto simp: open_rung_def)

lemma audible_faults_in:
  "audible_faults suppress fs = Inr gs \<Longrightarrow> g \<in> set gs \<Longrightarrow> g \<in> set fs \<and> suppress (sf_severity g) = Inr False"
  by (induction fs arbitrary: gs) (auto split: sum.splits if_splits)

lemma adopt_keeps:
  assumes "dict_get (dk_spoken d) t = Some f"
  shows "dict_get (dk_spoken (adopt env threshold interval d)) t = Some f"
proof -
  have "cd_title c \<noteq> t" if "c \<in> set (candidates_of (adoptable threshold (dk_spoken d) (de_alerts env)))" for c
    using that assms by (auto simp: candidates_of_def adoptable_def Let_def)
  then have "\<forall>f \<in> set (map (adopted_fault now silence) (take n (sort_key cd_opened
      (candidates_of (adoptable threshold (dk_spoken d) (de_alerts env)))))). sf_title f \<noteq> t" for now silence n
    by (fastforce simp: adopted_fault_def dest: in_set_takeD)
  from fold_set_other [OF this] assms show ?thesis
    by (simp add: adopt_def Let_def remember_def)
qed

lemma restate_entry:
  assumes "dict_get (dk_spoken (snd (restate env due d))) t = Some g"
  shows "dict_get (dk_spoken d) t = Some g
    \<or> (\<exists>h \<in> set due. g = mark_spoken (de_now env) h \<and> sf_title h = t
         \<and> length (dk_sent (snd (restate env due d))) = Suc (length (dk_sent d)))"
proof -
  let ?x = "reminder_text (de_now env) due"
  show ?thesis
  proof (cases "de_send env (fst ?x) (fst (snd ?x)) (snd (snd ?x))")
    case False
    with assms show ?thesis by (simp add: restate_def split_beta send_def)
  next
    case True
    let ?said = "map (mark_spoken (de_now env)) due"
    have d': "dk_spoken (snd (restate env due d)) = fold (\<lambda>f. dict_set (sf_title f) f) ?said (dk_spoken d)"
      "dk_sent (snd (restate env due d)) = dk_sent d @ [(fst ?x, fst (snd ?x), snd (snd ?x))]"
      using True by (simp_all add: restate_def split_beta send_def Let_def remember_def)
    from fold_set_get [OF assms [unfolded d'(1)]] d'(2) show ?thesis by (auto simp: mark_spoken_def)
  qed
qed

lemma remind_entry:
  assumes inv: "desk_inv d" and f: "dict_get (dk_spoken d) t = Some f"
    and f': "dict_get (dk_spoken (snd (remind env d))) t = Some f'"
  shows "f' = f \<or> (f' = mark_spoken (de_now env) f \<and> is_due env f \<and> de_suppress env (sf_severity f) = Inr False
    \<and> length (dk_sent (snd (remind env d))) = Suc (length (dk_sent d)))"
proof (cases "audible_faults (de_suppress env) (filter (is_due env) (map snd (sort_key fst (dk_spoken d))))")
  case (Inl x)
  with f f' show ?thesis by (simp add: remind_def)
next
  case (Inr due)
  show ?thesis
  proof (cases "due = []")
    case True
    with Inr f f' show ?thesis by (simp add: remind_def)
  next
    case False
    then have r: "snd (remind env d) = snd (restate env due d)" using Inr by (simp add: remind_def split_beta)
    from restate_entry [OF f' [unfolded r]] show ?thesis
    proof
      assume "\<exists>h \<in> set due. f' = mark_spoken (de_now env) h \<and> sf_title h = t
        \<and> length (dk_sent (snd (restate env due d))) = Suc (length (dk_sent d))"
      then obtain h where h: "h \<in> set due" "f' = mark_spoken (de_now env) h" "sf_title h = t"
        "length (dk_sent (snd (restate env due d))) = Suc (length (dk_sent d))" by blast
      from audible_faults_in [OF Inr h(1)] obtain u where u: "(u, h) \<in> set (dk_spoken d)" "is_due env h"
        "de_suppress env (sf_severity h) = Inr False" by auto
      then have "dict_get (dk_spoken d) u = Some h"
        using inv dict_get_mem [of "dk_spoken d" u h] by (simp add: desk_inv_def)
      moreover from this have "u = t" using inv h(3) by (auto simp: desk_inv_def)
      ultimately have "h = f" using f by simp
      with h u r show ?thesis by simp
    qed (use f in simp)
  qed
qed

lemma drop_cleared_keeps:
  assumes "dict_get (dk_spoken d) t = Some f" "dict_get current t \<noteq> None"
  shows "\<exists>g. dict_get (dk_spoken (snd (drop_cleared env current d))) t = Some g"
proof -
  have sp: "dk_spoken (forget b ts e) = dk_spoken e" for b ts e by (simp add: forget_def)
  show ?thesis
    using assms
    by (auto simp: drop_cleared_def Let_def split_beta announce_frame sp dict_get_map_val dict_get_filter split: sum.split)
qed

lemma drop_cleared_entry:
  assumes "dict_get (dk_spoken (snd (drop_cleared env current d))) t = Some g"
  shows "dict_get current t \<noteq> None \<and> (\<exists>f s. dict_get (dk_spoken d) t = Some f \<and> g = f\<lparr>sf_severity := s\<rparr>)"
proof -
  let ?keep = "filter (\<lambda>(t, _). dict_get current t \<noteq> None) (dk_spoken d)"
  let ?touch = "\<lambda>m. map (\<lambda>(t, f). (t, case dict_get current t of Some rung \<Rightarrow> f\<lparr>sf_severity := rung\<rparr> | None \<Rightarrow> f)) m"
  have sp: "dk_spoken (forget b ts e) = dk_spoken e" for b ts e by (simp add: forget_def)
  have "dk_spoken (snd (drop_cleared env current d)) = ?keep \<or> dk_spoken (snd (drop_cleared env current d)) = ?touch ?keep"
    by (simp add: drop_cleared_def Let_def split_beta announce_frame sp split: sum.split)
  with assms have "dict_get ?keep t = Some g \<or> dict_get (?touch ?keep) t = Some g" by auto
  moreover have "\<exists>s. f = f\<lparr>sf_severity := s\<rparr>" for f :: spoken_fault
    by (rule exI [of _ "sf_severity f"]) simp
  ultimately show ?thesis
    by (auto simp: dict_get_map_val dict_get_filter split: if_splits option.splits)
qed

text \<open>What a sweep may have done to a fault it already spoke for.\<close>

definition kept_quiet :: "desk_env \<Rightarrow> spoken_fault \<Rightarrow> spoken_fault \<Rightarrow> bool" where
  "kept_quiet env f f' \<longleftrightarrow> sf_reminders_sent f' = sf_reminders_sent f
     \<and> (sf_last_spoken_at f' = sf_last_spoken_at f
        \<or> is_watching (de_mono env) (de_presence env) (dc_tray_grace_seconds (de_config env)) \<and> sf_last_spoken_at f' = de_now env)"

definition reminded :: "desk_env \<Rightarrow> spoken_fault \<Rightarrow> spoken_fault \<Rightarrow> bool" where
  "reminded env f f' \<longleftrightarrow> sf_reminders_sent f' = Suc (sf_reminders_sent f) \<and> sf_last_spoken_at f' = de_now env
     \<and> 0 < dc_reminder_hours (de_config env)
     \<and> dc_reminder_hours (de_config env) * 3600 \<le> de_now env - sf_last_spoken_at f
     \<and> dc_enabled (de_config env)
     \<and> \<not> is_watching (de_mono env) (de_presence env) (dc_tray_grace_seconds (de_config env))
     \<and> threshold_of (dc_min_severity (de_config env)) \<le> level_of (sf_severity f')
     \<and> de_suppress env (sf_severity f') = Inr False
     \<and> (\<exists>a \<in> set (de_alerts env). al_title a = sf_title f \<and> unresolved a)"

lemma sweep_open_entry:
  assumes inv: "desk_inv d" and f: "dict_get (dk_spoken d) t = Some f"
    and loaded: "loaded \<longrightarrow> dk_loaded d" and db: "writes_ok env"
    and f': "dict_get (dk_spoken (snd (sweep_open env loaded d))) t = Some f'"
  shows "f' = f \<or> (f' = mark_spoken (de_now env) f \<and> is_due env f \<and> de_suppress env (sf_severity f) = Inr False
    \<and> 0 < dc_reminder_hours (de_config env))"
proof (cases "dc_reminder_hours (de_config env) * 3600 \<le> 0")
  case True
  with f f' show ?thesis by (simp add: sweep_open_def Let_def)
next
  case False
  let ?d1 = "d\<lparr>dk_looked_at := de_now env\<rparr>"
  let ?d2 = "if loaded then adopt env (threshold_of (dc_min_severity (de_config env))) (dc_reminder_hours (de_config env) * 3600) ?d1 else ?d1"
  have d1: "desk_inv ?d1" using inv desk_inv_cong [of ?d1 d] by simp
  then have inv2: "desk_inv ?d2" using loaded db by (auto simp: writes_ok_def intro!: adopt_inv)
  have f2: "dict_get (dk_spoken ?d2) t = Some f" using f by (simp add: adopt_keeps)
  have "sweep_open env loaded d = remind env ?d2" using False by (simp add: sweep_open_def Let_def)
  with f' have "dict_get (dk_spoken (snd (remind env ?d2))) t = Some f'" by simp
  from remind_entry [OF inv2 f2 this] False show ?thesis by auto
qed

lemma adopt_known:
  assumes "dict_get (dk_spoken (adopt env threshold interval d)) t = Some g"
  shows "dict_get (dk_spoken d) t \<noteq> None \<or> (\<exists>a \<in> set (de_alerts env). al_title a = t \<and> unresolved a)"
proof -
  have cand: "\<exists>a \<in> set (de_alerts env). al_title a = cd_title c \<and> unresolved a"
    if "c \<in> set (candidates_of (adoptable threshold (dk_spoken d) (de_alerts env)))" for c
  proof -
    from that have "cd_title c \<in> al_title ` set (adoptable threshold (dk_spoken d) (de_alerts env))"
      by (auto simp: candidates_of_def Let_def)
    then show ?thesis by (auto simp: adoptable_def)
  qed
  have "\<exists>a \<in> set (de_alerts env). al_title a = sf_title f \<and> unresolved a"
    if "f \<in> set (map (adopted_fault now silence) (take n (sort_key cd_opened
      (candidates_of (adoptable threshold (dk_spoken d) (de_alerts env))))))" for f now silence n
  proof -
    from that obtain c where "f = adopted_fault now silence c"
      "c \<in> set (candidates_of (adoptable threshold (dk_spoken d) (de_alerts env)))"
      by (auto dest!: in_set_takeD)
    with cand [of c] show ?thesis by (simp add: adopted_fault_def)
  qed
  with assms fold_set_get show ?thesis
    by (auto simp: adopt_def Let_def remember_def split: if_splits) fastforce+
qed

lemma remind_known:
  assumes "desk_inv d" "dict_get (dk_spoken (snd (remind env d))) t = Some g"
  shows "dict_get (dk_spoken d) t \<noteq> None"
proof (cases "audible_faults (de_suppress env) (filter (is_due env) (map snd (sort_key fst (dk_spoken d))))")
  case (Inr due)
  have "dict_get (dk_spoken d) (sf_title h) = Some h" if h: "h \<in> set due" for h
  proof -
    from audible_faults_in [OF Inr h] obtain u where "(u, h) \<in> set (dk_spoken d)" by auto
    then have "dict_get (dk_spoken d) u = Some h"
      using assms(1) dict_get_mem [of "dk_spoken d" u h] by (simp add: desk_inv_def)
    with assms(1) show ?thesis by (auto simp: desk_inv_def)
  qed
  with assms(2) Inr restate_entry [of env due d t g] show ?thesis
    by (auto simp: remind_def split_beta split: if_splits)
qed (use assms(2) in \<open>simp add: remind_def\<close>)

lemma sweep_open_known:
  assumes inv: "desk_inv d" and loaded: "loaded \<longrightarrow> dk_loaded d" and db: "writes_ok env"
    and g: "dict_get (dk_spoken (snd (sweep_open env loaded d))) t = Some g"
  shows "dict_get (dk_spoken d) t \<noteq> None \<or> (\<exists>a \<in> set (de_alerts env). al_title a = t \<and> unresolved a)"
proof -
  let ?d1 = "d\<lparr>dk_looked_at := de_now env\<rparr>"
  let ?ad = "adopt env (threshold_of (dc_min_severity (de_config env))) (dc_reminder_hours (de_config env) * 3600) ?d1"
  have d1: "desk_inv ?d1" using inv desk_inv_cong [of ?d1 d] by simp
  have ad: "loaded \<Longrightarrow> desk_inv ?ad" using d1 loaded db by (auto simp: writes_ok_def intro!: adopt_inv)
  show ?thesis
    using g remind_known [OF d1, of env t g] remind_known [OF ad, of env t g] adopt_known [of env _ _ ?d1 t]
    by (force simp: sweep_open_def Let_def split: if_splits)
qed

lemma mark_spoken_simps:
  "sf_reminders_sent (mark_spoken now f) = Suc (sf_reminders_sent f)" "sf_last_spoken_at (mark_spoken now f) = now"
  "sf_severity (mark_spoken now f) = sf_severity f" "sf_episode_started_at (mark_spoken now f) = sf_episode_started_at f"
  "sf_adopted (mark_spoken now f) = sf_adopted f"
  by (simp_all add: mark_spoken_def)

lemma sweep_on_entry:
  assumes d1: "desk_inv d1" and db: "writes_ok env" and loaded: "loaded \<longrightarrow> dk_loaded d1"
    and f1: "dict_get (dk_spoken d1) t = Some f" and current: "still_open env (map fst (dk_spoken d1)) = Some current"
    and on: "dc_enabled (de_config env)"
      "\<not> is_watching (de_mono env) (de_presence env) (dc_tray_grace_seconds (de_config env))"
    and f': "dict_get (dk_spoken (snd (drop_cleared env current d1))) t = Some f'
      \<or> dict_get (dk_spoken (snd (sweep_open env loaded (snd (drop_cleared env current d1))))) t = Some f'"
  shows "sf_episode_started_at f' = sf_episode_started_at f \<and> sf_adopted f' = sf_adopted f
    \<and> (kept_quiet env f f' \<or> reminded env f f')"
proof -
  let ?d2 = "snd (drop_cleared env current d1)"
  have inv2: "desk_inv ?d2" using drop_cleared_inv [OF d1] db by (simp add: writes_ok_def)
  have ok: "loaded \<longrightarrow> dk_loaded ?d2" using loaded by (simp add: drop_cleared_loaded)
  have title: "sf_title f = t" using d1 f1 by (auto simp: desk_inv_def)
  have "t \<in> set (map fst (dk_spoken d1))" using f1 by (force simp: dict_get_def dest: map_of_SomeD)
  then have opens: "dict_get current t \<noteq> None \<longleftrightarrow> (\<exists>a \<in> set (de_alerts env). al_title a = t \<and> unresolved a)"
  proof -
    have "current = fold open_rung (filter (\<lambda>a. al_title a \<in> set (map fst (dk_spoken d1)) \<and> unresolved a) (de_alerts env)) []"
      using current by (simp add: still_open_def split: if_splits)
    then have "dict_get current t = None \<longleftrightarrow>
        (\<forall>a \<in> set (filter (\<lambda>a. al_title a \<in> set (map fst (dk_spoken d1)) \<and> unresolved a) (de_alerts env)). al_title a \<noteq> t)"
      by (simp only: open_rung_get dict_get_Nil simp_thms)
    with \<open>t \<in> set (map fst (dk_spoken d1))\<close> show ?thesis by fastforce
  qed
  have "\<exists>g. dict_get (dk_spoken ?d2) t = Some g"
  proof (rule ccontr)
    assume gone: "\<nexists>g. dict_get (dk_spoken ?d2) t = Some g"
    then have "dict_get (dk_spoken (snd (sweep_open env loaded ?d2))) t = Some f'" using f' by simp
    from sweep_open_known [OF inv2 ok db this] gone opens have "dict_get current t \<noteq> None" by auto
    then show False using gone drop_cleared_keeps [OF f1] by blast
  qed
  then obtain g where g: "dict_get (dk_spoken ?d2) t = Some g" by blast
  from drop_cleared_entry [OF g] f1 obtain s where s: "g = f\<lparr>sf_severity := s\<rparr>" "dict_get current t \<noteq> None" by auto
  from f' g have "f' = g \<or> (f' = mark_spoken (de_now env) g \<and> is_due env g \<and> de_suppress env (sf_severity g) = Inr False
      \<and> 0 < dc_reminder_hours (de_config env))"
    using sweep_open_entry [OF inv2 g ok db] by auto
  then show ?thesis
    using on s opens title by (auto simp: kept_quiet_def reminded_def is_due_def mark_spoken_simps)
qed


text \<open>A fault announced more than a day ago that is still open.\<close>

definition standing_fault :: spoken_fault where
  "standing_fault = \<lparr>sf_title = ''disk'', sf_severity = ''warning'', sf_episode_started_at = 0,
     sf_last_spoken_at = 0, sf_reminders_sent = 0, sf_adopted = False\<rparr>"

definition standing_desk :: desk where
  "standing_desk = \<lparr>dk_spoken = [(''disk'', standing_fault)], dk_loaded = True, dk_looked_at = 0, dk_table = [], dk_sent = []\<rparr>"

definition standing_env :: desk_env where
  "standing_env = night_desk_env\<lparr>de_alerts := [(warning_row 1)\<lparr>al_title := ''disk''\<rparr>], de_db_adopt := False\<rparr>"

lemma standing_sweep:
  "dict_get (dk_spoken (snd (sweep_reminders standing_env standing_desk))) ''disk'' = Some (mark_spoken 100000 standing_fault)"
  by (simp add: standing_env_def night_desk_env_def standing_desk_def standing_fault_def warning_row_def sweep_reminders_def
      sweep_def load_spoken_def is_watching_def seconds_since_seen_def still_open_def unresolved_def open_rung_def
      drop_cleared_def forget_def Let_def sweep_open_def adopt_def remind_def is_due_def threshold_of_def level_of_def
      SEVERITY_LEVELS_def dict_get_or_def restate_def reminder_text_def ROLLUP_THRESHOLD_def send_def remember_def
      dict_get_def [of "[(t, f)]" for t f] dict_set_def mark_spoken_def)


section \<open>A schedule that cannot be read\<close>

lemma audible_faults_raises: "audible_faults (\<lambda>_. Inl x) fs = (if fs = [] then Inr [] else Inl x)"
  by (cases fs) simp_all

text \<open>
  C37: One window of the Do Not Disturb schedule that is not a time silences the daemon altogether,
  critical alerts that may break through included: with such a first window and no manual override,
  whatever is raised is neither announced nor remembered, and no sweep sends anything, neither a
  reminder nor a recovery.
\<close>

theorem malformed_schedule_silences:
  assumes dnd: "de_suppress env = (\<lambda>severity. should_suppress cfg \<lparr>manual_override = None\<rparr> severity tod)"
    and window: "dnd_schedule cfg = (s, e) # ws" "parse_time s = Inl x"
  shows "on_alert_raised env ev d = d \<and> dk_sent (snd (sweep_reminders env d)) = dk_sent d"
proof -
  have sup: "de_suppress env = (\<lambda>_. Inl x)"
    unfolding dnd by (rule ext) (rule malformed_window_raises [OF window])
  have frames: "dk_sent (remember b fs d) = dk_sent d" "dk_sent (forget b ts d) = dk_sent d" for b fs ts d
    by (simp_all add: remember_def forget_def)
  have recov: "dk_sent (snd (announce_recoveries env cleared since d)) = dk_sent d" for cleared since d
    by (simp add: announce_recoveries_def sup audible_faults_raises Let_def)
  have remind: "dk_sent (snd (remind env d)) = dk_sent d" for d
    by (simp add: remind_def sup audible_faults_raises)
  have adopt: "dk_sent (adopt env th i d) = dk_sent d" for th i d
    by (simp add: adopt_def Let_def frames)
  have opened: "dk_sent (snd (sweep_open env l d)) = dk_sent d" for l d
    by (simp add: sweep_open_def Let_def remind adopt)
  have dropped: "dk_sent (snd (drop_cleared env current d)) = dk_sent d" for current d
    by (simp add: drop_cleared_def Let_def split_beta recov frames split: sum.split)
  have load: "dk_sent (snd (load_spoken env d)) = dk_sent d"
    by (simp add: load_spoken_def)
  have "dk_sent (snd (sweep env d)) = dk_sent d"
    using load by (auto simp: sweep_def split_beta opened dropped split: option.split sum.split)
  then show ?thesis
    by (simp add: on_alert_raised_def handle_raised_def sup Let_def snd_sweep_reminders)
qed

theorem malformed_schedule_silences_witness:
  "on_alert_raised (night_desk_env\<lparr>de_suppress := (\<lambda>severity. should_suppress
        \<lparr>dnd_enabled = False, dnd_schedule = [(''7am'', ''07:00'')], dnd_allow_critical = True\<rparr>
        \<lparr>manual_override = None\<rparr> severity 0)\<rparr>)
      \<lparr>ra_agent = Some ''sysadmin'', ra_severity = Some ''critical'', ra_title = Some ''disk full''\<rparr> (desk_fresh 0)
   = desk_fresh 0"
proof -
  have "parse_time ''7am'' = Inl (OtherError ''ValueError'')" by code_simp
  from malformed_schedule_silences [OF _ _ this, of
      "night_desk_env\<lparr>de_suppress := (\<lambda>severity. should_suppress
        \<lparr>dnd_enabled = False, dnd_schedule = [(''7am'', ''07:00'')], dnd_allow_critical = True\<rparr>
        \<lparr>manual_override = None\<rparr> severity 0)\<rparr>"
      "\<lparr>dnd_enabled = False, dnd_schedule = [(''7am'', ''07:00'')], dnd_allow_critical = True\<rparr>" 0]
  show ?thesis by simp
qed

section \<open>A restart\<close>

text \<open>What was written comes back after a restart, to the microsecond.\<close>

lemma fault_of_row_of: "from_timestamp (sf_episode_started_at f) = a \<Longrightarrow> to_timestamp a = sf_episode_started_at f \<Longrightarrow>
    to_timestamp (from_timestamp (sf_last_spoken_at f)) = sf_last_spoken_at f \<Longrightarrow> fault_of (row_of f) = f"
  by (simp add: fault_of_def row_of_def)

lemma timestamp_rounds: "\<bar>to_timestamp (from_timestamp t) - t\<bar> \<le> 1 / 2000000"
proof -
  have "\<bar>of_int (py_round (t * 1000000)) - t * 1000000\<bar> \<le> 1 / 2"
    using py_round_bounds [of "t * 1000000"] by linarith
  then show ?thesis by (simp add: to_timestamp_def from_timestamp_def abs_if field_simps split: if_splits)
qed

lemma restart_restores:
  assumes "de_db_load env" "dict_get (dk_table d) t = Some r"
  shows "dict_get (dk_spoken (snd (load_spoken env (restart_desk now d)))) t = Some (fault_of r)"
  using assms by (simp add: load_spoken_def restart_desk_def load_get)

end
