(* ===== verification/Games.thy ===== *)
theory Games
  imports Agent_Runs
begin

text \<open>
  The game detector: which games the process table shows (\<open>games/detect.py\<close>) and how a poll turns
  them into spans and stretches of focus (\<open>games/agent.py\<close>, the tables of \<open>games/models.py\<close>).
  Reading \<open>/proc\<close>, the Steam manifests and the window manager is left to the caller.
\<close>

section \<open>Detection\<close>

definition STEAM_LAUNCH :: string where "STEAM_LAUNCH = ''SteamLaunch''"

definition MATCHED_BY_STEAM :: string where "MATCHED_BY_STEAM = ''steam_appid''"

definition MATCHED_BY_EXECUTABLE :: string where "MATCHED_BY_EXECUTABLE = ''executable''"

record process_entry =
  pr_pid :: int
  pr_ppid :: int
  pr_comm :: string
  pr_argv :: "string list"

type_synonym game_key = "string \<times> int option \<times> string option"

record sighting =
  sg_game :: string
  sg_matched_by :: string
  sg_appid :: "int option"
  sg_executable :: "string option"
  sg_pid :: int
  sg_pids :: "int list"

definition sg_key :: "sighting \<Rightarrow> game_key" where
  "sg_key s = (sg_matched_by s, sg_appid s, sg_executable s)"

text \<open>\<open>AppId=(\d+)\Z\<close>, matched from the start.\<close>

definition is_decimal :: "char \<Rightarrow> bool" where
  "is_decimal c \<longleftrightarrow> 48 \<le> (of_char c :: nat) \<and> (of_char c :: nat) \<le> 57"

definition decimal_value :: "string \<Rightarrow> int" where
  "decimal_value ds = foldl (\<lambda>n c. 10 * n + int (of_char c) - 48) 0 ds"

definition appid_match :: "string \<Rightarrow> int option" where
  "appid_match arg =
     (if take 6 arg = ''AppId='' \<and> drop 6 arg \<noteq> [] \<and> list_all is_decimal (drop 6 arg)
      then Some (decimal_value (drop 6 arg)) else None)"

fun steam_appid :: "string list \<Rightarrow> int option" where
  "steam_appid (a # b # rest) =
     (if a = STEAM_LAUNCH
      then (case appid_match b of Some n \<Rightarrow> Some n | None \<Rightarrow> steam_appid (b # rest))
      else steam_appid (b # rest))"
| "steam_appid _ = None"

text \<open>\<open>re.split(r"[/\\]", argv[0])[-1]\<close>\<close>

definition executable_name :: "process_entry \<Rightarrow> string" where
  "executable_name p =
     (case pr_argv p of
        [] \<Rightarrow> pr_comm p
      | a # _ \<Rightarrow> if a = [] then pr_comm p
                  else rev (takeWhile (\<lambda>c. c \<noteq> CHR ''/'' \<and> c \<noteq> CHR 0x5C) (rev a)))"

text \<open>\<open>d.setdefault(k, []).append(v)\<close>\<close>

definition dict_append :: "'k \<Rightarrow> 'v \<Rightarrow> ('k, 'v list) dict \<Rightarrow> ('k, 'v list) dict" where
  "dict_append k v d = dict_set k (dict_get_or d k [] @ [v]) d"

definition children_of :: "process_entry list \<Rightarrow> (int, int list) dict" where
  "children_of ps = fold (\<lambda>p. dict_append (pr_ppid p) (pr_pid p)) ps []"

text \<open>
  The loop of \<open>_descendants\<close>: the end of \<open>stack\<close> is its top. Nothing in the loop says that it stops,
  and a process table read while processes come and go may hold cycles.
\<close>

partial_function (option) descendants_loop ::
  "(int, int list) dict \<Rightarrow> int list \<Rightarrow> int list \<Rightarrow> int list option" where
  "descendants_loop children stack seen =
     (if stack = [] then Some seen
      else let pid = List.last stack; rest = butlast stack
           in if pid \<in> set seen then descendants_loop children rest seen
              else descendants_loop children (rest @ dict_get_or children pid []) (pid # seen))"

declare descendants_loop.simps [code]

definition descendants :: "int list \<Rightarrow> (int, int list) dict \<Rightarrow> int list option" where
  "descendants roots children = descendants_loop children roots []"

definition outermost :: "process_entry list \<Rightarrow> int" where
  "outermost matched =
     (let pids = map pr_pid matched; roots = map pr_pid (filter (\<lambda>p. pr_ppid p \<notin> set pids) matched)
      in Min (set (if roots = [] then pids else roots)))"

definition steam_groups :: "process_entry list \<Rightarrow> (int, process_entry list) dict" where
  "steam_groups ps =
     fold (\<lambda>p d. case steam_appid (pr_argv p) of None \<Rightarrow> d | Some n \<Rightarrow> dict_append n p d) ps []"

text \<open>
  The two names a process may be listed under form a set, and the first of them that is listed
  counts; \<open>comm_first\<close> says which comes first, as the hashing of texts has it in this process.
\<close>

definition listed_name :: "(string \<Rightarrow> string \<Rightarrow> bool) \<Rightarrow> (string, string) dict \<Rightarrow> process_entry \<Rightarrow> string option" where
  "listed_name comm_first games p =
     (let e = executable_name p; c = pr_comm p
      in find (\<lambda>n. dict_get games n \<noteq> None) (if comm_first e c then [c, e] else [e, c]))"

definition listed_groups ::
  "(string \<Rightarrow> string \<Rightarrow> bool) \<Rightarrow> (string, string) dict \<Rightarrow> int list \<Rightarrow> process_entry list \<Rightarrow> (string, process_entry list) dict" where
  "listed_groups comm_first games steam_trees ps =
     fold (\<lambda>p d. if pr_pid p \<in> set steam_trees then d
                 else case listed_name comm_first games p of None \<Rightarrow> d | Some n \<Rightarrow> dict_append n p d) ps []"

definition steam_sighting :: "(int \<Rightarrow> string) \<Rightarrow> (int, int list) dict \<Rightarrow> int \<times> process_entry list \<Rightarrow> sighting option" where
  "steam_sighting steam_name children g =
     map_option (\<lambda>tree. \<lparr>sg_game = steam_name (fst g), sg_matched_by = MATCHED_BY_STEAM, sg_appid = Some (fst g),
        sg_executable = None, sg_pid = outermost (snd g), sg_pids = tree\<rparr>)
       (descendants (map pr_pid (snd g)) children)"

definition listed_sighting ::
  "(string, string) dict \<Rightarrow> (int, int list) dict \<Rightarrow> string \<times> process_entry list \<Rightarrow> sighting option" where
  "listed_sighting games children g =
     map_option (\<lambda>tree. \<lparr>sg_game = dict_get_or games (fst g) [], sg_matched_by = MATCHED_BY_EXECUTABLE, sg_appid = None,
        sg_executable = Some (fst g), sg_pid = outermost (snd g), sg_pids = tree\<rparr>)
       (descendants (map pr_pid (snd g)) children)"

definition detect_games ::
  "(string \<Rightarrow> string \<Rightarrow> bool) \<Rightarrow> process_entry list \<Rightarrow> (string, string) dict \<Rightarrow> (int \<Rightarrow> string) \<Rightarrow> sighting list option" where
  "detect_games comm_first ps games steam_name =
     (let children = children_of ps
      in case those (map (steam_sighting steam_name children) (sort_key fst (steam_groups ps))) of
           None \<Rightarrow> None
         | Some steam \<Rightarrow>
             map_option (\<lambda>listed. steam @ listed)
               (those (map (listed_sighting games children)
                  (sort_key fst (listed_groups comm_first games (concat (map sg_pids steam)) ps)))))"

section \<open>One poll\<close>

definition GAP_POLLS :: nat where "GAP_POLLS = 3"

definition FOCUSED :: string where "FOCUSED = ''focused''"

definition UNKNOWN :: string where "UNKNOWN = ''unknown''"

record game_span =
  gs_id :: nat
  gs_game :: string
  gs_matched_by :: string
  gs_appid :: "int option"
  gs_executable :: "string option"
  gs_pid :: int
  gs_started_at :: instant
  gs_last_seen_at :: instant
  gs_ended_at :: "instant option"

record game_focus =
  gf_id :: nat
  gf_span_id :: nat
  gf_state :: string
  gf_started_at :: instant
  gf_last_seen_at :: instant
  gf_ended_at :: "instant option"

definition gs_key :: "game_span \<Rightarrow> game_key" where
  "gs_key s = (gs_matched_by s, gs_appid s, gs_executable s)"

definition focus_state :: "sighting \<Rightarrow> int option \<Rightarrow> string option" where
  "focus_state s window_pid =
     (case window_pid of None \<Rightarrow> Some UNKNOWN | Some w \<Rightarrow> if w \<in> set (sg_pids s) then Some FOCUSED else None)"

text \<open>
  The rows loaded for the poll, the index of the stretches by their span, the rows the poll adds
  and the next fresh identity.
\<close>

record poll =
  po_spans :: "game_span list"
  po_focus :: "game_focus list"
  po_by_span :: "(nat, nat) dict"
  po_new :: "(game_span + game_focus) list"
  po_fresh :: nat

definition change_span :: "nat \<Rightarrow> (game_span \<Rightarrow> game_span) \<Rightarrow> poll \<Rightarrow> poll" where
  "change_span i g p = p\<lparr>po_spans := map (\<lambda>s. if gs_id s = i then g s else s) (po_spans p)\<rparr>"

definition change_focus :: "nat \<Rightarrow> (game_focus \<Rightarrow> game_focus) \<Rightarrow> poll \<Rightarrow> poll" where
  "change_focus i g p = p\<lparr>po_focus := map (\<lambda>f. if gf_id f = i then g f else f) (po_focus p)\<rparr>"

definition end_span :: "game_span \<Rightarrow> game_span" where
  "end_span s = s\<lparr>gs_ended_at := Some (gs_last_seen_at s)\<rparr>"

definition end_focus :: "game_focus \<Rightarrow> game_focus" where
  "end_focus f = f\<lparr>gf_ended_at := Some (gf_last_seen_at f)\<rparr>"

definition close_span :: "nat \<Rightarrow> poll \<Rightarrow> poll" where
  "close_span i p =
     (let p1 = change_span i end_span p
      in case dict_get (po_by_span p1) i of
           None \<Rightarrow> p1
         | Some f \<Rightarrow> change_focus f end_focus (p1\<lparr>po_by_span := dict_del i (po_by_span p1)\<rparr>))"

definition by_key :: "game_span list \<Rightarrow> (game_key, nat) dict" where
  "by_key spans = fold (\<lambda>s. dict_set (gs_key s) (gs_id s)) spans []"

definition seen_by_key :: "sighting list \<Rightarrow> (game_key, sighting) dict" where
  "seen_by_key sightings = fold (\<lambda>s. dict_set (sg_key s) s) sightings []"

definition span_with :: "nat \<Rightarrow> poll \<Rightarrow> game_span option" where
  "span_with i p = find (\<lambda>s. gs_id s = i) (po_spans p)"

definition focus_with :: "nat \<Rightarrow> poll \<Rightarrow> game_focus option" where
  "focus_with i p = find (\<lambda>f. gf_id f = i) (po_focus p)"

definition close_stale :: "(game_key, sighting) dict \<Rightarrow> instant \<Rightarrow> int \<Rightarrow> game_key \<times> nat \<Rightarrow> poll \<Rightarrow> poll" where
  "close_stale seen now max_gap ki p =
     (case span_with (snd ki) p of
        None \<Rightarrow> p
      | Some sp \<Rightarrow> if dict_get seen (fst ki) = None \<or> max_gap < now - gs_last_seen_at sp
                     then close_span (snd ki) p else p)"

definition new_span :: "nat \<Rightarrow> sighting \<Rightarrow> instant \<Rightarrow> game_span" where
  "new_span i s now = \<lparr>gs_id = i, gs_game = sg_game s, gs_matched_by = sg_matched_by s, gs_appid = sg_appid s,
     gs_executable = sg_executable s, gs_pid = sg_pid s, gs_started_at = now, gs_last_seen_at = now, gs_ended_at = None\<rparr>"

definition new_focus :: "nat \<Rightarrow> nat \<Rightarrow> string \<Rightarrow> instant \<Rightarrow> game_focus" where
  "new_focus i sp state now = \<lparr>gf_id = i, gf_span_id = sp, gf_state = state, gf_started_at = now,
     gf_last_seen_at = now, gf_ended_at = None\<rparr>"

text \<open>The span a sighting goes to: the open one of its key, or a new one.\<close>

definition span_for :: "(game_key, nat) dict \<Rightarrow> sighting \<Rightarrow> instant \<Rightarrow> poll \<Rightarrow> nat \<times> poll" where
  "span_for keys s now p =
     (case (case dict_get keys (sg_key s) of None \<Rightarrow> None | Some i \<Rightarrow>
              (case span_with i p of Some sp \<Rightarrow> if gs_ended_at sp = None then Some i else None | None \<Rightarrow> None)) of
        Some i \<Rightarrow> (i, change_span i (\<lambda>x. x\<lparr>gs_last_seen_at := now\<rparr>) p)
      | None \<Rightarrow> (po_fresh p, p\<lparr>po_new := po_new p @ [Inl (new_span (po_fresh p) s now)], po_fresh := Suc (po_fresh p)\<rparr>))"

definition note_focus :: "nat \<Rightarrow> string option \<Rightarrow> instant \<Rightarrow> poll \<Rightarrow> poll" where
  "note_focus sp state now p =
     (let stretch = (case dict_get (po_by_span p) sp of None \<Rightarrow> None | Some f \<Rightarrow> focus_with f p)
      in case stretch of
           Some f \<Rightarrow> if Some (gf_state f) = state
                     then change_focus (gf_id f) (\<lambda>x. x\<lparr>gf_last_seen_at := now\<rparr>) p
                     else (let p1 = change_focus (gf_id f) end_focus p
                           in case state of None \<Rightarrow> p1
                              | Some st \<Rightarrow> p1\<lparr>po_new := po_new p1 @ [Inr (new_focus (po_fresh p1) sp st now)],
                                               po_fresh := Suc (po_fresh p1)\<rparr>)
         | None \<Rightarrow> (case state of None \<Rightarrow> p
                    | Some st \<Rightarrow> p\<lparr>po_new := po_new p @ [Inr (new_focus (po_fresh p) sp st now)],
                                    po_fresh := Suc (po_fresh p)\<rparr>))"

definition note_sighting :: "(game_key, nat) dict \<Rightarrow> instant \<Rightarrow> int option \<Rightarrow> game_key \<times> sighting \<Rightarrow> poll \<Rightarrow> poll" where
  "note_sighting keys now window_pid ks p =
     (case span_for keys (snd ks) now p of
        (i, p1) \<Rightarrow> note_focus i (focus_state (snd ks) window_pid) now p1)"

definition start_poll :: "nat \<Rightarrow> game_span list \<Rightarrow> game_focus list \<Rightarrow> poll" where
  "start_poll fresh spans focus =
     \<lparr>po_spans = spans, po_focus = focus, po_by_span = fold (\<lambda>f. dict_set (gf_span_id f) (gf_id f)) focus [],
      po_new = [], po_fresh = fresh\<rparr>"

definition apply_poll ::
  "nat \<Rightarrow> game_span list \<Rightarrow> game_focus list \<Rightarrow> sighting list \<Rightarrow> instant \<Rightarrow> int option \<Rightarrow> int \<Rightarrow> poll" where
  "apply_poll fresh spans focus sightings now window_pid max_gap =
     (let keys = by_key spans; seen = seen_by_key sightings
      in fold (note_sighting keys now window_pid) seen
           (fold (close_stale seen now max_gap) keys (start_poll fresh spans focus)))"

section \<open>The tables\<close>

record game_tables =
  gt_spans :: "game_span list"
  gt_focus :: "game_focus list"
  gt_fresh :: nat

definition open_spans :: "game_tables \<Rightarrow> game_span list" where
  "open_spans t = filter (\<lambda>s. gs_ended_at s = None) (gt_spans t)"

definition open_focus :: "game_tables \<Rightarrow> game_focus list" where
  "open_focus t = filter (\<lambda>f. gf_ended_at f = None) (gt_focus t)"

definition close_open_spans :: "game_tables \<Rightarrow> nat \<times> game_tables" where
  "close_open_spans t =
     (length (open_spans t),
      t\<lparr>gt_focus := map (\<lambda>f. if gf_ended_at f = None then end_focus f else f) (gt_focus t),
        gt_spans := map (\<lambda>s. if gs_ended_at s = None then end_span s else s) (gt_spans t)\<rparr>)"

text \<open>
  \<open>_execute\<close>: the changed rows are the loaded ones in their place, and the new ones are added. The
  focus probe is asked only when a game is seen.
\<close>

definition write_back :: "('a \<Rightarrow> nat) \<Rightarrow> 'a list \<Rightarrow> 'a list \<Rightarrow> 'a list" where
  "write_back key changed table =
     map (\<lambda>r. case find (\<lambda>c. key c = key r) changed of Some c \<Rightarrow> c | None \<Rightarrow> r) table"

definition lefts :: "('a + 'b) list \<Rightarrow> 'a list" where
  "lefts xs = concat (map (case_sum (\<lambda>x. [x]) (\<lambda>_. [])) xs)"

definition rights :: "('a + 'b) list \<Rightarrow> 'b list" where
  "rights xs = concat (map (case_sum (\<lambda>_. []) (\<lambda>y. [y])) xs)"

definition game_execute :: "sighting list \<Rightarrow> int option \<Rightarrow> instant \<Rightarrow> int \<Rightarrow> game_tables \<Rightarrow> agent_result \<times> game_tables" where
  "game_execute sightings probe now poll_interval_seconds t =
     (let window_pid = (if sightings = [] then None else probe);
          p = apply_poll (gt_fresh t) (open_spans t) (open_focus t) sightings now window_pid
                (poll_interval_seconds * int GAP_POLLS * 1000000);
          t' = \<lparr>gt_spans = write_back gs_id (po_spans p) (gt_spans t) @ lefts (po_new p),
                gt_focus = write_back gf_id (po_focus p) (gt_focus t) @ rights (po_new p),
                gt_fresh = po_fresh p\<rparr>
      in (\<lparr>findings_count = int (length sightings), alerts_raised = 0,
           res_details = [(''games'', JArr (map JStr (sort (map sg_game sightings)))),
             (''spans_opened'', JNum (of_nat (length (lefts (po_new p))))),
             (''focus'', if sightings = [] then JNull else if window_pid = None then JStr UNKNOWN else JStr ''known'')]\<rparr>, t'))"

section \<open>Walking the process tree\<close>

text \<open>Parent and child, as the table \<open>children\<close> has them, and everything below a set of processes.\<close>

definition parent_of :: "(int, int list) dict \<Rightarrow> (int \<times> int) set" where
  "parent_of children = {(p, c). c \<in> set (dict_get_or children p [])}"

definition below :: "(int, int list) dict \<Rightarrow> int set \<Rightarrow> int set" where
  "below children S = (parent_of children)\<^sup>* `` S"

definition all_children :: "(int, int list) dict \<Rightarrow> int set" where
  "all_children children = (\<Union>kv \<in> set children. set (snd kv))"

lemma dict_get_or_all_children: "set (dict_get_or children p []) \<subseteq> all_children children"
  by (induction children) (auto simp: all_children_def dict_get_or_def split: if_splits option.splits)

lemma below_superset: "S \<subseteq> below children S"
  by (auto simp: below_def)

lemma below_step: "p \<in> below children S \<Longrightarrow> set (dict_get_or children p []) \<subseteq> below children S"
  by (auto simp: below_def parent_of_def intro: rtrancl_into_rtrancl)

lemma below_least:
  assumes "S \<subseteq> T" "\<And>p. p \<in> T \<Longrightarrow> set (dict_get_or children p []) \<subseteq> T"
  shows "below children S \<subseteq> T"
proof
  fix x assume "x \<in> below children S"
  then obtain r where "r \<in> S" "(r, x) \<in> (parent_of children)\<^sup>*" by (auto simp: below_def)
  from this(2,1) show "x \<in> T"
    by (induction rule: rtrancl_induct) (use assms in \<open>auto simp: parent_of_def\<close>)
qed

lemma below_finite: "finite S \<Longrightarrow> finite (below children S)"
proof -
  assume "finite S"
  moreover have "below children S \<subseteq> S \<union> all_children children"
    by (rule below_least) (use dict_get_or_all_children in auto)
  moreover have "finite (all_children children)" by (simp add: all_children_def)
  ultimately show ?thesis by (meson finite_Un finite_subset)
qed

text \<open>The walk has seen part of the tree, and holds on its stack what that part still leads to.\<close>

definition walk_inv :: "(int, int list) dict \<Rightarrow> int set \<Rightarrow> int list \<Rightarrow> int list \<Rightarrow> bool" where
  "walk_inv children S stack seen \<longleftrightarrow>
     distinct seen \<and> set stack \<union> set seen \<subseteq> below children S \<and> S \<subseteq> set stack \<union> set seen \<and>
     (\<forall>p \<in> set seen. set (dict_get_or children p []) \<subseteq> set stack \<union> set seen)"

lemma walk_inv_done: "walk_inv children S [] seen \<Longrightarrow> set seen = below children S"
  using below_least [of S "set seen" children] by (auto simp: walk_inv_def)

lemma walk_inv_distinct: "walk_inv children S stack seen \<Longrightarrow> distinct seen"
  by (simp add: walk_inv_def)

lemma walk_inv_known: "walk_inv children S (rest @ [p]) seen \<Longrightarrow> p \<in> set seen \<Longrightarrow> walk_inv children S rest seen"
  by (auto simp: walk_inv_def)

lemma walk_inv_new:
  "walk_inv children S (rest @ [p]) seen \<Longrightarrow> p \<notin> set seen \<Longrightarrow>
   walk_inv children S (rest @ dict_get_or children p []) (p # seen)"
  using below_step [of p children S] by (auto simp: walk_inv_def)

lemma descendants_loop_snoc:
  "descendants_loop children (rest @ [p]) seen =
     (if p \<in> set seen then descendants_loop children rest seen
      else descendants_loop children (rest @ dict_get_or children p []) (p # seen))"
  by (subst descendants_loop.simps) (simp add: Let_def)

lemma descendants_loop_Nil: "descendants_loop children [] seen = Some seen"
  by (subst descendants_loop.simps) simp

lemma descendants_loop_returns:
  assumes "finite S" "walk_inv children S stack seen"
  shows "\<exists>R. descendants_loop children stack seen = Some R \<and> distinct R \<and> set R = below children S"
  using assms(2)
proof (induction "(stack, seen)" arbitrary: stack seen
    rule: wf_induct_rule [OF wf_measures [of "[\<lambda>x. card (below children S - set (snd x)), \<lambda>x. length (fst x)]"]])
  case 1
  show ?case
  proof (cases stack rule: rev_cases)
    case Nil
    note inv = "1.prems" [unfolded Nil]
    show ?thesis
      unfolding Nil descendants_loop_Nil using walk_inv_done [OF inv] walk_inv_distinct [OF inv] by blast
  next
    case (snoc rest p)
    note inv = "1.prems" [unfolded snoc]
    show ?thesis
    proof (cases "p \<in> set seen")
      case True
      then show ?thesis using "1.hyps" [OF _ walk_inv_known [OF inv True]] by (simp add: snoc descendants_loop_snoc)
    next
      case False
      have "card (below children S - set (p # seen)) < card (below children S - set seen)"
        using False inv by (intro psubset_card_mono) (auto simp: walk_inv_def below_finite assms(1))
      then show ?thesis using "1.hyps" [OF _ walk_inv_new [OF inv False]] False
        by (simp add: snoc descendants_loop_snoc)
    qed
  qed
qed

lemma descendants_returns:
  "\<exists>R. descendants roots children = Some R \<and> distinct R \<and> set R = below children (set roots)"
proof -
  have "walk_inv children (set roots) roots []" using below_superset by (auto simp: walk_inv_def)
  then show ?thesis
    using descendants_loop_returns [of "set roots"] by (simp add: descendants_def)
qed

text \<open>
  C39: The walk over the process tree always ends, even on a table that holds cycles, and what it
  returns is exactly the roots with everything below them, each process once.
\<close>

theorem descendants_terminates:
  "\<exists>R. descendants roots children = Some R \<and> distinct R \<and> set R = (parent_of children)\<^sup>* `` set roots"
  using descendants_returns by (simp add: below_def)

subsection \<open>What is detected\<close>

lemma those_list_all2:
  assumes "\<And>x. x \<in> set xs \<Longrightarrow> \<exists>y. f x = Some y"
  shows "\<exists>ys. those (map f xs) = Some ys \<and> list_all2 (\<lambda>x y. f x = Some y) xs ys"
proof -
  have "list_all2 (\<lambda>x y. f x = Some y) xs (map (the \<circ> f) xs)" using assms by (fastforce simp: list_all2_conv_all_nth)
  then show ?thesis using assms by (auto simp: those_total)
qed

lemma dict_wf_append [simp]: "dict_wf d \<Longrightarrow> dict_wf (dict_append k v d)"
  by (simp add: dict_append_def)

lemma dict_wf_steam_groups: "dict_wf (steam_groups ps)"
proof -
  have "dict_wf d \<Longrightarrow> dict_wf (fold (\<lambda>p d. case steam_appid (pr_argv p) of None \<Rightarrow> d | Some n \<Rightarrow> dict_append n p d) ps d)" for d
    by (induction ps arbitrary: d) (auto split: option.splits)
  then show ?thesis by (simp add: steam_groups_def)
qed

lemma dict_wf_listed_groups: "dict_wf (listed_groups comm_first games trees ps)"
proof -
  have "dict_wf d \<Longrightarrow> dict_wf (fold (\<lambda>p d. if pr_pid p \<in> set trees then d
      else case listed_name comm_first games p of None \<Rightarrow> d | Some n \<Rightarrow> dict_append n p d) ps d)" for d
    by (induction ps arbitrary: d) (auto split: option.splits)
  then show ?thesis by (simp add: listed_groups_def)
qed

lemma dict_wf_sort_key: "dict_wf d \<Longrightarrow> distinct (map fst (sort_key fst d))"
  by (simp add: dict_wf_def distinct_map)

lemma steam_sighting_key: "steam_sighting nm children x = Some y \<Longrightarrow> sg_key y = (MATCHED_BY_STEAM, Some (fst x), None)"
  by (auto simp: steam_sighting_def sg_key_def)

lemma listed_sighting_key:
  "listed_sighting games children x = Some y \<Longrightarrow> sg_key y = (MATCHED_BY_EXECUTABLE, None, Some (fst x))"
  by (auto simp: listed_sighting_def sg_key_def)

lemma list_all2_keys:
  "list_all2 (\<lambda>x y. f x = Some y) xs ys \<Longrightarrow> (\<And>x y. f x = Some y \<Longrightarrow> key y = h (fst x)) \<Longrightarrow> map key ys = map h (map fst xs)"
  by (induction rule: list_all2_induct) auto

lemma detect_games_returns: "\<exists>ss. detect_games comm_first ps games steam_name = Some ss \<and> distinct (map sg_key ss)"
proof -
  let ?ch = "children_of ps"
  have "\<exists>y. steam_sighting steam_name ?ch x = Some y" for x
    using descendants_returns [of "map pr_pid (snd x)" ?ch] by (auto simp: steam_sighting_def)
  then obtain steam where st: "those (map (steam_sighting steam_name ?ch) (sort_key fst (steam_groups ps))) = Some steam"
    "list_all2 (\<lambda>x y. steam_sighting steam_name ?ch x = Some y) (sort_key fst (steam_groups ps)) steam"
    using those_list_all2 by metis
  let ?li = "listed_groups comm_first games (concat (map sg_pids steam)) ps"
  have "\<exists>y. listed_sighting games ?ch x = Some y" for x
    using descendants_returns [of "map pr_pid (snd x)" ?ch] by (auto simp: listed_sighting_def)
  then obtain listed where li: "those (map (listed_sighting games ?ch) (sort_key fst ?li)) = Some listed"
    "list_all2 (\<lambda>x y. listed_sighting games ?ch x = Some y) (sort_key fst ?li) listed"
    using those_list_all2 by metis
  have "map sg_key steam = map (\<lambda>n. (MATCHED_BY_STEAM, Some n, None)) (map fst (sort_key fst (steam_groups ps)))"
    by (rule list_all2_keys [OF st(2)]) (simp add: steam_sighting_key)
  moreover have "map sg_key listed = map (\<lambda>n. (MATCHED_BY_EXECUTABLE, None, Some n)) (map fst (sort_key fst ?li))"
    by (rule list_all2_keys [OF li(2)]) (simp add: listed_sighting_key)
  ultimately have "distinct (map sg_key (steam @ listed))"
    using dict_wf_sort_key [OF dict_wf_steam_groups] dict_wf_sort_key [OF dict_wf_listed_groups]
    by (auto simp: distinct_map inj_on_def simp del: map_map)
  with st(1) li(1) show ?thesis by (simp add: detect_games_def Let_def)
qed

section \<open>What a poll leaves behind\<close>

subsection \<open>The spans it closes\<close>

text \<open>The rows a poll starts from: the open ones, each of its own game, the stretches each of its own span.\<close>

definition rows_apart :: "game_span list \<Rightarrow> game_focus list \<Rightarrow> bool" where
  "rows_apart spans focus \<longleftrightarrow>
     distinct (map gs_id spans) \<and> distinct (map gs_key spans) \<and>
     distinct (map gf_id focus) \<and> distinct (map gf_span_id focus)"

definition focus_index :: "game_focus list \<Rightarrow> (nat, nat) dict" where
  "focus_index focus = map (\<lambda>f. (gf_span_id f, gf_id f)) focus"

definition closing :: "game_span list \<Rightarrow> game_focus list \<Rightarrow> nat \<Rightarrow> nat set \<Rightarrow> poll" where
  "closing spans focus n D =
     \<lparr>po_spans = map (\<lambda>s. if gs_id s \<in> D then end_span s else s) spans,
      po_focus = map (\<lambda>f. if gf_span_id f \<in> D then end_focus f else f) focus,
      po_by_span = filter (\<lambda>x. fst x \<notin> D) (focus_index focus), po_new = [], po_fresh = n\<rparr>"

definition stale :: "(game_key, sighting) dict \<Rightarrow> instant \<Rightarrow> int \<Rightarrow> game_span \<Rightarrow> bool" where
  "stale seen now max_gap s \<longleftrightarrow> dict_get seen (gs_key s) = None \<or> max_gap < now - gs_last_seen_at s"

lemma end_span_keeps [simp]:
  "gs_id (end_span s) = gs_id s" "gs_key (end_span s) = gs_key s" "gs_last_seen_at (end_span s) = gs_last_seen_at s"
  "gs_ended_at (end_span s) = Some (gs_last_seen_at s)" "end_span (end_span s) = end_span s"
  by (simp_all add: end_span_def gs_key_def)

lemma end_focus_keeps [simp]:
  "gf_id (end_focus f) = gf_id f" "gf_span_id (end_focus f) = gf_span_id f" "gf_state (end_focus f) = gf_state f"
  "gf_last_seen_at (end_focus f) = gf_last_seen_at f"
  "gf_ended_at (end_focus f) = Some (gf_last_seen_at f)" "end_focus (end_focus f) = end_focus f"
  by (simp_all add: end_focus_def)

lemma gs_key_last_seen [simp]: "gs_key (s\<lparr>gs_last_seen_at := t\<rparr>) = gs_key s"
  by (simp add: gs_key_def)

lemma map_key_eq: "distinct (map k xs) \<Longrightarrow> x \<in> set xs \<Longrightarrow> y \<in> set xs \<Longrightarrow> k x = k y \<longleftrightarrow> x = y"
  by (auto dest: distinct_map [THEN iffD1] simp: inj_on_def)

lemma find_by_key: "distinct (map k xs) \<Longrightarrow> x \<in> set xs \<Longrightarrow> find (\<lambda>y. k y = k x) xs = Some x"
  by (induction xs) (auto simp: image_iff)

lemma start_poll_closing: "rows_apart spans focus \<Longrightarrow> start_poll n spans focus = closing spans focus n {}"
  by (simp add: start_poll_def closing_def focus_index_def rows_apart_def fold_dict_set_distinct)

lemma closing_index:
  assumes "rows_apart spans focus" "f \<in> set focus" "gf_span_id f \<notin> D"
  shows "dict_get (po_by_span (closing spans focus n D)) (gf_span_id f) = Some (gf_id f)"
proof -
  have "dict_wf (po_by_span (closing spans focus n D))"
    using assms(1) by (auto simp: dict_wf_def closing_def focus_index_def rows_apart_def filter_map comp_def
        intro: distinct_map_filter)
  moreover have "(gf_span_id f, gf_id f) \<in> set (po_by_span (closing spans focus n D))"
    using assms by (auto simp: closing_def focus_index_def)
  ultimately show ?thesis by (simp add: dict_wf_def dict_get_def)
qed

lemma closing_index_None:
  "i \<notin> gf_span_id ` set focus \<Longrightarrow> dict_get (po_by_span (closing spans focus n D)) i = None"
  by (force simp: dict_get_def closing_def focus_index_def map_of_eq_None_iff)

lemma close_span_closing:
  assumes ap: "rows_apart spans focus" and s: "s \<in> set spans" and i: "i = gs_id s" "i \<notin> D"
  shows "close_span i (closing spans focus n D) = closing spans focus n (insert i D)"
proof (cases "i \<in> gf_span_id ` set focus")
  case True
  then obtain f where f: "f \<in> set focus" "gf_span_id f = i" by auto
  have same: "gf_id g = gf_id f \<longleftrightarrow> gf_span_id g = i" if "g \<in> set focus" for g
    using f that ap map_key_eq [of gf_id focus g f] map_key_eq [of gf_span_id focus g f]
    by (auto simp: rows_apart_def)
  have "dict_get (filter (\<lambda>x. fst x \<notin> D) (focus_index focus)) i = Some (gf_id f)"
    using closing_index [OF ap f(1), of D n] f(2) i(2) by (simp add: closing_def)
  moreover have "dict_del i (filter (\<lambda>x. fst x \<notin> D) (focus_index focus)) = filter (\<lambda>x. fst x \<notin> insert i D) (focus_index focus)"
    by (auto simp: dict_del_def AList.delete_eq split_def intro!: filter_cong)
  ultimately show ?thesis
    by (simp add: close_span_def Let_def change_span_def change_focus_def closing_def same)
next
  case False
  then have "filter (\<lambda>x. fst x \<notin> insert i D) (focus_index focus) = filter (\<lambda>x. fst x \<notin> D) (focus_index focus)"
    by (auto simp: focus_index_def intro!: filter_cong)
  with False show ?thesis using closing_index_None [OF False, of spans n D]
    by (auto simp: close_span_def Let_def change_span_def closing_def)
qed

lemma close_stale_closing:
  assumes ap: "rows_apart spans focus" and s: "s \<in> set spans" and i: "gs_id s \<notin> D"
  shows "close_stale seen now max_gap (gs_key s, gs_id s) (closing spans focus n D) =
         closing spans focus n (if stale seen now max_gap s then insert (gs_id s) D else D)"
proof -
  have "span_with (gs_id s) (closing spans focus n D) = Some s"
    using ap s i find_by_key [of gs_id "po_spans (closing spans focus n D)" s]
    by (auto simp: span_with_def closing_def rows_apart_def comp_def if_distrib [of gs_id] cong: if_cong
        intro!: image_eqI [of _ _ s])
  then show ?thesis using close_span_closing [OF ap s refl i]
    by (simp add: close_stale_def stale_def)
qed

lemma close_stale_all:
  assumes ap: "rows_apart spans focus" and "set xs \<subseteq> set spans" "distinct (map gs_id xs)" "gs_id ` set xs \<inter> D = {}"
  shows "fold (close_stale seen now max_gap) (map (\<lambda>s. (gs_key s, gs_id s)) xs) (closing spans focus n D) =
         closing spans focus n (D \<union> gs_id ` {s \<in> set xs. stale seen now max_gap s})"
  using assms(2-)
proof (induction xs arbitrary: D)
  case (Cons s xs)
  let ?D = "if stale seen now max_gap s then insert (gs_id s) D else D"
  have "D \<union> gs_id ` {s' \<in> set (s # xs). stale seen now max_gap s'} =
        ?D \<union> gs_id ` {s' \<in> set xs. stale seen now max_gap s'}" by auto
  with Cons show ?case using close_stale_closing [OF ap, of s D] by simp
qed simp

subsection \<open>The rows it adds\<close>

definition stretch :: "game_focus \<Rightarrow> nat \<times> string" where
  "stretch f = (gf_span_id f, gf_state f)"

text \<open>
  The stretches that are due: one for each span of \<open>A\<close> whose game was looked at (\<open>K\<close>) and has a state,
  unless the span already carries one of that state (\<open>C\<close>).
\<close>

definition due :: "(game_key \<Rightarrow> string option) \<Rightarrow> (nat \<times> string) set \<Rightarrow> game_span set \<Rightarrow> game_key set \<Rightarrow> (nat \<times> string) set" where
  "due g C A K = {(gs_id s, st) | s st. s \<in> A \<and> gs_key s \<in> K \<and> g (gs_key s) = Some st} - C"

definition new_inv ::
  "instant \<Rightarrow> (game_key \<Rightarrow> string option) \<Rightarrow> game_span set \<Rightarrow> (nat \<times> string) set \<Rightarrow> nat \<Rightarrow> game_key set \<Rightarrow>
   nat \<Rightarrow> game_span list \<Rightarrow> game_focus list \<Rightarrow> bool" where
  "new_inv now g A C n K m L R \<longleftrightarrow>
     n \<le> m \<and> distinct (map gs_id L) \<and> gs_id ` set L \<subseteq> {n..<m} \<and>
     distinct (map gs_key L) \<and> gs_key ` set L = K - gs_key ` A \<and>
     (\<forall>s \<in> set L. gs_started_at s = now \<and> gs_last_seen_at s = now \<and> gs_ended_at s = None) \<and>
     distinct (map gf_id R) \<and> gf_id ` set R \<subseteq> {n..<m} \<and> distinct (map gf_span_id R) \<and>
     (\<forall>f \<in> set R. gf_started_at f = now \<and> gf_last_seen_at f = now \<and> gf_ended_at f = None) \<and>
     stretch ` set R = due g C (A \<union> set L) K"

definition fresh_focus ::
  "(game_key \<Rightarrow> string option) \<Rightarrow> (nat \<times> string) set \<Rightarrow> nat \<Rightarrow> nat \<Rightarrow> game_key \<Rightarrow> instant \<Rightarrow> game_focus list" where
  "fresh_focus g C m i k now =
     (case g k of None \<Rightarrow> [] | Some st \<Rightarrow> if (i, st) \<in> C then [] else [new_focus m i st now])"

text \<open>What the proofs use of the spans that go on: each has an old identity and a key of its own.\<close>

definition alive_ok :: "nat \<Rightarrow> game_span set \<Rightarrow> bool" where
  "alive_ok n A \<longleftrightarrow> inj_on gs_id A \<and> inj_on gs_key A \<and> gs_id ` A \<subseteq> {..<n}"

lemma stretch_fresh_focus:
  "stretch ` set (fresh_focus g C m i k now) = {(i, st) | st. g k = Some st} - C"
  by (cases "g k") (auto simp: fresh_focus_def stretch_def new_focus_def)

lemma due_insert:
  assumes "inj_on gs_key A" "s \<in> A"
  shows "due g C A (insert (gs_key s) K) = due g C A K \<union> ({(gs_id s, st) | st. g (gs_key s) = Some st} - C)"
  using assms by (auto simp: due_def dest: inj_onD)

lemma due_grow: "gs_key s \<notin> K \<Longrightarrow> due g C (insert s A) K = due g C A K"
  by (auto simp: due_def)

lemma due_ids: "(i, st) \<in> due g C A K \<Longrightarrow> \<exists>s \<in> A. gs_id s = i \<and> gs_key s \<in> K"
  by (auto simp: due_def)

lemma due_carried: "x \<in> due g C A K \<Longrightarrow> x \<notin> C"
  by (simp add: due_def)

lemma due_state: "(i, st) \<in> due g C A K \<Longrightarrow> \<exists>s \<in> A. gs_id s = i \<and> g (gs_key s) = Some st"
  by (auto simp: due_def)

lemma fresh_focus_fields:
  "f \<in> set (fresh_focus g C m i k now) \<Longrightarrow>
   gf_id f = m \<and> gf_span_id f = i \<and> gf_started_at f = now \<and> gf_last_seen_at f = now \<and> gf_ended_at f = None"
  by (auto simp: fresh_focus_def new_focus_def split: option.splits if_splits)

lemma fresh_focus_length: "fresh_focus g C m i k now = [] \<or> (\<exists>f. fresh_focus g C m i k now = [f])"
  by (auto simp: fresh_focus_def split: option.splits)

lemma new_inv_keys: "new_inv now g A C n K m L R \<Longrightarrow> alive_ok n A \<Longrightarrow> inj_on gs_key (A \<union> set L)"
  by (auto simp: new_inv_def alive_ok_def inj_on_Un distinct_map)

lemma new_inv_ids: "new_inv now g A C n K m L R \<Longrightarrow> alive_ok n A \<Longrightarrow> inj_on gs_id (A \<union> set L)"
  by (fastforce simp: new_inv_def alive_ok_def inj_on_Un distinct_map)

lemma new_inv_owner:
  assumes "new_inv now g A C n K m L R" "f \<in> set R"
  shows "\<exists>s \<in> A \<union> set L. gs_id s = gf_span_id f \<and> gs_key s \<in> K"
proof -
  have "stretch f \<in> due g C (A \<union> set L) K" using assms by (auto simp: new_inv_def)
  then show ?thesis unfolding stretch_def by (rule due_ids)
qed

lemma new_inv_no_stretch:
  assumes "new_inv now g A C n K m L R" "alive_ok n A" "s \<in> A \<union> set L" "gs_key s \<notin> K"
  shows "gs_id s \<notin> gf_span_id ` set R"
proof
  assume "gs_id s \<in> gf_span_id ` set R"
  then obtain s' where s': "s' \<in> A \<union> set L" "gs_id s' = gs_id s" "gs_key s' \<in> K"
    using new_inv_owner [OF assms(1)] by fastforce
  with new_inv_ids [OF assms(1,2)] assms(3,4) show False by (auto dest: inj_onD)
qed

lemma new_inv_alive:
  assumes inv: "new_inv now g A C n K m L R" and ok: "alive_ok n A" and s: "s \<in> A" "gs_key s \<notin> K"
  defines "nf \<equiv> fresh_focus g C m (gs_id s) (gs_key s) now"
  shows "new_inv now g A C n (insert (gs_key s) K) (m + length nf) L (R @ nf)"
proof -
  have "stretch ` set (R @ nf) = due g C (A \<union> set L) (insert (gs_key s) K)"
    using inv s due_insert [OF new_inv_keys [OF inv ok], of s] stretch_fresh_focus [of g C m "gs_id s" "gs_key s" now]
    by (simp add: nf_def new_inv_def image_Un)
  moreover have "gs_id s \<notin> gf_span_id ` set R" using new_inv_no_stretch [OF inv ok] s by simp
  ultimately show ?thesis
    using inv s fresh_focus_length [of g C m "gs_id s" "gs_key s" now] fresh_focus_fields [of _ g C m "gs_id s" "gs_key s" now]
    unfolding new_inv_def nf_def [symmetric] by (elim disjE exE) (auto simp: less_Suc_eq)
qed

lemma new_inv_fresh:
  assumes inv: "new_inv now g A C n K m L R" and ok: "alive_ok n A" and k: "sg_key sg \<notin> K" "sg_key sg \<notin> gs_key ` A"
  defines "nf \<equiv> fresh_focus g C (Suc m) m (sg_key sg) now"
  shows "new_inv now g A C n (insert (sg_key sg) K) (Suc m + length nf) (L @ [new_span m sg now]) (R @ nf)"
proof -
  let ?s = "new_span m sg now"
  have s: "gs_id ?s = m" "gs_key ?s = sg_key sg" "gs_started_at ?s = now" "gs_last_seen_at ?s = now" "gs_ended_at ?s = None"
    by (simp_all add: new_span_def gs_key_def sg_key_def)
  have A: "\<forall>x \<in> A. gs_key x \<noteq> sg_key sg" using k(2) by (metis imageI)
  have L: "sg_key sg \<notin> gs_key ` set L" using inv k by (auto simp: new_inv_def)
  have inj: "inj_on gs_key (insert ?s (A \<union> set L))"
    using new_inv_keys [OF inv ok] k(2) L s by (auto simp: image_iff)
  have "stretch ` set (R @ nf) = due g C (insert ?s (A \<union> set L)) (insert (sg_key sg) K)"
    using inv k due_insert [OF inj, of ?s] stretch_fresh_focus [of g C "Suc m" m "sg_key sg" now] due_grow [of ?s K]
    by (simp add: nf_def new_inv_def image_Un s)
  moreover have "m \<notin> gf_span_id ` set R"
    using new_inv_owner [OF inv] inv ok by (fastforce simp: new_inv_def alive_ok_def)
  moreover have "m \<notin> gf_id ` set R" "Suc m \<notin> gf_id ` set R" "m \<notin> gs_id ` set L" using inv by (auto simp: new_inv_def)
  ultimately show ?thesis
    using inv A L fresh_focus_length [of g C "Suc m" m "sg_key sg" now] fresh_focus_fields [of _ g C "Suc m" m "sg_key sg" now]
    unfolding new_inv_def nf_def [symmetric] by (elim disjE exE) (auto simp: less_Suc_eq s)
qed

subsection \<open>The rows it looks at\<close>

definition start_ok :: "game_span list \<Rightarrow> game_focus list \<Rightarrow> nat \<Rightarrow> bool" where
  "start_ok spans focus n \<longleftrightarrow> rows_apart spans focus \<and>
     (\<forall>s \<in> set spans. gs_ended_at s = None \<and> gs_id s < n) \<and>
     (\<forall>f \<in> set focus. gf_ended_at f = None \<and> gf_id f < n \<and> gf_span_id f \<in> gs_id ` set spans)"

text \<open>A loaded row once the keys in \<open>K\<close> have been looked at; \<open>z\<close> says which spans are stale, \<open>g\<close> the state of a game.\<close>

definition loaded_span :: "(game_span \<Rightarrow> bool) \<Rightarrow> instant \<Rightarrow> game_key set \<Rightarrow> game_span \<Rightarrow> game_span" where
  "loaded_span z now K s = (if z s then end_span s else if gs_key s \<in> K then s\<lparr>gs_last_seen_at := now\<rparr> else s)"

definition loaded_focus ::
  "(game_span \<Rightarrow> bool) \<Rightarrow> instant \<Rightarrow> (game_key \<Rightarrow> string option) \<Rightarrow> game_span list \<Rightarrow> game_key set \<Rightarrow> game_focus \<Rightarrow> game_focus" where
  "loaded_focus z now g spans K f =
     (case find (\<lambda>s. gs_id s = gf_span_id f) spans of
        None \<Rightarrow> f
      | Some s \<Rightarrow> if z s then end_focus f else if gs_key s \<notin> K then f
                  else if g (gs_key s) = Some (gf_state f) then f\<lparr>gf_last_seen_at := now\<rparr> else end_focus f)"

definition poll_inv ::
  "(game_span \<Rightarrow> bool) \<Rightarrow> instant \<Rightarrow> (game_key \<Rightarrow> string option) \<Rightarrow> game_span list \<Rightarrow> game_focus list \<Rightarrow> nat \<Rightarrow> game_key set \<Rightarrow> poll \<Rightarrow> bool" where
  "poll_inv z now g spans focus n K p \<longleftrightarrow>
     po_spans p = map (loaded_span z now K) spans \<and>
     po_focus p = map (loaded_focus z now g spans K) focus \<and>
     (\<forall>s \<in> set spans. \<not> z s \<longrightarrow> dict_get (po_by_span p) (gs_id s) = dict_get (focus_index focus) (gs_id s)) \<and>
     (\<forall>i \<ge> n. dict_get (po_by_span p) i = None) \<and>
     new_inv now g {s \<in> set spans. \<not> z s} (stretch ` set focus) n K (po_fresh p) (lefts (po_new p)) (rights (po_new p))"

lemma loaded_span_keeps [simp]:
  "gs_id (loaded_span z now K s) = gs_id s" "gs_key (loaded_span z now K s) = gs_key s"
  by (simp_all add: loaded_span_def)

lemma loaded_focus_keeps [simp]:
  "gf_id (loaded_focus z now g spans K f) = gf_id f" "gf_span_id (loaded_focus z now g spans K f) = gf_span_id f"
  "gf_state (loaded_focus z now g spans K f) = gf_state f"
  by (simp_all add: loaded_focus_def split: option.splits)

lemma lefts_rights_simps [simp]:
  "lefts [] = []" "rights [] = []" "lefts (xs @ ys) = lefts xs @ lefts ys" "rights (xs @ ys) = rights xs @ rights ys"
  "lefts (Inl a # xs) = a # lefts xs" "rights (Inl a # xs) = rights xs"
  "lefts (map Inr bs) = []" "rights (map Inr bs) = bs"
  by (simp_all add: lefts_def rights_def comp_def)

lemma start_ok_alive: "start_ok spans focus n \<Longrightarrow> alive_ok n {s \<in> set spans. \<not> z s}"
  by (auto simp: start_ok_def rows_apart_def alive_ok_def distinct_map intro: inj_on_subset)

lemma start_ok_owner:
  assumes "start_ok spans focus n" "s \<in> set spans" "gs_id s = gf_span_id f"
  shows "find (\<lambda>s. gs_id s = gf_span_id f) spans = Some s"
  using assms find_by_key [of gs_id spans s] by (simp add: start_ok_def rows_apart_def)

lemma start_ok_owned:
  assumes "start_ok spans focus n" "f \<in> set focus"
  obtains s where "s \<in> set spans" "gs_id s = gf_span_id f" "find (\<lambda>s. gs_id s = gf_span_id f) spans = Some s"
proof -
  have "gf_span_id f \<in> gs_id ` set spans" using assms by (simp add: start_ok_def)
  then obtain s where "s \<in> set spans" "gf_span_id f = gs_id s" by (rule imageE)
  then show thesis using start_ok_owner [OF assms(1), of s f] that by simp
qed

lemma loaded_focus_other:
  assumes "start_ok spans focus n" "s \<in> set spans" "f \<in> set focus" "gf_span_id f \<noteq> gs_id s"
  shows "loaded_focus z now g spans (insert (gs_key s) K) f = loaded_focus z now g spans K f"
proof -
  obtain s' where s': "s' \<in> set spans" "gs_id s' = gf_span_id f" "find (\<lambda>s. gs_id s = gf_span_id f) spans = Some s'"
    using start_ok_owned [OF assms(1,3)] .
  then have "gs_key s' \<noteq> gs_key s"
    using assms map_key_eq [of gs_key spans s' s] by (auto simp: start_ok_def rows_apart_def)
  with s' show ?thesis by (simp add: loaded_focus_def)
qed

lemma loaded_absent:
  assumes "\<forall>s \<in> set spans. \<not> z s \<longrightarrow> gs_key s \<noteq> k"
  shows "map (loaded_span z now (insert k K)) spans = map (loaded_span z now K) spans"
    and "map (loaded_focus z now g spans (insert k K)) focus = map (loaded_focus z now g spans K) focus"
proof -
  show "map (loaded_span z now (insert k K)) spans = map (loaded_span z now K) spans"
    using assms by (auto simp: loaded_span_def)
  have "z s \<or> gs_key s \<noteq> k" if "find (\<lambda>s. gs_id s = gf_span_id f) spans = Some s" for f s
    using assms that by (metis (mono_tags, lifting) find_Some_iff nth_mem)
  then show "map (loaded_focus z now g spans (insert k K)) focus = map (loaded_focus z now g spans K) focus"
    by (force simp: loaded_focus_def split: option.splits)
qed

subsection \<open>One sighting\<close>

lemma span_for_alive:
  assumes ok: "start_ok spans focus n" and inv: "poll_inv z now g spans focus n K p"
    and s: "s \<in> set spans" "\<not> z s" "gs_key s \<notin> K" "sg_key sg = gs_key s"
  shows "span_for (map (\<lambda>s. (gs_key s, gs_id s)) spans) sg now p =
         (gs_id s, p\<lparr>po_spans := map (loaded_span z now (insert (gs_key s) K)) spans\<rparr>)"
proof -
  have ap: "distinct (map gs_key spans)" "distinct (map gs_id spans)" using ok by (auto simp: start_ok_def rows_apart_def)
  have key: "dict_get (map (\<lambda>s. (gs_key s, gs_id s)) spans) (gs_key s) = Some (gs_id s)"
    using ap s(1) by (auto simp: dict_get_def comp_def intro!: map_of_is_SomeI)
  have "find (\<lambda>x. gs_id x = gs_id (loaded_span z now K s)) (po_spans p) = Some (loaded_span z now K s)"
    using inv s(1) ap by (intro find_by_key) (auto simp: poll_inv_def comp_def)
  then have sp: "span_with (gs_id s) p = Some s" using s by (simp add: span_with_def loaded_span_def)
  have "map (\<lambda>x. if gs_id x = gs_id s then x\<lparr>gs_last_seen_at := now\<rparr> else x) (po_spans p) =
        map (loaded_span z now (insert (gs_key s) K)) spans"
    using inv s map_key_eq [OF ap(1), of _ s] map_key_eq [OF ap(2), of _ s]
    by (auto simp: poll_inv_def loaded_span_def)
  moreover have "gs_ended_at s = None" using ok s by (simp add: start_ok_def)
  ultimately show ?thesis using key sp s(4) by (simp add: span_for_def change_span_def)
qed

lemma focus_index_Some:
  assumes "start_ok spans focus n" "f \<in> set focus"
  shows "dict_get (focus_index focus) (gf_span_id f) = Some (gf_id f)"
  using assms by (auto simp: dict_get_def focus_index_def start_ok_def rows_apart_def comp_def intro!: map_of_is_SomeI)

lemma focus_index_None: "i \<notin> gf_span_id ` set focus \<Longrightarrow> dict_get (focus_index focus) i = None"
  by (force simp: dict_get_def focus_index_def map_of_eq_None_iff)

lemma note_focus_alive:
  assumes ok: "start_ok spans focus n" and s: "s \<in> set spans" "\<not> z s" "gs_key s \<notin> K"
    and fo: "po_focus p = map (loaded_focus z now g spans K) focus"
    and ix: "dict_get (po_by_span p) (gs_id s) = dict_get (focus_index focus) (gs_id s)"
  defines "nf \<equiv> fresh_focus g (stretch ` set focus) (po_fresh p) (gs_id s) (gs_key s) now"
  shows "note_focus (gs_id s) (g (gs_key s)) now p =
         p\<lparr>po_focus := map (loaded_focus z now g spans (insert (gs_key s) K)) focus,
           po_new := po_new p @ map Inr nf, po_fresh := po_fresh p + length nf\<rparr>"
proof (cases "gs_id s \<in> gf_span_id ` set focus")
  case False
  then have "map (loaded_focus z now g spans (insert (gs_key s) K)) focus = po_focus p"
    unfolding fo by (intro map_cong refl loaded_focus_other [OF ok s(1)]) (use False in \<open>auto simp: image_iff\<close>)
  moreover have "(gs_id s, st) \<notin> stretch ` set focus" for st using False by (auto simp: stretch_def)
  ultimately show ?thesis using focus_index_None [OF False]
    by (auto simp: note_focus_def ix nf_def fresh_focus_def split: option.splits)
next
  case True
  then obtain f where f: "f \<in> set focus" "gf_span_id f = gs_id s" by auto
  have ap: "distinct (map gf_id focus)" "distinct (map gf_span_id focus)" using ok by (auto simp: start_ok_def rows_apart_def)
  have own: "find (\<lambda>x. gs_id x = gf_span_id f) spans = Some s" by (rule start_ok_owner [OF ok s(1) f(2) [symmetric]])
  then have keep: "loaded_focus z now g spans K f = f" using s by (simp add: loaded_focus_def)
  have "find (\<lambda>x. gf_id x = gf_id (loaded_focus z now g spans K f)) (po_focus p) = Some (loaded_focus z now g spans K f)"
    using f(1) ap by (intro find_by_key) (auto simp: fo comp_def)
  then have fw: "focus_with (gf_id f) p = Some f" by (simp add: focus_with_def keep)
  have by_id: "(gf_id x = gf_id f) = (x = f)" "(gf_span_id x = gs_id s) = (x = f)" if "x \<in> set focus" for x
    using that f ap map_key_eq [of gf_id focus x f] map_key_eq [of gf_span_id focus x f] by auto
  have ch: "map (\<lambda>x. if gf_id x = gf_id f then h x else x) (po_focus p) = map (loaded_focus z now g spans (insert (gs_key s) K)) focus"
    if "h f = loaded_focus z now g spans (insert (gs_key s) K) f" for h
    using that keep by_id loaded_focus_other [OF ok s(1), of _ z now g K] by (auto simp: fo)
  have carried: "((gs_id s, st) \<in> stretch ` set focus) = (gf_state f = st)" for st
    using f by_id(2) by (force simp: stretch_def image_iff)
  show ?thesis
    using focus_index_Some [OF ok f(1)] fw own s(2) f(2) ch [of "\<lambda>x. x\<lparr>gf_last_seen_at := now\<rparr>"] ch [of end_focus]
    by (auto simp: note_focus_def ix nf_def fresh_focus_def change_focus_def loaded_focus_def carried split: option.splits)
qed

lemma note_sighting_alive:
  assumes ok: "start_ok spans focus n" and inv: "poll_inv z now g spans focus n K p"
    and s: "s \<in> set spans" "\<not> z s" "gs_key s \<notin> K" "sg_key sg = gs_key s" and g: "g (gs_key s) = focus_state sg w"
  shows "poll_inv z now g spans focus n (insert (sg_key sg) K)
           (note_sighting (map (\<lambda>s. (gs_key s, gs_id s)) spans) now w (sg_key sg, sg) p)"
proof -
  let ?p = "p\<lparr>po_spans := map (loaded_span z now (insert (gs_key s) K)) spans\<rparr>"
  have "note_sighting (map (\<lambda>s. (gs_key s, gs_id s)) spans) now w (sg_key sg, sg) p = note_focus (gs_id s) (g (gs_key s)) now ?p"
    using span_for_alive [OF ok inv s] g by (simp add: note_sighting_def)
  moreover have "po_focus ?p = map (loaded_focus z now g spans K) focus"
    and "dict_get (po_by_span ?p) (gs_id s) = dict_get (focus_index focus) (gs_id s)"
    using inv s by (auto simp: poll_inv_def)
  note note_focus_alive [OF ok s(1-3) this]
  moreover have "new_inv now g {s \<in> set spans. \<not> z s} (stretch ` set focus) n K (po_fresh p) (lefts (po_new p)) (rights (po_new p))"
    using inv by (simp add: poll_inv_def)
  note new_inv_alive [OF this start_ok_alive [OF ok], of s]
  ultimately show ?thesis using inv s by (simp add: poll_inv_def)
qed

lemma note_sighting_fresh:
  assumes ok: "start_ok spans focus n" and inv: "poll_inv z now g spans focus n K p"
    and k: "\<forall>s \<in> set spans. \<not> z s \<longrightarrow> gs_key s \<noteq> sg_key sg" "sg_key sg \<notin> K" and g: "g (sg_key sg) = focus_state sg w"
  shows "poll_inv z now g spans focus n (insert (sg_key sg) K)
           (note_sighting (map (\<lambda>s. (gs_key s, gs_id s)) spans) now w (sg_key sg, sg) p)"
proof -
  let ?C = "stretch ` set focus" and ?m = "po_fresh p"
  have new: "new_inv now g {s \<in> set spans. \<not> z s} ?C n K ?m (lefts (po_new p)) (rights (po_new p))"
    using inv by (simp add: poll_inv_def)
  then have m: "n \<le> ?m" by (simp add: new_inv_def)
  have C: "(?m, st) \<notin> ?C" for st using ok m by (fastforce simp: start_ok_def stretch_def)
  have stop: "gs_ended_at x \<noteq> None"
    if key: "dict_get (map (\<lambda>s. (gs_key s, gs_id s)) spans) (sg_key sg) = Some i" and x: "span_with i p = Some x" for i x
  proof -
    obtain s where s: "s \<in> set spans" "gs_key s = sg_key sg" "gs_id s = i"
      using key by (auto simp: dict_get_def dest!: map_of_SomeD)
    have "x \<in> loaded_span z now K ` set spans" "gs_id x = i"
      using x inv by (simp_all add: span_with_def find_Some_iff poll_inv_def) auto
    then obtain s' where "s' \<in> set spans" "x = loaded_span z now K s'" "gs_id s' = i" by (metis imageE loaded_span_keeps(1))
    then have "x = loaded_span z now K s" using s ok map_key_eq [of gs_id spans s' s] by (auto simp: start_ok_def rows_apart_def)
    with s k show ?thesis by (auto simp: loaded_span_def)
  qed
  have sf: "span_for (map (\<lambda>s. (gs_key s, gs_id s)) spans) sg now p =
      (?m, p\<lparr>po_new := po_new p @ [Inl (new_span ?m sg now)], po_fresh := Suc ?m\<rparr>)"
    using stop by (fastforce simp: span_for_def split: option.splits)
  have fresh_ix: "dict_get (po_by_span p) ?m = None" using inv m by (simp add: poll_inv_def)
  let ?nf = "fresh_focus g ?C (Suc ?m) ?m (sg_key sg) now"
  have "note_sighting (map (\<lambda>s. (gs_key s, gs_id s)) spans) now w (sg_key sg, sg) p =
        p\<lparr>po_new := po_new p @ Inl (new_span ?m sg now) # map Inr ?nf, po_fresh := Suc ?m + length ?nf\<rparr>"
    using fresh_ix C by (auto simp: note_sighting_def sf note_focus_def fresh_focus_def g [symmetric] split: option.splits)
  moreover have "sg_key sg \<notin> gs_key ` {s \<in> set spans. \<not> z s}" using k by auto
  note new_inv_fresh [OF new start_ok_alive [OF ok] k(2) this]
  ultimately show ?thesis using inv loaded_absent [OF k(1)] by (simp add: poll_inv_def)
qed

lemma note_sightings:
  assumes ok: "start_ok spans focus n" and "poll_inv z now g spans focus n K p"
    and "distinct (map sg_key xs)" "sg_key ` set xs \<inter> K = {}" "\<forall>sg \<in> set xs. g (sg_key sg) = focus_state sg w"
  shows "poll_inv z now g spans focus n (K \<union> sg_key ` set xs)
           (fold (note_sighting (map (\<lambda>s. (gs_key s, gs_id s)) spans) now w) (map (\<lambda>sg. (sg_key sg, sg)) xs) p)"
  using assms(2-)
proof (induction xs arbitrary: K p)
  case (Cons sg xs)
  let ?p = "note_sighting (map (\<lambda>s. (gs_key s, gs_id s)) spans) now w (sg_key sg, sg) p"
  have "poll_inv z now g spans focus n (insert (sg_key sg) K) ?p"
  proof (cases "\<exists>s \<in> set spans. \<not> z s \<and> gs_key s = sg_key sg")
    case True
    then obtain s where s: "s \<in> set spans" "\<not> z s" "sg_key sg = gs_key s" by auto
    then show ?thesis using note_sighting_alive [OF ok Cons.prems(1) s(1,2) _ s(3)] Cons.prems by simp
  next
    case False
    with Cons.prems(3,4) show ?thesis by (intro note_sighting_fresh [OF ok Cons.prems(1)]) auto
  qed
  then show ?case using Cons.IH [of "insert (sg_key sg) K" ?p] Cons.prems by simp
qed simp

definition state_of :: "sighting list \<Rightarrow> int option \<Rightarrow> game_key \<Rightarrow> string option" where
  "state_of ss w k = (case find (\<lambda>s. sg_key s = k) ss of None \<Rightarrow> None | Some s \<Rightarrow> focus_state s w)"

lemma poll_inv_start:
  assumes ok: "start_ok spans focus n"
  shows "poll_inv z now g spans focus n {} (closing spans focus n (gs_id ` {s \<in> set spans. z s}))"
proof -
  let ?D = "gs_id ` {s \<in> set spans. z s}"
  have ap: "distinct (map gs_id spans)" using ok by (simp add: start_ok_def rows_apart_def)
  have D: "gs_id s \<in> ?D \<longleftrightarrow> z s" if "s \<in> set spans" for s using that map_key_eq [OF ap] by auto
  have "map (\<lambda>f. if gf_span_id f \<in> ?D then end_focus f else f) focus = map (loaded_focus z now g spans {}) focus"
  proof (intro map_cong refl)
    fix f assume "f \<in> set focus"
    then obtain s where "s \<in> set spans" "gs_id s = gf_span_id f" "find (\<lambda>s. gs_id s = gf_span_id f) spans = Some s"
      using start_ok_owned [OF ok] by blast
    then show "(if gf_span_id f \<in> ?D then end_focus f else f) = loaded_focus z now g spans {} f"
      using D [of s] by (simp add: loaded_focus_def)
  qed
  moreover have "map (\<lambda>s. if gs_id s \<in> ?D then end_span s else s) spans = map (loaded_span z now {}) spans"
    using D by (simp add: loaded_span_def)
  moreover have "dict_get (filter (\<lambda>x. fst x \<notin> ?D) (focus_index focus)) i = dict_get (focus_index focus) i" if "i \<notin> ?D" for i
    using that by (induction focus) (auto simp: focus_index_def dict_get_def)
  moreover have "dict_get (po_by_span (closing spans focus n ?D)) i = None" if "n \<le> i" for i
    using ok that by (intro closing_index_None) (fastforce simp: start_ok_def)
  ultimately show ?thesis using D
    by (auto simp: poll_inv_def closing_def new_inv_def due_def)
qed

lemma apply_poll_inv:
  assumes ok: "start_ok spans focus n" and d: "distinct (map sg_key ss)"
  shows "poll_inv (stale (seen_by_key ss) now max_gap) now (state_of ss w) spans focus n (sg_key ` set ss)
           (apply_poll n spans focus ss now w max_gap)"
proof -
  have ap: "rows_apart spans focus" using ok by (simp add: start_ok_def)
  have keys: "by_key spans = map (\<lambda>s. (gs_key s, gs_id s)) spans"
    using ap by (simp add: by_key_def rows_apart_def fold_dict_set_distinct)
  have seen: "seen_by_key ss = map (\<lambda>s. (sg_key s, s)) ss"
    using d by (simp add: seen_by_key_def fold_dict_set_distinct)
  have "state_of ss w (sg_key sg) = focus_state sg w" if "sg \<in> set ss" for sg
    using find_by_key [OF d that] by (simp add: state_of_def)
  then show ?thesis
    using note_sightings [OF ok poll_inv_start [OF ok], of ss "state_of ss w" w] d
      close_stale_all [OF ap, of spans "{}"] ap
    by (simp add: apply_poll_def Let_def keys seen start_poll_closing rows_apart_def)
qed

section \<open>One run of the agent\<close>

text \<open>The two tables between runs.\<close>

definition games_ok :: "game_tables \<Rightarrow> bool" where
  "games_ok t \<longleftrightarrow>
     distinct (map gs_id (gt_spans t)) \<and> distinct (map gf_id (gt_focus t)) \<and>
     (\<forall>s \<in> set (gt_spans t). gs_id s < gt_fresh t \<and> gs_ended_at s \<in> {None, Some (gs_last_seen_at s)}) \<and>
     (\<forall>f \<in> set (gt_focus t). gf_id f < gt_fresh t \<and> gf_ended_at f \<in> {None, Some (gf_last_seen_at f)}) \<and>
     distinct (map gs_key (open_spans t)) \<and> distinct (map gf_span_id (open_focus t)) \<and>
     gf_span_id ` set (open_focus t) \<subseteq> gs_id ` set (open_spans t)"

lemma games_ok_start: "games_ok t \<Longrightarrow> start_ok (open_spans t) (open_focus t) (gt_fresh t)"
  by (auto simp: games_ok_def start_ok_def rows_apart_def open_spans_def open_focus_def distinct_map_filter)

lemma write_back_filter:
  assumes "distinct (map key rows')" "\<And>r. key (h r) = key r"
  shows "write_back key (map h (filter P rows')) rows' = map (\<lambda>r. if P r then h r else r) rows'"
  unfolding write_back_def
proof (intro map_cong refl)
  fix r assume r: "r \<in> set rows'"
  have d: "distinct (map key (map h (filter P rows')))" using assms by (simp add: comp_def distinct_map_filter)
  show "(case find (\<lambda>c. key c = key r) (map h (filter P rows')) of None \<Rightarrow> r | Some c \<Rightarrow> c) = (if P r then h r else r)"
  proof (cases "P r")
    case True
    then show ?thesis using find_by_key [OF d, of "h r"] r assms(2) by auto
  next
    case False
    have "find (\<lambda>c. key c = key r) (map h (filter P rows')) = None"
      using False r assms map_key_eq [OF assms(1), of _ r] by (auto simp: find_None_iff)
    with False show ?thesis by simp
  qed
qed

text \<open>The tables after a run, in terms of the rows before it and the rows that are new.\<close>

definition game_after ::
  "(game_span \<Rightarrow> bool) \<Rightarrow> instant \<Rightarrow> (game_key \<Rightarrow> string option) \<Rightarrow> game_key set \<Rightarrow> game_tables \<Rightarrow>
   game_span list \<Rightarrow> game_focus list \<Rightarrow> nat \<Rightarrow> game_tables" where
  "game_after z now g K t L R m =
     \<lparr>gt_spans = map (\<lambda>s. if gs_ended_at s = None then loaded_span z now K s else s) (gt_spans t) @ L,
      gt_focus = map (\<lambda>f. if gf_ended_at f = None then loaded_focus z now g (open_spans t) K f else f) (gt_focus t) @ R,
      gt_fresh = m\<rparr>"

definition run_window :: "sighting list \<Rightarrow> int option \<Rightarrow> int option" where
  "run_window ss probe = (if ss = [] then None else probe)"

definition run_gap :: "int \<Rightarrow> int" where
  "run_gap poll_interval_seconds = poll_interval_seconds * int GAP_POLLS * 1000000"

definition run_stale :: "sighting list \<Rightarrow> instant \<Rightarrow> int \<Rightarrow> game_span \<Rightarrow> bool" where
  "run_stale ss now poll_interval_seconds s \<longleftrightarrow>
     gs_key s \<notin> sg_key ` set ss \<or> run_gap poll_interval_seconds < now - gs_last_seen_at s"

lemma run_stale_eq: "distinct (map sg_key ss) \<Longrightarrow> stale (seen_by_key ss) now (run_gap i) = run_stale ss now i"
  by (intro ext) (force simp: stale_def run_stale_def seen_by_key_def fold_dict_set_distinct dict_get_def map_of_eq_None_iff)

lemma game_execute_after:
  fixes now :: instant and i :: int and probe :: "int option"
  assumes ok: "games_ok t" and d: "distinct (map sg_key ss)"
  defines "z \<equiv> run_stale ss now i" and "g \<equiv> state_of ss (run_window ss probe)" and "K \<equiv> sg_key ` set ss"
  obtains L R m where "snd (game_execute ss probe now i t) = game_after z now g K t L R m"
    "new_inv now g {s \<in> set (open_spans t). \<not> z s} (stretch ` set (open_focus t)) (gt_fresh t) K m L R"
proof -
  let ?p = "apply_poll (gt_fresh t) (open_spans t) (open_focus t) ss now (run_window ss probe) (run_gap i)"
  have inv: "poll_inv z now g (open_spans t) (open_focus t) (gt_fresh t) K ?p"
    using apply_poll_inv [OF games_ok_start [OF ok] d, of now "run_gap i"] run_stale_eq [OF d, of now i]
    by (simp add: z_def g_def K_def)
  have "snd (game_execute ss probe now i t) = game_after z now g K t (lefts (po_new ?p)) (rights (po_new ?p)) (po_fresh ?p)"
    using inv ok
    by (simp add: game_execute_def run_window_def [symmetric] run_gap_def [symmetric] game_after_def poll_inv_def
        games_ok_def open_spans_def [of t] open_focus_def write_back_filter Let_def)
  then show thesis using that inv by (simp add: poll_inv_def)
qed

lemma filter_map_cong:
  "(\<And>x. x \<in> set xs \<Longrightarrow> Q (h x) = P x \<and> (P x \<longrightarrow> h x = h' x)) \<Longrightarrow> filter Q (map h xs) = map h' (filter P xs)"
  by (induction xs) auto

lemma open_spans_after:
  assumes "\<forall>s \<in> set (open_spans t). \<not> z s \<longrightarrow> gs_key s \<in> K" "new_inv now g A C n K m L R"
  shows "open_spans (game_after z now g K t L R m) =
         map (\<lambda>s. s\<lparr>gs_last_seen_at := now\<rparr>) (filter (\<lambda>s. \<not> z s) (open_spans t)) @ L"
proof -
  have "filter (\<lambda>s. gs_ended_at s = None) (map (\<lambda>s. if gs_ended_at s = None then loaded_span z now K s else s) (gt_spans t)) =
        map (\<lambda>s. s\<lparr>gs_last_seen_at := now\<rparr>) (filter (\<lambda>s. gs_ended_at s = None \<and> \<not> z s) (gt_spans t))"
    using assms(1) by (intro filter_map_cong) (auto simp: loaded_span_def open_spans_def)
  moreover have "filter (\<lambda>s. gs_ended_at s = None) L = L" using assms(2) by (auto simp: new_inv_def)
  ultimately show ?thesis by (simp add: game_after_def open_spans_def)
qed

definition continues :: "(game_span \<Rightarrow> bool) \<Rightarrow> (game_key \<Rightarrow> string option) \<Rightarrow> game_span list \<Rightarrow> game_focus \<Rightarrow> bool" where
  "continues z g spans f \<longleftrightarrow> (\<exists>s \<in> set spans. gs_id s = gf_span_id f \<and> \<not> z s \<and> g (gs_key s) = Some (gf_state f))"

lemma open_focus_after:
  assumes ok: "games_ok t" and K: "\<forall>s \<in> set (open_spans t). \<not> z s \<longrightarrow> gs_key s \<in> K"
    and new: "new_inv now g A C n K m L R"
  shows "open_focus (game_after z now g K t L R m) =
         map (\<lambda>f. f\<lparr>gf_last_seen_at := now\<rparr>) (filter (continues z g (open_spans t)) (open_focus t)) @ R"
proof -
  have one: "gf_ended_at (loaded_focus z now g (open_spans t) K f) = None \<longleftrightarrow> continues z g (open_spans t) f"
    "continues z g (open_spans t) f \<Longrightarrow> loaded_focus z now g (open_spans t) K f = f\<lparr>gf_last_seen_at := now\<rparr>"
    if f: "f \<in> set (gt_focus t)" "gf_ended_at f = None" for f
  proof -
    have "f \<in> set (open_focus t)" using f by (simp add: open_focus_def)
    then obtain s where s: "s \<in> set (open_spans t)" "gs_id s = gf_span_id f"
      "find (\<lambda>s. gs_id s = gf_span_id f) (open_spans t) = Some s"
      using start_ok_owned [OF games_ok_start [OF ok]] by blast
    have "s' = s" if "s' \<in> set (open_spans t)" "gs_id s' = gf_span_id f" for s'
      using start_ok_owner [OF games_ok_start [OF ok] that] s(3) by simp
    then have "continues z g (open_spans t) f \<longleftrightarrow> \<not> z s \<and> g (gs_key s) = Some (gf_state f)"
      using s(1,2) unfolding continues_def by blast
    then show "gf_ended_at (loaded_focus z now g (open_spans t) K f) = None \<longleftrightarrow> continues z g (open_spans t) f"
      "continues z g (open_spans t) f \<Longrightarrow> loaded_focus z now g (open_spans t) K f = f\<lparr>gf_last_seen_at := now\<rparr>"
      using s(1,3) K f(2) by (auto simp: loaded_focus_def)
  qed
  have "filter (\<lambda>f. gf_ended_at f = None)
          (map (\<lambda>f. if gf_ended_at f = None then loaded_focus z now g (open_spans t) K f else f) (gt_focus t)) =
        map (\<lambda>f. f\<lparr>gf_last_seen_at := now\<rparr>) (filter (\<lambda>f. gf_ended_at f = None \<and> continues z g (open_spans t) f) (gt_focus t))"
    using one by (intro filter_map_cong) auto
  moreover have "filter (\<lambda>f. gf_ended_at f = None) R = R" using new by (auto simp: new_inv_def)
  ultimately show ?thesis by (simp add: game_after_def open_focus_def)
qed

lemma loaded_span_ended: "gs_ended_at s = None \<Longrightarrow>
   gs_ended_at (loaded_span z now K s) \<in> {None, Some (gs_last_seen_at (loaded_span z now K s))}"
  by (simp add: loaded_span_def)

lemma loaded_focus_ended: "gf_ended_at f = None \<Longrightarrow>
   gf_ended_at (loaded_focus z now g spans K f) \<in> {None, Some (gf_last_seen_at (loaded_focus z now g spans K f))}"
  by (auto simp: loaded_focus_def split: option.splits)

lemma games_ok_span:
  "games_ok t \<Longrightarrow> s \<in> set (gt_spans t) \<Longrightarrow> gs_id s < gt_fresh t \<and> gs_ended_at s \<in> {None, Some (gs_last_seen_at s)}"
  by (simp add: games_ok_def)

lemma games_ok_focus:
  "games_ok t \<Longrightarrow> f \<in> set (gt_focus t) \<Longrightarrow> gf_id f < gt_fresh t \<and> gf_ended_at f \<in> {None, Some (gf_last_seen_at f)}"
  by (simp add: games_ok_def)

lemma ball_map_append:
  "(\<And>x. x \<in> set xs \<Longrightarrow> P (h x)) \<Longrightarrow> (\<And>y. y \<in> set ys \<Longrightarrow> P y) \<Longrightarrow> \<forall>r \<in> set (map h xs @ ys). P r"
  by auto

lemma game_after_rows:
  fixes z :: "game_span \<Rightarrow> bool"
  assumes ok: "games_ok t" and new: "new_inv now g A C (gt_fresh t) K m L R"
  defines "t' \<equiv> game_after z now g K t L R m"
  shows "distinct (map gs_id (gt_spans t'))" "distinct (map gf_id (gt_focus t'))"
    "\<forall>s \<in> set (gt_spans t'). gs_id s < gt_fresh t' \<and> gs_ended_at s \<in> {None, Some (gs_last_seen_at s)}"
    "\<forall>f \<in> set (gt_focus t'). gf_id f < gt_fresh t' \<and> gf_ended_at f \<in> {None, Some (gf_last_seen_at f)}"
proof -
  have ids: "map gs_id (gt_spans t') = map gs_id (gt_spans t) @ map gs_id L"
    "map gf_id (gt_focus t') = map gf_id (gt_focus t) @ map gf_id R"
    by (simp_all add: t'_def game_after_def)
  show "distinct (map gs_id (gt_spans t'))" "distinct (map gf_id (gt_focus t'))"
    using ok new unfolding ids by (fastforce simp: games_ok_def new_inv_def)+
  have nm: "gt_fresh t \<le> m" "gt_fresh t' = m" using new by (simp_all add: new_inv_def t'_def game_after_def)
  show "\<forall>s \<in> set (gt_spans t'). gs_id s < gt_fresh t' \<and> gs_ended_at s \<in> {None, Some (gs_last_seen_at s)}"
    unfolding nm unfolding t'_def game_after_def game_tables.simps
  proof (rule ball_map_append)
    fix s assume "s \<in> set (gt_spans t)"
    then show "gs_id (if gs_ended_at s = None then loaded_span z now K s else s) < m \<and>
        gs_ended_at (if gs_ended_at s = None then loaded_span z now K s else s) \<in>
          {None, Some (gs_last_seen_at (if gs_ended_at s = None then loaded_span z now K s else s))}"
      using games_ok_span [OF ok] nm(1) loaded_span_ended [of s z now K] by fastforce
  qed (use new in \<open>auto simp: new_inv_def\<close>)
  show "\<forall>f \<in> set (gt_focus t'). gf_id f < gt_fresh t' \<and> gf_ended_at f \<in> {None, Some (gf_last_seen_at f)}"
    unfolding nm unfolding t'_def game_after_def game_tables.simps
  proof (rule ball_map_append)
    fix f assume "f \<in> set (gt_focus t)"
    then show "gf_id (if gf_ended_at f = None then loaded_focus z now g (open_spans t) K f else f) < m \<and>
        gf_ended_at (if gf_ended_at f = None then loaded_focus z now g (open_spans t) K f else f) \<in>
          {None, Some (gf_last_seen_at (if gf_ended_at f = None then loaded_focus z now g (open_spans t) K f else f))}"
      using games_ok_focus [OF ok] nm(1) loaded_focus_ended [of f z now g "open_spans t" K] by fastforce
  qed (use new in \<open>auto simp: new_inv_def\<close>)
qed

lemma new_inv_stretch:
  assumes new: "new_inv now g A C n K m L R" and ok: "alive_ok n A"
    and f: "f \<in> set R" and s: "s \<in> A \<union> set L" "gs_id s = gf_span_id f"
  shows "g (gs_key s) = Some (gf_state f)" "stretch f \<notin> C"
proof -
  have f': "stretch f \<in> due g C (A \<union> set L) K" using new f by (auto simp: new_inv_def)
  then show "stretch f \<notin> C" by (rule due_carried)
  from due_state [OF f' [unfolded stretch_def]]
  obtain s' where s': "s' \<in> A \<union> set L" "gs_id s' = gf_span_id f" "g (gs_key s') = Some (gf_state f)" by blast
  have "s' = s" by (rule inj_onD [OF new_inv_ids [OF new ok]]) (use s s'(1,2) in simp_all)
  with s'(3) show "g (gs_key s) = Some (gf_state f)" by simp
qed

lemma games_ok_alive: "games_ok t \<Longrightarrow> alive_ok (gt_fresh t) {s \<in> set (open_spans t). \<not> z s}"
  by (rule start_ok_alive [OF games_ok_start])

lemma game_after_ok:
  fixes z :: "game_span \<Rightarrow> bool" and t :: game_tables
  defines "A \<equiv> {s \<in> set (open_spans t). \<not> z s}" and "C \<equiv> stretch ` set (open_focus t)"
  assumes ok: "games_ok t" and K: "\<forall>s \<in> set (open_spans t). \<not> z s \<longrightarrow> gs_key s \<in> K"
    and new: "new_inv now g A C (gt_fresh t) K m L R"
  shows "games_ok (game_after z now g K t L R m)"
proof -
  let ?t = "game_after z now g K t L R m"
  have alive: "alive_ok (gt_fresh t) A" unfolding A_def by (rule games_ok_alive [OF ok])
  have keys: "map gs_key (open_spans ?t) = map gs_key (filter (\<lambda>s. \<not> z s) (open_spans t)) @ map gs_key L"
    and ids: "gs_id ` set (open_spans ?t) = gs_id ` A \<union> gs_id ` set L"
    using open_spans_after [OF K new] by (simp_all add: A_def image_Un image_image comp_def)
  have sp: "map gf_span_id (open_focus ?t) = map gf_span_id (filter (continues z g (open_spans t)) (open_focus t)) @ map gf_span_id R"
    using open_focus_after [OF ok K new] by simp
  have k_dist: "distinct (map gs_key (open_spans ?t))"
    using ok new unfolding keys by (auto simp: games_ok_def new_inv_def A_def distinct_map_filter)
  have "gf_span_id f \<notin> gf_span_id ` set R" if f: "f \<in> set (open_focus t)" "continues z g (open_spans t) f" for f
  proof
    assume "gf_span_id f \<in> gf_span_id ` set R"
    then obtain f' where f': "f' \<in> set R" "gf_span_id f' = gf_span_id f" by auto
    obtain s where s: "s \<in> A" "gs_id s = gf_span_id f" "g (gs_key s) = Some (gf_state f)"
      using f(2) by (auto simp: continues_def A_def)
    have "stretch f' = stretch f" using new_inv_stretch [OF new alive f'(1), of s] s f'(2) by (simp add: stretch_def)
    then show False using new_inv_stretch(2) [OF new alive f'(1), of s] s f f'(2) by (simp add: C_def)
  qed
  then have f_dist: "distinct (map gf_span_id (open_focus ?t))"
    using ok new unfolding sp by (auto simp: games_ok_def new_inv_def distinct_map_filter)
  have "gf_span_id f \<in> gs_id ` set (open_spans ?t)" if "f \<in> set R" for f
    unfolding ids image_Un [symmetric] using new_inv_owner [OF new that] by (metis imageI)
  moreover have "gf_span_id f \<in> gs_id ` set (open_spans ?t)" if "continues z g (open_spans t) f" for f
    using that unfolding ids continues_def A_def by (metis (mono_tags, lifting) UnI1 imageI mem_Collect_eq)
  ultimately have "gf_span_id ` set (open_focus ?t) \<subseteq> gs_id ` set (open_spans ?t)"
    using open_focus_after [OF ok K new] by auto
  then show ?thesis using k_dist f_dist game_after_rows [OF ok new, of z] by (simp add: games_ok_def)
qed

lemma game_after_keys:
  fixes z :: "game_span \<Rightarrow> bool" and t :: game_tables
  assumes K: "\<forall>s \<in> set (open_spans t). \<not> z s \<longrightarrow> gs_key s \<in> K"
    and new: "new_inv now g {s \<in> set (open_spans t). \<not> z s} C n K m L R"
  shows "gs_key ` set (open_spans (game_after z now g K t L R m)) = K"
    and "\<forall>s \<in> set (open_spans (game_after z now g K t L R m)). gs_last_seen_at s = now"
proof -
  have "gs_key ` set L = K - gs_key ` {s \<in> set (open_spans t). \<not> z s}" using new by (simp add: new_inv_def)
  then show "gs_key ` set (open_spans (game_after z now g K t L R m)) = K"
    using K unfolding open_spans_after [OF K new] by (auto simp: image_Un image_image)
  show "\<forall>s \<in> set (open_spans (game_after z now g K t L R m)). gs_last_seen_at s = now"
    using new unfolding open_spans_after [OF K new] by (auto simp: new_inv_def)
qed

text \<open>Exactly the games with a state have an open stretch, and it is of that state.\<close>

lemma game_after_focus:
  fixes z :: "game_span \<Rightarrow> bool" and t :: game_tables
  defines "A \<equiv> {s \<in> set (open_spans t). \<not> z s}" and "C \<equiv> stretch ` set (open_focus t)"
  assumes ok: "games_ok t" and K: "\<forall>s \<in> set (open_spans t). \<not> z s \<longrightarrow> gs_key s \<in> K"
    and new: "new_inv now g A C (gt_fresh t) K m L R"
    and s: "s \<in> A \<union> set L"
  shows "(\<exists>f \<in> set (open_focus (game_after z now g K t L R m)). gf_span_id f = gs_id s \<and> gf_state f = st) \<longleftrightarrow>
         g (gs_key s) = Some st"
proof -
  have alive: "alive_ok (gt_fresh t) A" unfolding A_def by (rule games_ok_alive [OF ok])
  have old: "s' = s" if "s' \<in> A" "gs_id s' = gs_id s" for s'
    by (rule inj_onD [OF new_inv_ids [OF new alive]]) (use s that in simp_all)
  have carried: "g (gs_key s) = Some (gf_state f)" if "continues z g (open_spans t) f" "gf_span_id f = gs_id s" for f
    using that old by (auto simp: continues_def A_def)
  have added: "g (gs_key s) = Some (gf_state f)" if "f \<in> set R" "gf_span_id f = gs_id s" for f
    using new_inv_stretch(1) [OF new alive that(1) s] that(2) by simp
  have "\<exists>f \<in> set (open_focus t). continues z g (open_spans t) f \<and> gf_span_id f = gs_id s \<and> gf_state f = st"
    if st: "g (gs_key s) = Some st" and c: "(gs_id s, st) \<in> C"
  proof -
    obtain f where f: "f \<in> set (open_focus t)" "gf_span_id f = gs_id s" "gf_state f = st"
      using c by (auto simp: C_def stretch_def)
    obtain s' where s': "s' \<in> set (open_spans t)" "gs_id s' = gs_id s"
      using ok f(1,2) by (fastforce simp: games_ok_def)
    then have "s \<in> A" using s new ok by (fastforce simp: new_inv_def games_ok_def open_spans_def)
    then have "continues z g (open_spans t) f" using f st by (auto simp: continues_def A_def)
    with f show ?thesis by blast
  qed
  moreover have "\<exists>f \<in> set R. gf_span_id f = gs_id s \<and> gf_state f = st"
    if st: "g (gs_key s) = Some st" and c: "(gs_id s, st) \<notin> C"
  proof -
    have "gs_key s \<in> K" using s K new by (auto simp: A_def new_inv_def)
    then have "(gs_id s, st) \<in> stretch ` set R" using new s st c by (auto simp: new_inv_def due_def)
    then show ?thesis by (auto simp: stretch_def)
  qed
  ultimately show ?thesis
    using open_focus_after [OF ok K new] carried added by (cases "(gs_id s, st) \<in> C") (auto simp: bex_Un)
qed

lemma run_K: "\<forall>s \<in> set (open_spans t). \<not> run_stale ss now i s \<longrightarrow> gs_key s \<in> sg_key ` set ss"
  by (simp add: run_stale_def)

lemma game_execute_ok:
  assumes "games_ok t" "distinct (map sg_key ss)"
  shows "games_ok (snd (game_execute ss probe now i t))"
proof (rule game_execute_after [OF assms, where now = now and i = i and probe = probe])
  fix L R m
  assume "snd (game_execute ss probe now i t) =
      game_after (run_stale ss now i) now (state_of ss (run_window ss probe)) (sg_key ` set ss) t L R m"
    and "new_inv now (state_of ss (run_window ss probe)) {s \<in> set (open_spans t). \<not> run_stale ss now i s}
      (stretch ` set (open_focus t)) (gt_fresh t) (sg_key ` set ss) m L R"
  then show ?thesis using game_after_ok [OF assms(1) run_K] by simp
qed

lemma close_open_spans_ok:
  assumes "games_ok t"
  shows "games_ok (snd (close_open_spans t))" "open_spans (snd (close_open_spans t)) = []"
    "open_focus (snd (close_open_spans t)) = []"
proof -
  show none: "open_spans (snd (close_open_spans t)) = []" "open_focus (snd (close_open_spans t)) = []"
    by (auto simp: close_open_spans_def open_spans_def open_focus_def filter_empty_conv)
  have ids: "map gs_id (gt_spans (snd (close_open_spans t))) = map gs_id (gt_spans t)"
    "map gf_id (gt_focus (snd (close_open_spans t))) = map gf_id (gt_focus t)"
    by (simp_all add: close_open_spans_def)
  have "\<forall>s \<in> set (gt_spans (snd (close_open_spans t))). gs_id s < gt_fresh t \<and> gs_ended_at s \<in> {None, Some (gs_last_seen_at s)}"
    using games_ok_span [OF assms] by (auto simp: close_open_spans_def)
  moreover have "\<forall>f \<in> set (gt_focus (snd (close_open_spans t))). gf_id f < gt_fresh t \<and> gf_ended_at f \<in> {None, Some (gf_last_seen_at f)}"
    using games_ok_focus [OF assms] by (auto simp: close_open_spans_def)
  moreover have "gt_fresh (snd (close_open_spans t)) = gt_fresh t" by (simp add: close_open_spans_def)
  ultimately show "games_ok (snd (close_open_spans t))"
    using assms unfolding games_ok_def none ids by simp
qed

text \<open>What the tables may be: empty at first, then after any sequence of starts of the daemon and runs of the agent.\<close>

inductive game_history :: "game_tables \<Rightarrow> bool" where
  first: "game_history \<lparr>gt_spans = [], gt_focus = [], gt_fresh = 0\<rparr>"
| started: "game_history t \<Longrightarrow> game_history (snd (close_open_spans t))"
| ran: "game_history t \<Longrightarrow> detect_games comm_first ps games steam_name = Some ss \<Longrightarrow>
        game_history (snd (game_execute ss probe now i t))"

lemma detect_games_keys: "detect_games comm_first ps games steam_name = Some ss \<Longrightarrow> distinct (map sg_key ss)"
  using detect_games_returns [of comm_first ps games steam_name] by auto

lemma game_history_ok: "game_history t \<Longrightarrow> games_ok t"
proof (induction rule: game_history.induct)
  case first
  then show ?case by (simp add: games_ok_def open_spans_def open_focus_def)
next
  case (started t)
  then show ?case using close_open_spans_ok by blast
next
  case (ran t comm_first ps games steam_name ss probe now i)
  then show ?case using game_execute_ok detect_games_keys by blast
qed

text \<open>The row a span becomes in a run.\<close>

definition span_after :: "sighting list \<Rightarrow> instant \<Rightarrow> int \<Rightarrow> game_span \<Rightarrow> game_span" where
  "span_after ss now i s =
     (if gs_ended_at s \<noteq> None then s else if run_stale ss now i s then end_span s else s\<lparr>gs_last_seen_at := now\<rparr>)"

lemma span_after_loaded:
  "span_after ss now i s = (if gs_ended_at s = None then loaded_span (run_stale ss now i) now (sg_key ` set ss) s else s)"
  by (auto simp: span_after_def loaded_span_def run_stale_def)

lemma state_of_sighting:
  assumes "distinct (map sg_key ss)" "sg \<in> set ss"
  shows "state_of ss (run_window ss probe) (sg_key sg) = focus_state sg probe"
  using find_by_key [OF assms] assms(2) by (auto simp: state_of_def run_window_def)

text \<open>
  C40: After any history of starts and polls, a poll detects some list of games and leaves the tables
  like this: exactly the games detected have an open span, one each and seen now; a game has an
  open stretch exactly when its focus state says so, and of that state; every earlier span is kept,
  closed at the moment it was last seen when the game is gone or was not looked at for longer than
  the gap, and carried on otherwise; no closed span changes.
\<close>

theorem game_run_exact:
  assumes "game_history t"
  shows "\<exists>ss. detect_games comm_first ps games steam_name = Some ss \<and>
    (let t' = snd (game_execute ss probe now i t) in
       games_ok t' \<and> gs_key ` set (open_spans t') = sg_key ` set ss \<and>
       (\<forall>s \<in> set (open_spans t'). gs_last_seen_at s = now) \<and>
       (\<forall>s \<in> set (open_spans t'). \<forall>sg \<in> set ss. \<forall>st. gs_key s = sg_key sg \<longrightarrow>
          ((\<exists>f \<in> set (open_focus t'). gf_span_id f = gs_id s \<and> gf_state f = st) \<longleftrightarrow> focus_state sg probe = Some st)) \<and>
       (\<exists>opened. gt_spans t' = map (span_after ss now i) (gt_spans t) @ opened))"
proof -
  have ok: "games_ok t" by (rule game_history_ok [OF assms])
  obtain ss where ss: "detect_games comm_first ps games steam_name = Some ss" "distinct (map sg_key ss)"
    using detect_games_returns by blast
  let ?z = "run_stale ss now i" and ?g = "state_of ss (run_window ss probe)" and ?K = "sg_key ` set ss"
  let ?t = "snd (game_execute ss probe now i t)"
  obtain L R m where t': "?t = game_after ?z now ?g ?K t L R m"
    and new: "new_inv now ?g {s \<in> set (open_spans t). \<not> ?z s} (stretch ` set (open_focus t)) (gt_fresh t) ?K m L R"
    using game_execute_after [OF ok ss(2)] by blast
  have "(\<exists>f \<in> set (open_focus ?t). gf_span_id f = gs_id s \<and> gf_state f = st) \<longleftrightarrow> focus_state sg probe = Some st"
    if s: "s \<in> set (open_spans ?t)" "sg \<in> set ss" "gs_key s = sg_key sg" for s sg st
  proof -
    have "s \<in> (\<lambda>s. s\<lparr>gs_last_seen_at := now\<rparr>) ` {s \<in> set (open_spans t). \<not> ?z s} \<union> set L"
      using s(1) unfolding t' open_spans_after [OF run_K new] by simp
    then obtain s0 where "s0 \<in> {s \<in> set (open_spans t). \<not> ?z s} \<union> set L" "gs_id s = gs_id s0" "gs_key s = gs_key s0"
    proof (elim UnE imageE)
      fix x assume "s = x\<lparr>gs_last_seen_at := now\<rparr>" "x \<in> {s \<in> set (open_spans t). \<not> ?z s}"
      then show thesis using that [of x] by simp
    qed (use that [of s] in simp)
    then show ?thesis
      using game_after_focus [OF ok run_K new, of s0 st] state_of_sighting [OF ss(2) s(2)] s(3) by (simp add: t')
  qed
  moreover have "gt_spans ?t = map (span_after ss now i) (gt_spans t) @ L"
    by (simp add: t' game_after_def span_after_loaded)
  moreover have "gs_key ` set (open_spans ?t) = ?K" "\<forall>s \<in> set (open_spans ?t). gs_last_seen_at s = now"
    unfolding t' by (rule game_after_keys [OF run_K new])+
  moreover have "games_ok ?t" by (rule game_execute_ok [OF ok ss(2)])
  ultimately show ?thesis using ss(1) by (intro exI [of _ ss]) (simp add: Let_def)
qed

lemma game_history_one:
  "game_history
     \<lparr>gt_spans = [\<lparr>gs_id = 0, gs_game = ''Deadlock'', gs_matched_by = MATCHED_BY_STEAM, gs_appid = Some 42, gs_executable = None,
        gs_pid = 5, gs_started_at = 0, gs_last_seen_at = 0, gs_ended_at = None\<rparr>],
      gt_focus = [\<lparr>gf_id = 1, gf_span_id = 0, gf_state = FOCUSED, gf_started_at = 0, gf_last_seen_at = 0, gf_ended_at = None\<rparr>],
      gt_fresh = 2\<rparr>"
proof -
  let ?ps = "[\<lparr>pr_pid = 5, pr_ppid = 1, pr_comm = ''reaper'', pr_argv = [''SteamLaunch'', ''AppId=42'']\<rparr>,
              \<lparr>pr_pid = 7, pr_ppid = 5, pr_comm = ''deadlock.exe'', pr_argv = []\<rparr>]"
  let ?ss = "[\<lparr>sg_game = ''Deadlock'', sg_matched_by = MATCHED_BY_STEAM, sg_appid = Some 42, sg_executable = None,
              sg_pid = 5, sg_pids = [7, 5]\<rparr>]"
  have "detect_games (\<lambda>_ _. False) ?ps [] (\<lambda>_. ''Deadlock'') = Some ?ss" by code_simp
  from game_history.ran [OF game_history.first this, of "Some 7" 0 60] show ?thesis
    by (simp add: game_execute_def apply_poll_def by_key_def seen_by_key_def start_poll_def open_spans_def open_focus_def
        note_sighting_def span_for_def note_focus_def focus_state_def write_back_def new_span_def new_focus_def dict_set_def
        Let_def lefts_def rights_def numeral_2_eq_2)
qed

theorem game_run_exact_witness:
  "\<exists>ss. detect_games (\<lambda>_ _. False) [] [] (\<lambda>_. ''Deadlock'') = Some ss \<and>
     gs_key ` set (open_spans (snd (game_execute ss None 60000000 60
       \<lparr>gt_spans = [\<lparr>gs_id = 0, gs_game = ''Deadlock'', gs_matched_by = MATCHED_BY_STEAM, gs_appid = Some 42, gs_executable = None,
          gs_pid = 5, gs_started_at = 0, gs_last_seen_at = 0, gs_ended_at = None\<rparr>],
        gt_focus = [\<lparr>gf_id = 1, gf_span_id = 0, gf_state = FOCUSED, gf_started_at = 0, gf_last_seen_at = 0, gf_ended_at = None\<rparr>],
        gt_fresh = 2\<rparr>))) = sg_key ` set ss"
  using game_run_exact [OF game_history_one, of "\<lambda>_ _. False" "[]" "[]" "\<lambda>_. ''Deadlock''" None 60000000 60]
  unfolding Let_def by blast

end
