(* ===== verification/Spec2Isabelle.thy ===== *)
theory Spec2Isabelle
  imports Sysadmin_Execute Tray Log_Aggregator Event_Bus Retention Reliability Desktop Games
begin

text \<open>
  A verification development for the system-administration assistant of this repository: a daemon
  (\<open>src/sysadmin\<close>) whose agents check one host on a schedule, raise alerts into one table and
  resolve them again, and a tray application (\<open>src/sysadmin_tray\<close>) that polls the daemon and
  decides when to speak to the person at the desk.

  \<^bold>\<open>How the parts work together.\<close> The scheduler starts an agent's \<open>BaseAgent.run\<close>
  (\<open>core/agent.py\<close>): a row of \<open>agent_runs\<close> is committed as running, the agent's \<open>_execute\<close> works in
  one transaction, and the outcome is written last; the events the work buffered are published only
  after it committed. The agents write alerts through three operations of \<open>BaseAgent\<close>, under the
  constraints of the table, of which the partial unique index on the open titles matters most. The
  monitor (\<open>monitor/agent.py\<close>) is the largest agent: it reads the services, the resources, the other
  agents' runs, the database catalog and the journal's horizon; the log aggregator reads the logs;
  the game detector reads the process table. Published events reach the event stream
  (\<open>monitor/sse.py\<close>), which the tray reads, and the desktop notifier (\<open>monitor/desktop.py\<close>), which
  speaks when no tray is watching. A nightly purge (\<open>core/retention.py\<close>) and a daily score
  (\<open>monitor/reliability_history.py\<close>) work on what the agents stored.

  \<^bold>\<open>Theories, sources and what is shown.\<close>

  \<^item> \<open>Sys_Prelude\<close>: Python's texts, numbers, clocks and dicts, JSON values, SQL patterns, and the
    facts about them that the component proofs share.
  \<^item> \<open>Escalation\<close> (\<open>core/escalation.py\<close>): severities, steps and the two-rung ladder. Time only
    moves a fault up, and to escalate and to quieten never apply at once.
  \<^item> \<open>Alerts\<close> (\<open>core/models/alert.py\<close>, the writes of \<open>core/agent.py\<close>): the table with its
    constraints. The locale \<open>agent_writes\<close> states what every writer promises; \<open>raise_alert\<close>,
    \<open>refresh_alert\<close> and \<open>resolve_alerts\<close> interpret it, and each has its exact specification,
    refusals included.
  \<^item> \<open>Agent_Runs\<close> (\<open>core/agent.py\<close>, \<open>core/models/agent_run.py\<close>, \<open>core/abandoned_runs.py\<close>): the run
    template with every failure it distinguishes, the lock as a step relation in which any number of
    runs interleave, and the startup sweep. A failed run leaves no trace, a completed one publishes
    after its commit, no two runs of an agent overlap.
  \<^item> \<open>Self_Monitor\<close> (\<open>monitor/self_monitor.py\<close>): schedules, stall windows and failure streaks.
  \<^item> \<open>Ladder_Families\<close> (\<open>monitor/stalls.py\<close>, \<open>monitor/failures.py\<close>): the two families of alerts about
    the daemon's own agents, as interpretations of the locale \<open>ladder_family\<close>.
  \<^item> \<open>Agent_Health\<close> (\<open>_check_agent_health\<close> of \<open>monitor/agent.py\<close>): both families applied to the table;
    afterwards exactly the faults of the report have an open row.
  \<^item> \<open>Services\<close> (\<open>monitor/services.py\<close>, \<open>monitor/models/service_health.py\<close>, \<open>estate/client.py\<close>): the
    declared services, the checks they call for, and the arbiter's answer.
  \<^item> \<open>Sysadmin_Status\<close> (\<open>monitor/agent.py\<close>): from the result of a check to rows, one savepoint per
    service, and the recovery of rows. A refused write affects its own service only.
  \<^item> \<open>Sysadmin_Resources\<close> (\<open>monitor/agent.py\<close>, \<open>monitor/anomaly.py\<close>): limits and the z-score detector,
    and exactly which rows they leave open.
  \<^item> \<open>Standing_Checks\<close> (\<open>monitor/collation.py\<close>, \<open>monitor/journal_horizon.py\<close>): stale collations, the
    journal's horizon and core-dump loops.
  \<^item> \<open>Sysadmin_Execute\<close> (\<open>monitor/agent.py\<close>): one whole run of the monitor, composed of the checks
    above and run by the template of \<open>Agent_Runs\<close>; two ways in which one check fails them all.
  \<^item> \<open>Log_Signature\<close> (\<open>monitor/log_signature.py\<close>), \<open>Journal\<close> (\<open>monitor/journal.py\<close>), \<open>Log_Incidents\<close>
    (\<open>monitor/log_actions.py\<close>, the folding in \<open>monitor/log_aggregator.py\<close>), \<open>Log_Aggregator\<close> (the rest
    of \<open>monitor/log_aggregator.py\<close>, \<open>monitor/models/log_entry.py\<close>): a run of the log aggregator, from
    the sources to the rows. Signatures are canonical, folding loses and quietens nothing, a run
    leaves one open row per fault, and a read resumes without storing a line twice.
  \<^item> \<open>Event_Bus\<close> (\<open>core/event_bus.py\<close>, \<open>monitor/sse.py\<close>): publishing and the bounded queues of the
    event stream, which refine an append-only log with a read position.
  \<^item> \<open>Retention\<close> (\<open>core/retention.py\<close>, \<open>core/models/retention_config.py\<close>): which rows the purge deletes,
    table by table, whatever the database refuses.
  \<^item> \<open>Reliability\<close> (\<open>monitor/reliability.py\<close>, \<open>monitor/reliability_history.py\<close>,
    \<open>monitor/models/reliability_score.py\<close>): the score, its bounds, and the rows of the daily job.
  \<^item> \<open>Dnd\<close> (\<open>monitor/dnd.py\<close>): Do Not Disturb windows, as they are written and as they are read.
  \<^item> \<open>Desktop\<close> (\<open>monitor/desktop.py\<close>, \<open>monitor/models/desktop_notification.py\<close>): the notifier that
    stands in for the tray; over every history of events, sweeps and restarts it adopts at most five
    faults and never reminds early.
  \<^item> \<open>Games\<close> (\<open>games/detect.py\<close>, \<open>games/agent.py\<close>, \<open>games/models.py\<close>): detection in the process table,
    and the spans and stretches of focus a poll keeps. The walk over the process tree ends on every
    table, and after any history of starts and polls exactly the detected games have an open span.
  \<^item> \<open>Notification_Policy\<close> (\<open>NotificationPolicy\<close> of \<open>sysadmin_tray/notifications.py\<close>): what the tray
    says and when, over whole sequences of polls.
  \<^item> \<open>Tray\<close> (\<open>DbusNotifier\<close>, \<open>sysadmin_tray/tray_icon.py\<close>, \<open>sysadmin_tray/models.py\<close>): popups, their
    buttons and the icon.

  \<^bold>\<open>Choices that hold throughout.\<close>

  \<^item> A database session is a record of its tables; a statement that the database refuses is an
    error value (\<open>Inl\<close>), and a savepoint restores the tables but not the memory of the process.
  \<^item> Clocks, subprocesses, HTTP answers, \<open>psutil\<close> and the files that are read are arguments: the
    theorems hold for every answer they may give. So are the functions of packages outside the
    repository (the \<open>estate\<close> text library, SHA-256, PostgreSQL's casts); what is relied on is a named
    hypothesis of the theorem that needs it, and its witness instantiates it.
  \<^item> A float is a rational, so the arithmetic is exact where Python rounds to 53 bits; the square root
    of the detector is exact to \<open>10\<^sup>-\<^sup>1\<^sup>2\<close>. Character classes of regular expressions are the ASCII ones.
  \<^item> There is no fuel. A loop of the code is structural recursion, a fold over a list or a \<open>function\<close>
    with its measure; the walk over the process tree, whose end nothing in its text shows, is a
    partial function and its termination is a theorem.

  \<^bold>\<open>Not modelled.\<close> The two checkers of documents against the repository (\<open>snag_claims.py\<close>,
  \<open>ops_claims.py\<close>) and the checker of vacuous tests are scripts over Markdown and Python syntax trees,
  with no part in the running daemon. The judgements over the estate (\<open>estate/judgements.py\<close>) read the
  surfaces of an external package. The unit and file agents (\<open>units/\<close>, \<open>files/\<close>) are parsers of
  systemd and file-system state. The reviews, briefings and recommendations hand texts to a language
  model. The HTTP routers, the configuration loader, the scheduler's wiring, authentication and the
  Qt windows are glue around frameworks.
\<close>

end
